(* ===== verification/Prelude.thy ===== *)
theory Prelude
  imports Main "HOL-Library.Word" "HOL-Library.Code_Target_Nat"
begin

unbundle bit_operations_syntax

text \<open>
  What every theory of the development shares: the integer conversions of the C++ code
  (\<open>SHORT\<close>, \<open>uint8_t\<close>, \<open>uint16_t\<close> and \<open>unsigned long\<close> casts on mathematical integers), the
  code point and coordinate types, the named collections the component proofs use, and generic
  lemmas about lists.

  Signed 16-bit values (\<open>SHORT\<close>, \<open>short\<close>) are integers; every store or cast to such a value in
  the code is an explicit \<open>to_short\<close>, which wraps as the cast does. Attribute words (\<open>WORD\<close>),
  on which the code works bit by bit, are \<open>16 word\<close>.
\<close>

section \<open>Collections of the component proofs\<close>

named_theorems wrap_simps \<open>values in range are unchanged by the integer casts\<close>
named_theorems parser_inv_intros \<open>steps that keep the parser's invariant\<close>
named_theorems row_simps \<open>unfolding of the row's small helpers\<close>

section \<open>Integer casts\<close>

definition to_short :: "int \<Rightarrow> int" where
  "to_short x = (x + 32768) mod 65536 - 32768"

definition to_u8 :: "int \<Rightarrow> nat" where
  "to_u8 x = nat (x mod 256)"

definition to_u16 :: "int \<Rightarrow> nat" where
  "to_u16 x = nat (x mod 65536)"

definition to_u32 :: "int \<Rightarrow> nat" where
  "to_u32 x = nat (x mod 4294967296)"

definition is_short :: "int \<Rightarrow> bool" where
  "is_short x \<longleftrightarrow> - 32768 \<le> x \<and> x \<le> 32767"

lemma to_short_id [wrap_simps]: "- 32768 \<le> x \<Longrightarrow> x \<le> 32767 \<Longrightarrow> to_short x = x"
  by (simp add: to_short_def)

lemma to_short_range: "- 32768 \<le> to_short x \<and> to_short x \<le> 32767"
proof -
  have "0 \<le> (x + 32768) mod 65536" and "(x + 32768) mod 65536 < 65536"
    by simp_all
  then show ?thesis
    unfolding to_short_def by linarith
qed

lemma is_short_to_short [simp, intro]: "is_short (to_short x)"
  using to_short_range by (simp add: is_short_def)

lemma to_short_short [wrap_simps]: "is_short x \<Longrightarrow> to_short x = x"
  by (simp add: is_short_def to_short_id)

lemma to_short_idem [simp]: "to_short (to_short x) = to_short x"
  by (simp add: to_short_short)

lemma to_short_cong: "x mod 65536 = y mod 65536 \<Longrightarrow> to_short x = to_short y"
  unfolding to_short_def by (metis mod_add_cong)

lemma to_short_mod [simp]: "to_short x mod 65536 = x mod 65536"
proof -
  have "((x + 32768) mod 65536 - 32768) mod 65536 = x mod 65536"
    by (simp add: mod_diff_left_eq)
  then show ?thesis by (simp add: to_short_def)
qed

lemma to_u8_bound [simp]: "to_u8 x < 256"
  by (simp add: to_u8_def nat_less_iff)

lemma to_u8_id [wrap_simps]: "0 \<le> x \<Longrightarrow> x \<le> 255 \<Longrightarrow> to_u8 x = nat x"
  by (simp add: to_u8_def)

lemma to_u16_bound [simp]: "to_u16 x < 65536"
  by (simp add: to_u16_def nat_less_iff)

lemma to_u16_id [wrap_simps]: "0 \<le> x \<Longrightarrow> x \<le> 65535 \<Longrightarrow> to_u16 x = nat x"
  by (simp add: to_u16_def)

lemma to_u16_short [simp]: "to_u16 (to_short x) = to_u16 x"
  by (simp add: to_u16_def)

lemma to_u16_nat [wrap_simps]: "n < 65536 \<Longrightarrow> to_u16 (int n) = n"
  by (simp add: to_u16_def)

lemma to_u32_id [wrap_simps]: "0 \<le> x \<Longrightarrow> x \<le> 4294967295 \<Longrightarrow> to_u32 x = nat x"
  by (simp add: to_u32_def)

section \<open>Code points, attributes, coordinates\<close>

text \<open>
  A \<open>char32_t\<close> is a natural number (the code only compares and copies code points); a
  \<open>std::u32string\<close> or \<open>u32string_view\<close> is a list of them.
\<close>

type_synonym char32 = nat
type_synonym u32 = "char32 list"
type_synonym attr = "16 word"

record coord =
  cX :: int
  cY :: int

record small_rect =
  rLeft :: int
  rTop :: int
  rRight :: int
  rBottom :: int

abbreviation coord :: "int \<Rightarrow> int \<Rightarrow> coord" where
  "coord x y \<equiv> \<lparr>cX = x, cY = y\<rparr>"

abbreviation small_rect :: "int \<Rightarrow> int \<Rightarrow> int \<Rightarrow> int \<Rightarrow> small_rect" where
  "small_rect l t r b \<equiv> \<lparr>rLeft = l, rTop = t, rRight = r, rBottom = b\<rparr>"

text \<open>\<open>std::clamp\<close> as its definition computes it: the lower bound is tested first.\<close>

definition clamp :: "int \<Rightarrow> int \<Rightarrow> int \<Rightarrow> int" where
  "clamp v lo hi = (if v < lo then lo else if hi < v then hi else v)"

lemma clamp_bounds: "lo \<le> hi \<Longrightarrow> lo \<le> clamp v lo hi \<and> clamp v lo hi \<le> hi"
  by (simp add: clamp_def)

lemma clamp_id [simp]: "lo \<le> v \<Longrightarrow> v \<le> hi \<Longrightarrow> clamp v lo hi = v"
  by (simp add: clamp_def)

section \<open>Lists\<close>

definition subseq :: "'a list \<Rightarrow> nat \<Rightarrow> nat \<Rightarrow> 'a list" where
  "subseq xs i n = take n (drop i xs)"

text \<open>\<open>std::basic_string::replace(pos, count, str)\<close> for \<open>pos \<le> size()\<close>.\<close>

definition str_replace :: "nat \<Rightarrow> nat \<Rightarrow> 'a list \<Rightarrow> 'a list \<Rightarrow> 'a list" where
  "str_replace pos count new xs = take pos xs @ new @ drop (pos + count) xs"

text \<open>Overwriting a stretch in place, as \<open>std::copy\<close> into an existing buffer does.\<close>

definition overwrite :: "nat \<Rightarrow> 'a list \<Rightarrow> 'a list \<Rightarrow> 'a list" where
  "overwrite pos new xs = take pos xs @ new @ drop (pos + length new) xs"

lemma length_overwrite [simp]:
  "pos + length new \<le> length xs \<Longrightarrow> length (overwrite pos new xs) = length xs"
  by (simp add: overwrite_def)

lemma overwrite_append [simp]:
  "pos = length A \<Longrightarrow> length new = length M \<Longrightarrow> overwrite pos new (A @ M @ B) = A @ new @ B"
  by (simp add: overwrite_def)

lemma str_replace_append [simp]:
  "pos = length A \<Longrightarrow> count = length M \<Longrightarrow> str_replace pos count new (A @ M @ B) = A @ new @ B"
  by (simp add: str_replace_def)

lemma overwrite_Nil [simp]: "overwrite pos [] xs = xs"
  by (simp add: overwrite_def)

lemma overwrite_full [simp]: "length new = length xs \<Longrightarrow> overwrite 0 new xs = new"
  by (simp add: overwrite_def)

lemma overwrite_single: "pos < length xs \<Longrightarrow> overwrite pos [x] xs = xs[pos := x]"
  by (simp add: overwrite_def upd_conv_take_nth_drop)

lemma takeWhile_append_length:
  "length (takeWhile P xs) = n \<Longrightarrow> n < length xs \<Longrightarrow> \<not> P (xs ! n)"
  using nth_length_takeWhile by blast

lemma take_takeWhile_length [simp]: "take (length (takeWhile P xs)) xs = takeWhile P xs"
  by (metis append_eq_conv_conj takeWhile_dropWhile_id)

lemma drop_takeWhile_length [simp]: "drop (length (takeWhile P xs)) xs = dropWhile P xs"
  by (metis append_eq_conv_conj takeWhile_dropWhile_id)

end
