(* ===== verification/Viewport.thy ===== *)
theory Viewport
  imports Prelude
begin

text \<open>
  The window onto the screen buffer (\<open>class console_viewport\<close>, \<open>libcorehost/console_viewport.hpp\<close>). Its
  only state is the rectangle \<open>_rect\<close>, so a viewport is a \<open>small_rect\<close>; a member that changes it and
  returns whether it changed is a function to the new rectangle and that flag. \<open>SHORT\<close> casts are
  written out.
\<close>

type_synonym console_viewport = small_rect

definition valid_dimension :: "int \<Rightarrow> int" where
  "valid_dimension v = max v 1"

definition clamped_dimension :: "int \<Rightarrow> int \<Rightarrow> int" where
  "clamped_dimension v maximum = to_short (clamp v 1 maximum)"

definition vp_reset_to_buffer :: "coord \<Rightarrow> console_viewport" where
  "vp_reset_to_buffer buffer_size =
     small_rect 0 0 (to_short (valid_dimension (cX buffer_size) - 1))
       (to_short (valid_dimension (cY buffer_size) - 1))"

definition vp_origin :: "console_viewport \<Rightarrow> coord" where
  "vp_origin v = coord (rLeft v) (rTop v)"

definition vp_size :: "console_viewport \<Rightarrow> coord" where
  "vp_size v = coord (to_short (rRight v - rLeft v + 1)) (to_short (rBottom v - rTop v + 1))"

definition vp_covers :: "coord \<Rightarrow> console_viewport \<Rightarrow> bool" where
  "vp_covers buffer_size v \<longleftrightarrow>
     rLeft v = 0 \<and> rTop v = 0 \<and> rRight v = valid_dimension (cX buffer_size) - 1
     \<and> rBottom v = valid_dimension (cY buffer_size) - 1"

definition vp_contains :: "coord \<Rightarrow> console_viewport \<Rightarrow> bool" where
  "vp_contains p v \<longleftrightarrow> cX p \<ge> rLeft v \<and> cX p \<le> rRight v \<and> cY p \<ge> rTop v \<and> cY p \<le> rBottom v"

definition vp_relative_position :: "coord \<Rightarrow> console_viewport \<Rightarrow> coord" where
  "vp_relative_position p v = coord (to_short (cX p - rLeft v)) (to_short (cY p - rTop v))"

definition vp_absolute_position :: "coord \<Rightarrow> console_viewport \<Rightarrow> coord" where
  "vp_absolute_position p v = coord (to_short (rLeft v + cX p)) (to_short (rTop v + cY p))"

definition vp_clamped_relative_position :: "coord \<Rightarrow> console_viewport \<Rightarrow> coord" where
  "vp_clamped_relative_position p v =
     (let t = vp_relative_position p v; s = vp_size v
      in coord (clamp (cX t) 0 (to_short (cX s - 1))) (clamp (cY t) 0 (to_short (cY s - 1))))"

definition vp_set_rect :: "small_rect \<Rightarrow> coord \<Rightarrow> console_viewport \<Rightarrow> console_viewport \<times> bool" where
  "vp_set_rect rect buffer_size old =
     (let bw = valid_dimension (cX buffer_size);
          bh = valid_dimension (cY buffer_size);
          width = clamped_dimension (rRight rect - rLeft rect + 1) bw;
          height = clamped_dimension (rBottom rect - rTop rect + 1) bh;
          left = clamp (rLeft rect) 0 (to_short (bw - width));
          top = clamp (rTop rect) 0 (to_short (bh - height));
          new = small_rect left top (to_short (left + width - 1)) (to_short (top + height - 1))
      in (new, old \<noteq> new))"

definition vp_set_size :: "coord \<Rightarrow> coord \<Rightarrow> console_viewport \<Rightarrow> console_viewport \<times> bool" where
  "vp_set_size viewport_size buffer_size v =
     vp_set_rect
       (small_rect (rLeft v) (rTop v) (to_short (rLeft v + max (cX viewport_size) 1 - 1))
          (to_short (rTop v + max (cY viewport_size) 1 - 1)))
       buffer_size v"

definition vp_set_origin :: "coord \<Rightarrow> coord \<Rightarrow> console_viewport \<Rightarrow> console_viewport \<times> bool" where
  "vp_set_origin origin buffer_size v =
     (let s = vp_size v
      in vp_set_rect
           (small_rect (cX origin) (cY origin) (to_short (cX origin + cX s - 1))
              (to_short (cY origin + cY s - 1)))
           buffer_size v)"

definition vp_move_origin :: "coord \<Rightarrow> coord \<Rightarrow> console_viewport \<Rightarrow> console_viewport \<times> bool" where
  "vp_move_origin delta buffer_size v =
     vp_set_origin (coord (to_short (rLeft v + cX delta)) (to_short (rTop v + cY delta))) buffer_size v"

definition vp_clamp_to_buffer :: "coord \<Rightarrow> console_viewport \<Rightarrow> console_viewport \<times> bool" where
  "vp_clamp_to_buffer buffer_size v = vp_set_rect v buffer_size v"

definition vp_snap_to_cursor :: "coord \<Rightarrow> coord \<Rightarrow> console_viewport \<Rightarrow> console_viewport \<times> bool" where
  "vp_snap_to_cursor cursor buffer_size v =
     (let x = (if cX cursor < rLeft v then cX cursor
               else if cX cursor > rRight v then to_short (rLeft v + cX cursor - rRight v)
               else rLeft v);
          y = (if cY cursor < rTop v then cY cursor
               else if cY cursor > rBottom v then to_short (rTop v + cY cursor - rBottom v)
               else rTop v)
      in vp_set_origin (coord x y) buffer_size v)"

section \<open>The invariant: a non-empty rectangle inside the buffer\<close>

definition vp_valid :: "coord \<Rightarrow> console_viewport \<Rightarrow> bool" where
  "vp_valid b v \<longleftrightarrow>
     0 \<le> rLeft v \<and> rLeft v \<le> rRight v \<and> rRight v < valid_dimension (cX b) \<and>
     0 \<le> rTop v \<and> rTop v \<le> rBottom v \<and> rBottom v < valid_dimension (cY b)"

definition short_coord :: "coord \<Rightarrow> bool" where
  "short_coord c \<longleftrightarrow> is_short (cX c) \<and> is_short (cY c)"

text \<open>One axis of \<open>set_rect\<close>, with the casts resolved: the low and the high end.\<close>

definition axis :: "int \<Rightarrow> int \<Rightarrow> int \<Rightarrow> int \<times> int" where
  "axis n lo d =
     (let b = valid_dimension n; w = clamp d 1 b; l = clamp lo 0 (b - w) in (l, l + w - 1))"

lemma axis_cast:
  assumes "is_short n"
  shows "(let b = valid_dimension n; w = clamped_dimension d b; l = clamp lo 0 (to_short (b - w))
     in (l, to_short (l + w - 1))) = axis n lo d"
proof -
  let ?b = "valid_dimension n" and ?w = "clamp d 1 (valid_dimension n)"
  have b: "1 \<le> ?b" "?b \<le> 32767" using assms by (auto simp: valid_dimension_def is_short_def)
  have w: "1 \<le> ?w" "?w \<le> ?b" using b by (simp_all add: clamp_def)
  have "clamped_dimension d ?b = ?w" using b w by (simp add: clamped_dimension_def to_short_id)
  moreover have "to_short (?b - ?w) = ?b - ?w" using b w by (intro to_short_id) simp_all
  moreover have "0 \<le> clamp lo 0 (?b - ?w)" "clamp lo 0 (?b - ?w) \<le> ?b - ?w"
    using w clamp_bounds [of 0 "?b - ?w" lo] by simp_all
  then have "to_short (clamp lo 0 (?b - ?w) + ?w - 1) = clamp lo 0 (?b - ?w) + ?w - 1"
    using b w by (intro to_short_id) simp_all
  ultimately show ?thesis by (simp add: axis_def Let_def)
qed

lemma axis_range:
  "0 \<le> fst (axis n lo d)" "fst (axis n lo d) \<le> snd (axis n lo d)" "snd (axis n lo d) < valid_dimension n"
  by (auto simp: axis_def Let_def clamp_def valid_dimension_def)

lemma set_rect_eq:
  assumes "short_coord b"
  shows "fst (vp_set_rect r b v) =
    small_rect (fst (axis (cX b) (rLeft r) (rRight r - rLeft r + 1)))
      (fst (axis (cY b) (rTop r) (rBottom r - rTop r + 1)))
      (snd (axis (cX b) (rLeft r) (rRight r - rLeft r + 1)))
      (snd (axis (cY b) (rTop r) (rBottom r - rTop r + 1)))"
  using axis_cast [of "cX b" "rRight r - rLeft r + 1" "rLeft r"]
    axis_cast [of "cY b" "rBottom r - rTop r + 1" "rTop r"] assms
  unfolding short_coord_def vp_set_rect_def Let_def
  by (metis fst_conv snd_conv)

lemma set_rect_valid: "short_coord b \<Longrightarrow> vp_valid b (fst (vp_set_rect r b v))"
  by (simp add: set_rect_eq vp_valid_def axis_range)

lemma set_rect_changed: "snd (vp_set_rect r b v) \<longleftrightarrow> v \<noteq> fst (vp_set_rect r b v)"
  unfolding vp_set_rect_def Let_def by (simp only: fst_conv snd_conv)

lemma snap_changed: "snd (vp_snap_to_cursor c b v) \<longleftrightarrow> v \<noteq> fst (vp_snap_to_cursor c b v)"
  unfolding vp_snap_to_cursor_def vp_set_origin_def Let_def by (rule set_rect_changed)

lemma small_rect_collapse:
  "small_rect (rLeft v) (rTop v) (rLeft v + (rRight v - rLeft v)) (rTop v + (rBottom v - rTop v)) = v"
  by (rule small_rect.equality) auto

text \<open>A rectangle that is inside the buffer is taken as it is.\<close>

lemma set_rect_id:
  assumes "short_coord b" and "vp_valid b r"
  shows "fst (vp_set_rect r b v) = r"
  using assms by (simp add: set_rect_eq axis_def Let_def vp_valid_def)

lemma vp_valid_size:
  assumes "short_coord b" and "vp_valid b v"
  shows "cX (vp_size v) = rRight v - rLeft v + 1" "cY (vp_size v) = rBottom v - rTop v + 1"
proof -
  have "valid_dimension (cX b) \<le> 32767" "valid_dimension (cY b) \<le> 32767"
    using assms(1) by (auto simp: short_coord_def is_short_def valid_dimension_def)
  then show "cX (vp_size v) = rRight v - rLeft v + 1" "cY (vp_size v) = rBottom v - rTop v + 1"
    using assms(2) by (simp_all add: vp_size_def vp_valid_def to_short_id)
qed

text \<open>Moving the origin within the representable range keeps the size and clamps the position.\<close>

lemma set_origin_rect:
  assumes b: "short_coord b" and v: "vp_valid b v"
    and x: "- 32768 \<le> cX o'" "cX o' + (rRight v - rLeft v) \<le> 32767"
    and y: "- 32768 \<le> cY o'" "cY o' + (rBottom v - rTop v) \<le> 32767"
  shows "fst (vp_set_origin o' b v) =
    (let l = clamp (cX o') 0 (valid_dimension (cX b) - (rRight v - rLeft v + 1));
         t = clamp (cY o') 0 (valid_dimension (cY b) - (rBottom v - rTop v + 1))
     in small_rect l t (l + (rRight v - rLeft v)) (t + (rBottom v - rTop v)))"
proof -
  have V: "rLeft v \<le> rRight v" "rTop v \<le> rBottom v" using v by (simp_all add: vp_valid_def)
  have "to_short (cX o' + (rRight v - rLeft v + 1) - 1) = cX o' + (rRight v - rLeft v)"
    using x V to_short_id [of "cX o' + (rRight v - rLeft v)"] by simp
  moreover have "to_short (cY o' + (rBottom v - rTop v + 1) - 1) = cY o' + (rBottom v - rTop v)"
    using y V to_short_id [of "cY o' + (rBottom v - rTop v)"] by simp
  ultimately have "fst (vp_set_origin o' b v) = fst (vp_set_rect
      (small_rect (cX o') (cY o') (cX o' + (rRight v - rLeft v)) (cY o' + (rBottom v - rTop v))) b v)"
    by (simp only: vp_set_origin_def Let_def vp_valid_size [OF b v])
  also have "\<dots> = (let l = clamp (cX o') 0 (valid_dimension (cX b) - (rRight v - rLeft v + 1));
         t = clamp (cY o') 0 (valid_dimension (cY b) - (rBottom v - rTop v + 1))
     in small_rect l t (l + (rRight v - rLeft v)) (t + (rBottom v - rTop v)))"
    using v by (simp add: set_rect_eq [OF b] axis_def Let_def vp_valid_def)
  finally show ?thesis .
qed

section \<open>Properties\<close>

text \<open>C12: Whatever rectangle, size, origin or cursor is asked for, every operation leaves the viewport a
  non-empty rectangle inside the buffer (of at least 1 x 1, whatever size is passed for it).\<close>
theorem viewport_stays_inside:
  assumes "short_coord b"
  shows "vp_valid b (fst (vp_set_rect r b v)) \<and> vp_valid b (fst (vp_set_size s b v))
    \<and> vp_valid b (fst (vp_set_origin o' b v)) \<and> vp_valid b (fst (vp_move_origin d b v))
    \<and> vp_valid b (fst (vp_clamp_to_buffer b v)) \<and> vp_valid b (fst (vp_snap_to_cursor c b v))
    \<and> vp_valid b (vp_reset_to_buffer b)"
proof -
  have "vp_valid b (vp_reset_to_buffer b)"
  proof -
    have "1 \<le> valid_dimension (cX b)" "valid_dimension (cX b) \<le> 32767"
      "1 \<le> valid_dimension (cY b)" "valid_dimension (cY b) \<le> 32767"
      using assms by (auto simp: short_coord_def is_short_def valid_dimension_def)
    then show ?thesis by (simp add: vp_valid_def vp_reset_to_buffer_def to_short_id)
  qed
  then show ?thesis
    by (simp add: vp_set_size_def vp_set_origin_def vp_move_origin_def vp_clamp_to_buffer_def
        vp_snap_to_cursor_def Let_def set_rect_valid [OF assms])
qed

theorem viewport_stays_inside_witness:
  "vp_valid (coord 120 30) (fst (vp_set_rect (small_rect 100 (-5) 400 3) (coord 120 30) (small_rect 0 0 119 29)))"
  using viewport_stays_inside [of "coord 120 30" "small_rect 100 (-5) 400 3" "small_rect 0 0 119 29"]
  by (simp add: short_coord_def is_short_def)

text \<open>C13: \<open>snap_to_cursor\<close> brings a cursor that is inside the buffer into view without changing the size of
  the viewport, and does not move a viewport that already shows it.\<close>
theorem snap_to_cursor_shows_cursor:
  assumes b: "short_coord b" and v: "vp_valid b v"
    and x: "0 \<le> cX c" "cX c < valid_dimension (cX b)" and y: "0 \<le> cY c" "cY c < valid_dimension (cY b)"
  shows "vp_contains c (fst (vp_snap_to_cursor c b v))
    \<and> vp_size (fst (vp_snap_to_cursor c b v)) = vp_size v
    \<and> (vp_contains c v \<longrightarrow> vp_snap_to_cursor c b v = (v, False))"
proof -
  have bound: "valid_dimension (cX b) \<le> 32767" "valid_dimension (cY b) \<le> 32767"
    using b by (auto simp: short_coord_def is_short_def valid_dimension_def)
  have V: "0 \<le> rLeft v" "rLeft v \<le> rRight v" "rRight v < valid_dimension (cX b)"
    "0 \<le> rTop v" "rTop v \<le> rBottom v" "rBottom v < valid_dimension (cY b)"
    using v by (simp_all add: vp_valid_def)
  define ox where "ox = (if cX c < rLeft v then cX c
      else if cX c > rRight v then rLeft v + cX c - rRight v else rLeft v)"
  define oy where "oy = (if cY c < rTop v then cY c
      else if cY c > rBottom v then rTop v + cY c - rBottom v else rTop v)"
  have ox: "0 \<le> ox" "ox + (rRight v - rLeft v) < valid_dimension (cX b)" "ox \<le> cX c"
    "cX c \<le> ox + (rRight v - rLeft v)"
    using V x by (auto simp: ox_def)
  have oy: "0 \<le> oy" "oy + (rBottom v - rTop v) < valid_dimension (cY b)" "oy \<le> cY c"
    "cY c \<le> oy + (rBottom v - rTop v)"
    using V y by (auto simp: oy_def)
  have "to_short (rLeft v + cX c - rRight v) = rLeft v + cX c - rRight v"
    "to_short (rTop v + cY c - rBottom v) = rTop v + cY c - rBottom v"
    using V x y bound by (auto intro!: to_short_id)
  then have snap: "vp_snap_to_cursor c b v = vp_set_origin (coord ox oy) b v"
    by (simp add: vp_snap_to_cursor_def ox_def oy_def)
  have cl: "clamp ox 0 (valid_dimension (cX b) - (rRight v - rLeft v + 1)) = ox"
    "clamp oy 0 (valid_dimension (cY b) - (rBottom v - rTop v + 1)) = oy"
    using ox oy by simp_all
  have new: "fst (vp_snap_to_cursor c b v) =
      small_rect ox oy (ox + (rRight v - rLeft v)) (oy + (rBottom v - rTop v))"
    unfolding snap using set_origin_rect [OF b v, of "coord ox oy"] ox oy bound
    by (simp add: Let_def cl)
  then have "vp_contains c (fst (vp_snap_to_cursor c b v))"
    using ox oy by (simp add: vp_contains_def)
  moreover have "vp_size (fst (vp_snap_to_cursor c b v)) = vp_size v"
    unfolding new by (simp add: vp_size_def algebra_simps)
  moreover have "vp_snap_to_cursor c b v = (v, False)" if "vp_contains c v"
  proof -
    have "ox = rLeft v" "oy = rTop v" using that by (simp_all add: ox_def oy_def vp_contains_def)
    then have keep: "fst (vp_snap_to_cursor c b v) = v" unfolding new by (simp only: small_rect_collapse)
    then have "\<not> snd (vp_snap_to_cursor c b v)" using snap_changed [of c b v] by metis
    with keep show ?thesis by (metis prod.collapse)
  qed
  ultimately show ?thesis by blast
qed

theorem snap_to_cursor_shows_cursor_witness:
  "vp_contains (coord 7 250) (fst (vp_snap_to_cursor (coord 7 250) (coord 120 300) (small_rect 0 0 119 29)))"
  using snap_to_cursor_shows_cursor [of "coord 120 300" "small_rect 0 0 119 29" "coord 7 250"]
  by (simp add: short_coord_def is_short_def vp_valid_def valid_dimension_def)

text \<open>C14: Positions inside the viewport translate to viewport-relative coordinates and back without loss, and
  the clamped translation of any buffer position is a cell of the viewport.\<close>
theorem viewport_positions_roundtrip:
  assumes "short_coord b" and "vp_valid b v" and "short_coord p"
  shows "vp_absolute_position (vp_relative_position p v) v = p
    \<and> vp_contains (vp_absolute_position (vp_clamped_relative_position p v) v) v"
proof -
  have bound: "valid_dimension (cX b) \<le> 32767" "valid_dimension (cY b) \<le> 32767"
    using assms(1) by (auto simp: short_coord_def is_short_def valid_dimension_def)
  have inv: "to_short (l + to_short (q - l)) = q" if "is_short q" for l q
  proof -
    have "to_short (l + to_short (q - l)) = to_short q"
      by (rule to_short_cong) (metis add.commute diff_add_cancel mod_add_right_eq to_short_mod)
    then show ?thesis using that by (simp add: to_short_short)
  qed
  have "vp_absolute_position (vp_relative_position p v) v = p"
    using assms(3) by (simp add: vp_absolute_position_def vp_relative_position_def inv short_coord_def)
  moreover have "vp_contains (vp_absolute_position (vp_clamped_relative_position p v) v) v"
  proof -
    have ax: "l \<le> to_short (l + clamp t 0 (to_short (to_short (r - l + 1) - 1)))
        \<and> to_short (l + clamp t 0 (to_short (to_short (r - l + 1) - 1))) \<le> r"
      if "0 \<le> l" "l \<le> r" "r < 32767" for l r t
    proof -
      have e: "to_short (to_short (r - l + 1) - 1) = r - l" using that by (simp add: to_short_id)
      have "0 \<le> clamp t 0 (r - l)" "clamp t 0 (r - l) \<le> r - l"
        using that clamp_bounds [of 0 "r - l" t] by simp_all
      moreover then have "to_short (l + clamp t 0 (r - l)) = l + clamp t 0 (r - l)"
        using that by (intro to_short_id) simp_all
      ultimately show ?thesis unfolding e by simp
    qed
    show ?thesis
      using ax [of "rLeft v" "rRight v"] ax [of "rTop v" "rBottom v"] assms(2) bound
      by (simp add: vp_contains_def vp_absolute_position_def vp_clamped_relative_position_def Let_def
          vp_size_def vp_valid_def)
  qed
  ultimately show ?thesis ..
qed

theorem viewport_positions_roundtrip_witness:
  "vp_absolute_position (vp_relative_position (coord 5 (-3)) (small_rect 2 4 9 8)) (small_rect 2 4 9 8) = coord 5 (-3)"
  using viewport_positions_roundtrip [of "coord 20 20" "small_rect 2 4 9 8" "coord 5 (-3)"]
  by (simp add: short_coord_def is_short_def vp_valid_def valid_dimension_def)


end
