(* ===== verification/Terminal_Cursor.thy ===== *)
theory Terminal_Cursor
  imports Viewport
begin

text \<open>
  Where corehost believes the terminal's cursor is, and the columns the cooked line takes on the terminal
  (\<open>class terminal_cursor_state\<close>, \<open>libcorehost/terminal_cursor_state.hpp\<close>). Every column is a \<open>SHORT\<close>; the
  increments wrap as the code's do.
\<close>

record terminal_cursor_state =
  tc_cursor :: coord
  tc_cursor_valid :: bool
  tc_enter_pending_newline :: bool
  tc_enter_dest :: coord
  tc_pending_inherit_cursor :: bool
  tc_input_column_start :: int
  tc_input_column_end :: int

definition terminal_cursor_init :: terminal_cursor_state where
  "terminal_cursor_init =
     \<lparr>tc_cursor = coord 0 0, tc_cursor_valid = False, tc_enter_pending_newline = False, tc_enter_dest = coord 0 0,
      tc_pending_inherit_cursor = False, tc_input_column_start = 0, tc_input_column_end = 0\<rparr>"

abbreviation tc_set_x :: "int \<Rightarrow> terminal_cursor_state \<Rightarrow> terminal_cursor_state" where
  "tc_set_x x t \<equiv> t\<lparr>tc_cursor := (tc_cursor t)\<lparr>cX := x\<rparr>\<rparr>"

definition tc_invalidate :: "terminal_cursor_state \<Rightarrow> terminal_cursor_state" where
  "tc_invalidate t = t\<lparr>tc_cursor_valid := False\<rparr>"

definition tc_set_cursor :: "coord \<Rightarrow> terminal_cursor_state \<Rightarrow> terminal_cursor_state" where
  "tc_set_cursor c t = t\<lparr>tc_cursor := c, tc_cursor_valid := True\<rparr>"

definition tc_advance :: "terminal_cursor_state \<Rightarrow> terminal_cursor_state" where
  "tc_advance t =
     (if \<not> tc_cursor_valid t then t
      else let t1 = tc_set_x (to_short (cX (tc_cursor t) + 1)) t
           in if cX (tc_cursor t1) > tc_input_column_end t1
              then t1\<lparr>tc_input_column_end := cX (tc_cursor t1)\<rparr> else t1)"

definition tc_retreat :: "terminal_cursor_state \<Rightarrow> terminal_cursor_state" where
  "tc_retreat t =
     (if \<not> tc_cursor_valid t then t
      else if cX (tc_cursor t) > tc_input_column_start t then tc_set_x (to_short (cX (tc_cursor t) - 1)) t else t)"

definition tc_crlf :: "terminal_cursor_state \<Rightarrow> terminal_cursor_state" where
  "tc_crlf t =
     (if \<not> tc_cursor_valid t then t
      else t\<lparr>tc_cursor := coord 0 (to_short (cY (tc_cursor t) + 1))\<rparr>)"

definition tc_carriage_return :: "terminal_cursor_state \<Rightarrow> terminal_cursor_state" where
  "tc_carriage_return t = (if tc_cursor_valid t then tc_set_x 0 t else t)"

definition tc_line_feed :: "terminal_cursor_state \<Rightarrow> terminal_cursor_state" where
  "tc_line_feed t =
     (if \<not> tc_cursor_valid t then t
      else t\<lparr>tc_cursor := coord 0 (to_short (cY (tc_cursor t) + 1))\<rparr>)"

definition tc_column_for_offset :: "nat \<Rightarrow> terminal_cursor_state \<Rightarrow> int" where
  "tc_column_for_offset offset t = to_short (tc_input_column_start t + int offset)"

definition tc_set_cursor_x :: "int \<Rightarrow> terminal_cursor_state \<Rightarrow> terminal_cursor_state" where
  "tc_set_cursor_x x t = (if tc_cursor_valid t then tc_set_x x t else t)"

definition tc_set_cursor_x_unchecked :: "int \<Rightarrow> terminal_cursor_state \<Rightarrow> terminal_cursor_state" where
  "tc_set_cursor_x_unchecked x t = tc_set_x x t"

definition tc_reset_bounds :: "int \<Rightarrow> terminal_cursor_state \<Rightarrow> terminal_cursor_state" where
  "tc_reset_bounds x t = t\<lparr>tc_input_column_start := x, tc_input_column_end := x\<rparr>"

definition tc_extend_bounds :: "terminal_cursor_state \<Rightarrow> terminal_cursor_state" where
  "tc_extend_bounds t = t\<lparr>tc_input_column_end := to_short (tc_input_column_end t + 1)\<rparr>"

definition tc_retract_bounds :: "terminal_cursor_state \<Rightarrow> terminal_cursor_state" where
  "tc_retract_bounds t =
     (if tc_input_column_end t > tc_input_column_start t
      then t\<lparr>tc_input_column_end := to_short (tc_input_column_end t - 1)\<rparr> else t)"

definition tc_set_bounds_end_for_length :: "nat \<Rightarrow> terminal_cursor_state \<Rightarrow> terminal_cursor_state" where
  "tc_set_bounds_end_for_length n t = t\<lparr>tc_input_column_end := to_short (tc_input_column_start t + int n)\<rparr>"

definition tc_consume_enter_newline :: "terminal_cursor_state \<Rightarrow> terminal_cursor_state \<times> bool" where
  "tc_consume_enter_newline t =
     (if \<not> tc_enter_pending_newline t then (t, False) else (t\<lparr>tc_enter_pending_newline := False\<rparr>, True))"

definition tc_set_enter_newline_pending :: "bool \<Rightarrow> terminal_cursor_state \<Rightarrow> terminal_cursor_state" where
  "tc_set_enter_newline_pending b t = t\<lparr>tc_enter_pending_newline := b\<rparr>"

definition tc_shift_enter_dest :: "int \<Rightarrow> int \<Rightarrow> terminal_cursor_state \<Rightarrow> terminal_cursor_state" where
  "tc_shift_enter_dest dy rows t =
     (let y = cY (tc_enter_dest t) + dy
      in t\<lparr>tc_enter_dest := (tc_enter_dest t)\<lparr>cY := to_short (if y < 0 then 0 else if y \<ge> rows then rows - 1 else y)\<rparr>\<rparr>)"

definition tc_reset_enter_newline :: "terminal_cursor_state \<Rightarrow> terminal_cursor_state" where
  "tc_reset_enter_newline t = t\<lparr>tc_enter_pending_newline := False\<rparr>"

definition tc_mark_enter_newline_at_cursor :: "terminal_cursor_state \<Rightarrow> terminal_cursor_state" where
  "tc_mark_enter_newline_at_cursor t =
     (if \<not> tc_cursor_valid t then t
      else t\<lparr>tc_enter_dest := tc_cursor t, tc_enter_pending_newline := True\<rparr>)"

definition tc_set_pending_inherit_cursor :: "terminal_cursor_state \<Rightarrow> terminal_cursor_state" where
  "tc_set_pending_inherit_cursor t = t\<lparr>tc_pending_inherit_cursor := True\<rparr>"

definition tc_finish_inherit_cursor :: "coord \<Rightarrow> terminal_cursor_state \<Rightarrow> terminal_cursor_state" where
  "tc_finish_inherit_cursor c t = (tc_reset_bounds (cX c) (tc_set_cursor c t))\<lparr>tc_pending_inherit_cursor := False\<rparr>"

definition tc_apply_echo_byte :: "nat \<Rightarrow> terminal_cursor_state \<Rightarrow> terminal_cursor_state" where
  "tc_apply_echo_byte byte t =
     (if \<not> tc_cursor_valid t then t
      else if byte = 0x0D then tc_set_x 0 t
      else if byte = 0x0A then t\<lparr>tc_cursor := coord 0 (to_short (cY (tc_cursor t) + 1))\<rparr>
      else if byte = 0x08 \<or> byte = 0x7F
      then let t1 = (if cX (tc_cursor t) > tc_input_column_start t then tc_set_x (to_short (cX (tc_cursor t) - 1)) t else t)
           in if cX (tc_cursor t1) < tc_input_column_end t1
              then t1\<lparr>tc_input_column_end := cX (tc_cursor t1)\<rparr> else t1
      else if byte \<ge> 0x20
      then let t1 = tc_set_x (to_short (cX (tc_cursor t) + 1)) t
           in if cX (tc_cursor t1) > tc_input_column_end t1
              then t1\<lparr>tc_input_column_end := cX (tc_cursor t1)\<rparr> else t1
      else t)"

named_theorems tc_defs \<open>the operations of the terminal cursor\<close>

lemmas [tc_defs] = tc_invalidate_def tc_set_cursor_def tc_advance_def tc_retreat_def tc_crlf_def tc_carriage_return_def
  tc_line_feed_def tc_column_for_offset_def tc_set_cursor_x_def tc_set_cursor_x_unchecked_def tc_reset_bounds_def
  tc_extend_bounds_def tc_retract_bounds_def tc_set_bounds_end_for_length_def tc_consume_enter_newline_def
  tc_set_enter_newline_pending_def tc_shift_enter_dest_def tc_reset_enter_newline_def tc_mark_enter_newline_at_cursor_def
  tc_set_pending_inherit_cursor_def tc_finish_inherit_cursor_def tc_apply_echo_byte_def

end
