(* ===== verification/Command_History.thy ===== *)
theory Command_History
  imports Prelude
begin

text \<open>
  The command history of a session (\<open>class command_history_state\<close>, \<open>libcorehost/command_history_state.hpp\<close>):
  the commands from old to new, at most \<open>_capacity\<close> of them, and the Up/Down browsing. \<open>no_selection\<close>
  is \<open>None\<close>. A browse returns \<open>None\<close> where the code returns false and leaves the line alone.
\<close>

record command_history_state =
  h_commands :: "u32 list"
  h_capacity :: nat
  h_browse_index :: "nat option"
  h_saved_input :: u32

definition history_init :: command_history_state where
  "history_init = \<lparr>h_commands = [], h_capacity = 50, h_browse_index = None, h_saved_input = []\<rparr>"

definition h_reset_browse :: "command_history_state \<Rightarrow> command_history_state" where
  "h_reset_browse h = h\<lparr>h_browse_index := None, h_saved_input := []\<rparr>"

definition h_trim_to_capacity :: "command_history_state \<Rightarrow> command_history_state" where
  "h_trim_to_capacity h =
     (let h1 = (if length (h_commands h) > h_capacity h
                then h\<lparr>h_commands := drop (length (h_commands h) - h_capacity h) (h_commands h)\<rparr> else h)
      in case h_browse_index h1 of
           Some i \<Rightarrow> if i \<ge> length (h_commands h1) then h_reset_browse h1 else h1
         | None \<Rightarrow> h1)"

definition h_set_capacity :: "nat \<Rightarrow> command_history_state \<Rightarrow> command_history_state" where
  "h_set_capacity n h = h_trim_to_capacity (h\<lparr>h_capacity := n\<rparr>)"

definition h_clear :: "command_history_state \<Rightarrow> command_history_state" where
  "h_clear h = h_reset_browse (h\<lparr>h_commands := []\<rparr>)"

definition h_break_browse :: "command_history_state \<Rightarrow> command_history_state" where
  "h_break_browse h = (if h_browse_index h \<noteq> None then h_reset_browse h else h)"

definition h_push :: "u32 \<Rightarrow> command_history_state \<Rightarrow> command_history_state" where
  "h_push command h =
     (if command = [] then h
      else if h_commands h \<noteq> [] \<and> last (h_commands h) = command then h
      else h_trim_to_capacity (h\<lparr>h_commands := h_commands h @ [command]\<rparr>))"

definition h_browse_up :: "u32 \<Rightarrow> command_history_state \<Rightarrow> (command_history_state \<times> u32) option" where
  "h_browse_up current h =
     (if h_commands h = [] then None
      else
        let h1 = (case h_browse_index h of
                    None \<Rightarrow> h\<lparr>h_saved_input := current, h_browse_index := Some (length (h_commands h) - 1)\<rparr>
                  | Some i \<Rightarrow> if i > 0 then h\<lparr>h_browse_index := Some (i - 1)\<rparr> else h)
        in Some (h1, h_commands h1 ! the (h_browse_index h1)))"

definition h_browse_down :: "command_history_state \<Rightarrow> (command_history_state \<times> u32) option" where
  "h_browse_down h =
     (case h_browse_index h of
        None \<Rightarrow> None
      | Some i \<Rightarrow>
          if i + 1 < length (h_commands h)
          then Some (h\<lparr>h_browse_index := Some (i + 1)\<rparr>, h_commands h ! (i + 1))
          else Some (h_reset_browse h, h_saved_input h))"

section \<open>The invariant\<close>

text \<open>
  No more commands than the capacity, none empty, and a selection is one of them. (A duplicate of its
  neighbour can only arise by neither operation; it is part of the invariant.)
\<close>

definition history_inv :: "command_history_state \<Rightarrow> bool" where
  "history_inv h \<longleftrightarrow> length (h_commands h) \<le> h_capacity h \<and> [] \<notin> set (h_commands h)
     \<and> distinct_adj (h_commands h)
     \<and> (\<forall>i. h_browse_index h = Some i \<longrightarrow> i < length (h_commands h))"

named_theorems history_defs \<open>the operations of the history\<close>

lemmas [history_defs] = h_reset_browse_def h_set_capacity_def h_clear_def h_break_browse_def h_push_def h_browse_up_def h_browse_down_def

lemma history_inv_init: "history_inv history_init"
  by (simp add: history_inv_def history_init_def)

lemma distinct_adj_drop: "distinct_adj xs \<Longrightarrow> distinct_adj (drop n xs)"
  by (simp add: distinct_adj_conv_nth)

lemma trim_inv:
  assumes "[] \<notin> set (h_commands h)" "distinct_adj (h_commands h)"
  shows "history_inv (h_trim_to_capacity h)"
  using assms
  by (auto simp: history_inv_def h_trim_to_capacity_def h_reset_browse_def Let_def distinct_adj_drop dest!: in_set_dropD
      split: option.splits)

lemma distinct_adj_snoc: "distinct_adj xs \<Longrightarrow> (xs \<noteq> [] \<Longrightarrow> last xs \<noteq> x) \<Longrightarrow> distinct_adj (xs @ [x])"
  by (auto simp: distinct_adj_append_iff)

lemma history_inv_keeps:
  assumes "history_inv h"
  shows "history_inv (h_set_capacity n h)" "history_inv (h_clear h)" "history_inv (h_reset_browse h)" "history_inv (h_break_browse h)"
    "history_inv (h_push c h)" "h_browse_up c h = Some (h', x) \<Longrightarrow> history_inv h'" "h_browse_down h = Some (h', x) \<Longrightarrow> history_inv h'"
proof -
  show "history_inv (h_push c h)"
    using assms trim_inv [of "h\<lparr>h_commands := h_commands h @ [c]\<rparr>"]
    by (auto simp: h_push_def history_inv_def intro: distinct_adj_snoc)
  show "history_inv (h_set_capacity n h)"
    using assms unfolding h_set_capacity_def by (intro trim_inv) (simp_all add: history_inv_def)
qed (use assms in \<open>auto simp: history_inv_def history_defs Let_def split: if_splits option.splits\<close>)

section \<open>Browsing\<close>

text \<open>\<open>k\<close> presses of Up, the lines they select, then presses of Down.\<close>

fun press_up :: "nat \<Rightarrow> u32 \<Rightarrow> command_history_state \<Rightarrow> (command_history_state \<times> u32) option" where
  "press_up 0 line h = Some (h, line)"
| "press_up (Suc k) line h = (case h_browse_up line h of None \<Rightarrow> None | Some (h', l) \<Rightarrow> press_up k l h')"

fun press_down :: "nat \<Rightarrow> u32 \<Rightarrow> command_history_state \<Rightarrow> (command_history_state \<times> u32) option" where
  "press_down 0 line h = Some (h, line)"
| "press_down (Suc k) line h = (case h_browse_down h of None \<Rightarrow> None | Some (h', l) \<Rightarrow> press_down k l h')"

lemma press_up_selected:
  assumes "h_browse_index h = Some i" "i < length (h_commands h)"
  shows "press_up k (h_commands h ! i) h = Some (h\<lparr>h_browse_index := Some (i - k)\<rparr>, h_commands h ! (i - k))"
  using assms
proof (induction k arbitrary: h i)
  case (Suc k)
  have ne: "h_commands h \<noteq> []" using Suc.prems(2) by auto
  show ?case
  proof (cases i)
    case 0
    have "h\<lparr>h_browse_index := Some 0\<rparr> = h" using Suc.prems(1) 0 by simp
    then show ?thesis using Suc.IH [of h 0] Suc.prems 0 ne by (simp add: h_browse_up_def)
  next
    case (Suc j)
    then show ?thesis using Suc.IH [of "h\<lparr>h_browse_index := Some j\<rparr>" j] Suc.prems ne by (simp add: h_browse_up_def)
  qed
qed simp

lemma press_down_selected:
  assumes "h_browse_index h = Some i" "i < length (h_commands h)"
  shows "press_down (length (h_commands h) - i) line h = Some (h_reset_browse h, h_saved_input h)"
  using assms
proof (induction "length (h_commands h) - i" arbitrary: h i line)
  case (Suc k)
  show ?case
  proof (cases "i + 1 < length (h_commands h)")
    case True
    let ?h = "h\<lparr>h_browse_index := Some (i + 1)\<rparr>"
    have "length (h_commands h) - i = Suc (length (h_commands h) - (i + 1))" using True by simp
    moreover have "h_reset_browse ?h = h_reset_browse h" by (simp add: h_reset_browse_def)
    ultimately show ?thesis using Suc.hyps(1) [of ?h "i + 1"] Suc.hyps(2) Suc.prems True by (simp add: h_browse_down_def)
  next
    case False
    then have "length (h_commands h) - i = Suc 0" using Suc.prems by simp
    then show ?thesis using Suc.prems False by (simp add: h_browse_down_def)
  qed
qed simp

lemma press_up_first:
  assumes "h_browse_index h = None" "h_commands h \<noteq> []"
  shows "press_up (Suc k) line h =
     (let i = length (h_commands h) - 1 - k
      in Some (h\<lparr>h_saved_input := line, h_browse_index := Some i\<rparr>, h_commands h ! i))"
proof -
  let ?n = "length (h_commands h) - 1"
  let ?h = "h\<lparr>h_saved_input := line, h_browse_index := Some ?n\<rparr>"
  have "h_browse_up line h = Some (?h, h_commands ?h ! ?n)" using assms by (simp add: h_browse_up_def)
  then show ?thesis using press_up_selected [of ?h ?n k] assms(2) by (simp add: Let_def)
qed

text \<open>C33: Up walks back through the history and Down returns: the \<open>k\<close>-th press of Up shows the \<open>k\<close>-th newest command
  (the oldest from then on), and as many presses of Down as there are steps to the newest end, one
  more than them, bring back the line that was there before, with no command selected.\<close>
theorem history_browse:
  assumes "h_commands h \<noteq> []" and "h_browse_index h = None" and "0 < k"
    and "n = length (h_commands h)"
  shows "\<exists>h'. press_up k line h = Some (h', h_commands h ! (n - min k n))
     \<and> press_down (min k n) l h' = Some (h_reset_browse h, line)
     \<and> h_browse_down (h_reset_browse h) = None"
proof -
  obtain j where k: "k = Suc j" using assms(3) by (cases k) simp_all
  let ?i = "n - 1 - j"
  let ?h = "h\<lparr>h_saved_input := line, h_browse_index := Some ?i\<rparr>"
  have n: "0 < n" using assms(1,4) by simp
  have i: "?i = n - min k n" "length (h_commands ?h) - ?i = min k n" using n assms(4) by (auto simp: k)
  have "press_up k line h = Some (?h, h_commands h ! ?i)"
    using press_up_first [OF assms(2,1), of j line] assms(4) by (simp add: k Let_def)
  moreover have "press_down (min k n) l ?h = Some (h_reset_browse h, line)"
    using press_down_selected [of ?h ?i l] n assms(4) i(2) by (simp add: h_reset_browse_def)
  moreover have "h_browse_down (h_reset_browse h) = None" by (simp add: h_browse_down_def h_reset_browse_def)
  ultimately show ?thesis using i(1) by auto
qed

theorem history_browse_witness:
  "\<exists>h'. press_up 5 [0x78] (h_push [0x62] (h_push [0x61] history_init)) = Some (h', [0x61])
     \<and> press_down 2 [0x61] h' = Some (h_push [0x62] (h_push [0x61] history_init), [0x78])"
proof -
  let ?h = "h_push [0x62] (h_push [0x61] history_init)"
  have h: "h_commands ?h = [[0x61], [0x62]]" "h_browse_index ?h = None" "h_reset_browse ?h = ?h" by code_simp+
  show ?thesis using history_browse [of ?h 5 2 "[0x78]" "[0x61]"] h by auto
qed

text \<open>
  A capacity that shrinks while a command is selected moves the commands under the index: the next Up
  shows the command already on the line.
\<close>

lemma trim_shifts_selection:
  assumes "h_browse_index h = Some (Suc i)" "Suc (Suc i) < length (h_commands h)" "length (h_commands h) \<le> h_capacity h"
  shows "\<exists>h'. h_browse_up line (h_set_capacity (length (h_commands h) - 1) h) = Some (h', h_commands h ! Suc i)"
  using assms by (auto simp: h_set_capacity_def h_trim_to_capacity_def h_browse_up_def Let_def split: if_splits)

end
