(* ===== verification/Input_Buffer.thy ===== *)
theory Input_Buffer
  imports Prelude
begin

text \<open>
  The queue of input records (\<open>struct input_buffer\<close>, \<open>libcorehost/input_buffer.hpp\<close>): at most \<open>max_events\<close>
  records, and the manual-reset event that tells waiting readers the queue is not empty. The event is
  \<open>None\<close> for a null handle, \<open>Some signalled\<close> otherwise; a record is of any type.
\<close>

record 'r input_buffer =
  ib_events :: "'r list"
  ib_event :: "bool option"

definition max_events :: nat where
  "max_events = 4096"

definition set_event :: "bool option \<Rightarrow> 'r input_buffer \<Rightarrow> 'r input_buffer" where
  "set_event event b = b\<lparr>ib_event := (if event \<noteq> None then Some (ib_events b \<noteq> []) else None)\<rparr>"

definition init_event :: "'r input_buffer \<Rightarrow> 'r input_buffer" where
  "init_event b = (if ib_event b = None then b\<lparr>ib_event := Some False\<rparr> else b)"

abbreviation signal :: "bool \<Rightarrow> bool option \<Rightarrow> bool option" where
  "signal v event \<equiv> map_option (\<lambda>_. v) event"

definition ib_write :: "'r list \<Rightarrow> 'r input_buffer \<Rightarrow> 'r input_buffer \<times> nat" where
  "ib_write events b =
     (let n = min (length events) (max_events - length (ib_events b));
          b1 = b\<lparr>ib_events := ib_events b @ take n events\<rparr>
      in (if n > 0 then b1\<lparr>ib_event := signal True (ib_event b1)\<rparr> else b1, n))"

definition ib_prepend :: "'r list \<Rightarrow> 'r input_buffer \<Rightarrow> 'r input_buffer \<times> nat" where
  "ib_prepend events b =
     (let n = min (length events) (max_events - length (ib_events b));
          b1 = b\<lparr>ib_events := take n events @ ib_events b\<rparr>
      in (if n > 0 then b1\<lparr>ib_event := signal True (ib_event b1)\<rparr> else b1, n))"

definition ib_read :: "nat \<Rightarrow> 'r input_buffer \<Rightarrow> 'r input_buffer \<times> 'r list" where
  "ib_read max_count b =
     (let n = min max_count (length (ib_events b));
          out = take n (ib_events b);
          b1 = b\<lparr>ib_events := drop n (ib_events b)\<rparr>
      in (if ib_events b1 = [] then b1\<lparr>ib_event := signal False (ib_event b1)\<rparr> else b1, out))"

definition ib_available :: "'r input_buffer \<Rightarrow> nat" where
  "ib_available b = length (ib_events b)"

definition ib_peek :: "nat \<Rightarrow> 'r input_buffer \<Rightarrow> 'r list" where
  "ib_peek max_count b = take (min max_count (length (ib_events b))) (ib_events b)"

definition ib_flush :: "'r input_buffer \<Rightarrow> 'r input_buffer" where
  "ib_flush b = b\<lparr>ib_events := [], ib_event := signal False (ib_event b)\<rparr>"

lemmas ib_defs = set_event_def init_event_def ib_write_def ib_prepend_def ib_read_def ib_available_def ib_peek_def ib_flush_def Let_def

section \<open>The queue as a transition system\<close>

text \<open>
  \<open>conpty.cpp\<close> calls \<open>set_event\<close> and \<open>init_event\<close> on the empty queue and the other operations afterwards. A step
  carries what went in and what came out.
\<close>

definition ib_start :: "bool option \<Rightarrow> 'r input_buffer" where
  "ib_start handle = init_event (set_event handle \<lparr>ib_events = [], ib_event = None\<rparr>)"

datatype 'r ib_action = Write "'r list" nat | Prepend "'r list" nat | Read "'r list" | Flush

inductive ib_step :: "'r input_buffer \<Rightarrow> 'r ib_action \<Rightarrow> 'r input_buffer \<Rightarrow> bool" where
  step_write: "ib_write rs b = (b', n) \<Longrightarrow> ib_step b (Write rs n) b'"
| step_prepend: "ib_prepend rs b = (b', n) \<Longrightarrow> ib_step b (Prepend rs n) b'"
| step_read: "ib_read m b = (b', out) \<Longrightarrow> ib_step b (Read out) b'"
| step_flush: "ib_step b Flush (ib_flush b)"

inductive_cases write_stepE [elim!]: "ib_step b (Write rs n) b'"
inductive_cases prepend_stepE [elim!]: "ib_step b (Prepend rs n) b'"
inductive_cases read_stepE [elim!]: "ib_step b (Read out) b'"
inductive_cases flush_stepE [elim!]: "ib_step b Flush b'"

inductive ib_reach :: "'r input_buffer \<Rightarrow> bool" where
  reach_start: "ib_reach (ib_start handle)"
| reach_step: "ib_reach b \<Longrightarrow> ib_step b a b' \<Longrightarrow> ib_reach b'"

definition ib_inv :: "'r input_buffer \<Rightarrow> bool" where
  "ib_inv b \<longleftrightarrow> length (ib_events b) \<le> max_events \<and> ib_event b = Some (ib_events b \<noteq> [])"

lemma ib_step_inv: "ib_step b a b' \<Longrightarrow> ib_inv b \<Longrightarrow> ib_inv b'"
  by (induction rule: ib_step.induct) (auto simp: ib_inv_def ib_defs split: if_splits)

lemma ib_reach_inv: "ib_reach b \<Longrightarrow> ib_inv b"
proof (induction rule: ib_reach.induct)
  case (reach_start handle)
  then show ?case by (cases handle) (simp_all add: ib_start_def ib_inv_def ib_defs)
qed (rule ib_step_inv)

text \<open>The queue as an abstract sequence: what each action does to the list of queued records.\<close>

fun queue_spec :: "'r ib_action \<Rightarrow> 'r list \<Rightarrow> 'r list \<Rightarrow> bool" where
  "queue_spec (Write rs n) q q' \<longleftrightarrow> n = min (length rs) (max_events - length q) \<and> q' = q @ take n rs"
| "queue_spec (Prepend rs n) q q' \<longleftrightarrow> n = min (length rs) (max_events - length q) \<and> q' = take n rs @ q"
| "queue_spec (Read out) q q' \<longleftrightarrow> q = out @ q'"
| "queue_spec Flush q q' \<longleftrightarrow> q' = []"

text \<open>C34: In every state the program can reach the input queue holds at most 4096 records and its event is set
  exactly if the queue is not empty, so a waiting reader is neither missed nor woken for nothing; and
  every operation is that of a bounded queue: records leave in the order they are queued, none is
  lost but by a flush or a write into a full queue, which returns how many it took.\<close>
theorem input_queue_refines:
  assumes "ib_reach b" and "ib_step b a b'"
  shows "length (ib_events b') \<le> 4096 \<and> ib_event b' = Some (ib_events b' \<noteq> []) \<and> queue_spec a (ib_events b) (ib_events b')"
proof -
  have "ib_inv b'" using ib_step_inv [OF assms(2)] ib_reach_inv [OF assms(1)] by blast
  moreover have "queue_spec a (ib_events b) (ib_events b')"
    using assms(2) by (cases a) (auto simp: ib_defs split: if_splits)
  ultimately show ?thesis by (simp add: ib_inv_def max_events_def)
qed

theorem input_queue_refines_witness:
  "ib_events (fst (ib_write [1::nat, 2] (ib_start None))) = [1, 2]
   \<and> queue_spec (Read [1]) (ib_events (fst (ib_write [1::nat, 2] (ib_start None)))) [2]"
proof -
  let ?b = "fst (ib_write [1::nat, 2] (ib_start None))" and ?b' = "fst (ib_read 1 (fst (ib_write [1::nat, 2] (ib_start None))))"
  have "ib_step (ib_start None) (Write [1::nat, 2] 2) ?b" by (rule step_write) code_simp
  then have r: "ib_reach ?b" by (rule reach_step [OF reach_start])
  have t: "ib_step ?b (Read [1]) ?b'" by (rule step_read [of 1]) code_simp
  have "ib_events ?b' = [2]" "ib_events ?b = [1, 2]" by code_simp+
  then show ?thesis using input_queue_refines [OF r t] by simp
qed

end
