(* ===== verification/Pending_Io.thy ===== *)
theory Pending_Io
  imports Prelude
begin

text \<open>
  The one read request the bridge holds back (\<open>class pending_io_state\<close>, \<open>libcorehost/pending_io_state.hpp\<close>).
  A request message is named by a number, a null pointer is \<open>None\<close>.
\<close>

datatype pending_kind = pk_None | pk_RawRead | pk_ConsoleRead | pk_ConsoleInput

record pending_io_state =
  pio_kind :: pending_kind
  pio_raw_read :: "nat option"
  pio_console_read :: "nat option"
  pio_console_input :: "nat option"
  pio_vt_eof :: bool
  pio_process_control_z :: bool

definition pending_init :: pending_io_state where
  "pending_init =
     \<lparr>pio_kind = pk_None, pio_raw_read = None, pio_console_read = None, pio_console_input = None, pio_vt_eof = False,
      pio_process_control_z = False\<rparr>"

definition has_pending :: "pending_io_state \<Rightarrow> bool" where
  "has_pending p \<longleftrightarrow> pio_kind p \<noteq> pk_None"

definition begin_raw_read :: "nat \<Rightarrow> bool \<Rightarrow> pending_io_state \<Rightarrow> pending_io_state" where
  "begin_raw_read msg z p =
     p\<lparr>pio_kind := pk_RawRead, pio_raw_read := Some msg, pio_console_read := None, pio_console_input := None,
       pio_process_control_z := z\<rparr>"

definition begin_console_read :: "nat \<Rightarrow> bool \<Rightarrow> pending_io_state \<Rightarrow> pending_io_state" where
  "begin_console_read msg z p =
     p\<lparr>pio_kind := pk_ConsoleRead, pio_raw_read := None, pio_console_read := Some msg, pio_console_input := None,
       pio_process_control_z := z\<rparr>"

definition begin_console_input :: "nat \<Rightarrow> pending_io_state \<Rightarrow> pending_io_state" where
  "begin_console_input msg p =
     p\<lparr>pio_kind := pk_ConsoleInput, pio_raw_read := None, pio_console_read := None, pio_console_input := Some msg\<rparr>"

definition set_vt_eof :: "bool \<Rightarrow> pending_io_state \<Rightarrow> pending_io_state" where
  "set_vt_eof eof p = p\<lparr>pio_vt_eof := eof\<rparr>"

definition pending_clear :: "pending_io_state \<Rightarrow> pending_io_state" where
  "pending_clear p =
     p\<lparr>pio_kind := pk_None, pio_raw_read := None, pio_console_read := None, pio_console_input := None,
       pio_process_control_z := False\<rparr>"

text \<open>At most one request is held, and it is the one of the kind.\<close>

definition pending_inv :: "pending_io_state \<Rightarrow> bool" where
  "pending_inv p \<longleftrightarrow>
     (pio_raw_read p \<noteq> None \<longleftrightarrow> pio_kind p = pk_RawRead) \<and> (pio_console_read p \<noteq> None \<longleftrightarrow> pio_kind p = pk_ConsoleRead)
     \<and> (pio_console_input p \<noteq> None \<longleftrightarrow> pio_kind p = pk_ConsoleInput)"

lemma pending_inv [simp]:
  "pending_inv pending_init" "pending_inv (begin_raw_read m z p)" "pending_inv (begin_console_read m z p)"
  "pending_inv (begin_console_input m p)" "pending_inv (pending_clear p)" "pending_inv p \<Longrightarrow> pending_inv (set_vt_eof e p)"
  by (simp_all add: pending_inv_def pending_init_def begin_raw_read_def begin_console_read_def begin_console_input_def
      pending_clear_def set_vt_eof_def)

end
