(* ===== verification/Vt_Message.thy ===== *)
theory Vt_Message
  imports Prelude
begin

text \<open>
  The messages of the VT parser (\<open>libcorehost/vt_parser.hpp\<close>): the identifiers, the payload union
  and the parse result.

  The C++ enum \<open>vt_message_id\<close> is one flat list; here its enumerators are grouped under the
  comment headings of the source (cursor, modes, screen, queries, keys), each group a datatype of
  its own, so that \<open>cursor_up\<close> of the source is \<open>Cursor cursor_up\<close> here. The payload union is a
  datatype whose constructor is the active member. A message that \<open>reset\<close> zeroed holds the member
  \<open>sgr{}\<close>, as the union's constructor makes it.
\<close>

section \<open>Message identifiers\<close>

datatype vt_cursor_id =
    cursor_up | cursor_down | cursor_forward | cursor_backward | cursor_next_line
  | cursor_prev_line | cursor_forward_tab | cursor_backward_tab | cursor_vert_absolute
  | cursor_horiz_absolute | cursor_position | save_cursor | restore_cursor | ansi_save_cursor
  | ansi_restore_cursor | set_cursor_shape | cursor_enable_blinking | cursor_disable_blinking
  | cursor_show | cursor_hide | cursor_keys_app_mode | cursor_keys_normal_mode

datatype vt_mode_id =
    horizontal_tab_set | tab_clear_current | tab_clear_all | keypad_app_mode
  | keypad_numeric_mode | designate_charset_line_drawing | designate_charset_ascii

datatype vt_screen_id =
    scroll_up | scroll_down | insert_characters | delete_characters | erase_characters
  | insert_lines | delete_lines | erase_in_display | erase_in_line | set_scrolling_region
  | use_alternate_buffer | use_main_buffer | set_columns_132 | set_columns_80 | resize_window

datatype vt_query_id =
    soft_reset | report_cursor_position | device_attributes | cpr_response

datatype vt_key_id =
    win32_input_key | key_up | key_down | key_right | key_left | key_home | key_end
  | key_insert | key_delete | key_page_up | key_page_down | key_f1 | key_f2 | key_f3 | key_f4
  | key_f5 | key_f6 | key_f7 | key_f8 | key_f9 | key_f10 | key_f11 | key_f12
  | key_ctrl_up | key_ctrl_down | key_ctrl_right | key_ctrl_left
  | char_del | char_sub | char_esc | char_nul

datatype vt_message_id =
    continue_text | continue_msg | text_msg | unknown_sequence
  | set_window_title | osc8_hyperlink
  | carriage_return | line_feed | reverse_index
  | Cursor vt_cursor_id
  | Mode vt_mode_id
  | Screen vt_screen_id
  | sgr_msg | set_palette_color
  | Query vt_query_id
  | Key vt_key_id

section \<open>SGR payload\<close>

datatype vt_sgr_flag =
    sgr_reset | sgr_bold | sgr_faint | sgr_italic | sgr_underline | sgr_blink | sgr_negative
  | sgr_conceal | sgr_strikethrough

fun vt_sgr_flag_bit :: "vt_sgr_flag \<Rightarrow> 16 word" where
  "vt_sgr_flag_bit sgr_reset = 1"
| "vt_sgr_flag_bit sgr_bold = 2"
| "vt_sgr_flag_bit sgr_faint = 4"
| "vt_sgr_flag_bit sgr_italic = 8"
| "vt_sgr_flag_bit sgr_underline = 16"
| "vt_sgr_flag_bit sgr_blink = 32"
| "vt_sgr_flag_bit sgr_negative = 64"
| "vt_sgr_flag_bit sgr_conceal = 128"
| "vt_sgr_flag_bit sgr_strikethrough = 256"

datatype vt_sgr_color_kind = color_none | color_default | color_indexed | color_rgb

record vt_sgr_color =
  col_kind :: vt_sgr_color_kind
  col_value :: nat
  col_g :: nat
  col_b :: nat

definition sgr_color_init :: vt_sgr_color where
  "sgr_color_init = \<lparr>col_kind = color_none, col_value = 0, col_g = 0, col_b = 0\<rparr>"

definition color_set_default :: "vt_sgr_color \<Rightarrow> vt_sgr_color" where
  "color_set_default c = \<lparr>col_kind = color_default, col_value = 0, col_g = 0, col_b = 0\<rparr>"

definition color_set_index :: "int \<Rightarrow> vt_sgr_color \<Rightarrow> vt_sgr_color" where
  "color_set_index index c =
     \<lparr>col_kind = color_indexed, col_value = to_u8 index, col_g = 0, col_b = 0\<rparr>"

definition color_set_rgb :: "nat \<Rightarrow> nat \<Rightarrow> nat \<Rightarrow> vt_sgr_color \<Rightarrow> vt_sgr_color" where
  "color_set_rgb r g b c = \<lparr>col_kind = color_rgb, col_value = r, col_g = g, col_b = b\<rparr>"

record vt_sgr =
  sgr_set_flags :: "16 word"
  sgr_clear_flags :: "16 word"
  sgr_fg :: vt_sgr_color
  sgr_bg :: vt_sgr_color

definition vt_sgr_init :: vt_sgr where
  "vt_sgr_init =
     \<lparr>sgr_set_flags = 0, sgr_clear_flags = 0, sgr_fg = sgr_color_init, sgr_bg = sgr_color_init\<rparr>"

definition vt_sgr_set :: "vt_sgr_flag \<Rightarrow> vt_sgr \<Rightarrow> vt_sgr" where
  "vt_sgr_set f s =
     s\<lparr>sgr_set_flags := sgr_set_flags s OR vt_sgr_flag_bit f,
       sgr_clear_flags := sgr_clear_flags s AND NOT (vt_sgr_flag_bit f)\<rparr>"

definition vt_sgr_clear :: "vt_sgr_flag \<Rightarrow> vt_sgr \<Rightarrow> vt_sgr" where
  "vt_sgr_clear f s =
     s\<lparr>sgr_clear_flags := sgr_clear_flags s OR vt_sgr_flag_bit f,
       sgr_set_flags := sgr_set_flags s AND NOT (vt_sgr_flag_bit f)\<rparr>"

definition vt_sgr_has :: "vt_sgr \<Rightarrow> vt_sgr_flag \<Rightarrow> bool" where
  "vt_sgr_has s f \<longleftrightarrow> sgr_set_flags s AND vt_sgr_flag_bit f \<noteq> 0"

definition vt_sgr_clears :: "vt_sgr \<Rightarrow> vt_sgr_flag \<Rightarrow> bool" where
  "vt_sgr_clears s f \<longleftrightarrow> sgr_clear_flags s AND vt_sgr_flag_bit f \<noteq> 0"

section \<open>Key payload, payload union, message, result\<close>

record vt_win32_key =
  wk_vk :: nat
  wk_sc :: nat
  wk_uc :: nat
  wk_key_down :: bool
  wk_control_state :: nat
  wk_repeat_count :: nat

datatype vt_payload =
    P_text u32
  | P_title u32
  | P_count int
  | P_position (pos_row: int) (pos_col: int)
  | P_erase_mode int
  | P_scroll_region int int
  | P_cursor_shape int
  | P_resize int int
  | P_palette int nat nat nat
  | P_cpr int int
  | P_sgr vt_sgr
  | P_win32_key vt_win32_key

record vt_message =
  m_payload :: vt_payload
  m_key_modifier :: int

definition vt_message_init :: vt_message where
  "vt_message_init = \<lparr>m_payload = P_sgr vt_sgr_init, m_key_modifier = 1\<rparr>"

record vt_parse_result =
  res_id :: vt_message_id
  res_consumed :: nat
  res_raw_sequence :: u32
  res_message :: vt_message

section \<open>The flag sets stay disjoint\<close>

definition sgr_flags_disjoint :: "vt_sgr \<Rightarrow> bool" where
  "sgr_flags_disjoint s \<longleftrightarrow> sgr_set_flags s AND sgr_clear_flags s = 0"

lemma sgr_flags_disjoint_init [simp]: "sgr_flags_disjoint vt_sgr_init"
  by (simp add: sgr_flags_disjoint_def vt_sgr_init_def)

lemma or_disjoint_and_not:
  fixes a b c :: "'a::len word"
  shows "a AND b = 0 \<Longrightarrow> (a OR c) AND (b AND NOT c) = 0"
  by (auto simp: bit_eq_iff bit_simps)

lemma sgr_flags_disjoint_set [simp]: "sgr_flags_disjoint s \<Longrightarrow> sgr_flags_disjoint (vt_sgr_set f s)"
  by (simp add: sgr_flags_disjoint_def vt_sgr_set_def or_disjoint_and_not)

lemma sgr_flags_disjoint_clear [simp]:
  "sgr_flags_disjoint s \<Longrightarrow> sgr_flags_disjoint (vt_sgr_clear f s)"
  using or_disjoint_and_not [of "sgr_clear_flags s" "sgr_set_flags s" "vt_sgr_flag_bit f"]
  by (simp add: sgr_flags_disjoint_def vt_sgr_clear_def and.commute)

lemma sgr_flags_disjoint_colors [simp]:
  "sgr_flags_disjoint (s\<lparr>sgr_fg := c\<rparr>) = sgr_flags_disjoint s"
  "sgr_flags_disjoint (s\<lparr>sgr_bg := c\<rparr>) = sgr_flags_disjoint s"
  by (simp_all add: sgr_flags_disjoint_def)

end
