(* ===== verification/Vt_Output.thy ===== *)
theory Vt_Output
  imports Vt_Message Viewport
begin

text \<open>
  The VT writer (\<open>vt_output_buffer\<close>, \<open>libcorehost/output_buffer.hpp\<close>, and the writing functions of
  \<open>pipe_bridge\<close>, \<open>libcorehost/pipe_bridge.hpp\<close>): the bytes queued for the terminal and the two members
  the writing functions touch beside them. The UTF-8 encoder of the library libunicode is the parameter
  \<open>utf8\<close>; the pipe is outside: a flush returns the bytes it writes.
\<close>

record vt_out =
  vo_buffer :: "nat list"
  vo_cursor_lost :: bool
  vo_replay_last_byte :: nat

definition vt_out_init :: vt_out where
  "vt_out_init = \<lparr>vo_buffer = [], vo_cursor_lost = False, vo_replay_last_byte = 0\<rparr>"

text \<open>The bytes of a string literal, and statements that run one after the other.\<close>

definition asc :: "string \<Rightarrow> nat list" where
  "asc s = map of_char s"

definition run_all :: "(vt_out \<Rightarrow> vt_out) list \<Rightarrow> vt_out \<Rightarrow> vt_out" where
  "run_all fs st = fold (\<lambda>f st. f st) fs st"

section \<open>The output buffer\<close>

definition flush_threshold :: nat where
  "flush_threshold = 64 * 1024"

definition buffered_size :: "vt_out \<Rightarrow> nat" where
  "buffered_size st = length (vo_buffer st)"

definition should_flush :: "vt_out \<Rightarrow> bool" where
  "should_flush st \<longleftrightarrow> length (vo_buffer st) \<ge> flush_threshold"

text \<open>The bytes handed to \<open>write_all\<close>, whose failure is only logged.\<close>

definition out_flush :: "bool \<Rightarrow> vt_out \<Rightarrow> vt_out \<times> nat list" where
  "out_flush output_valid st = (st\<lparr>vo_buffer := []\<rparr>, if output_valid then vo_buffer st else [])"

definition out_append :: "nat list \<Rightarrow> vt_out \<Rightarrow> vt_out" where
  "out_append bytes st = st\<lparr>vo_buffer := vo_buffer st @ bytes\<rparr>"

definition append_utf32 :: "(char32 \<Rightarrow> nat list) \<Rightarrow> u32 \<Rightarrow> vt_out \<Rightarrow> vt_out" where
  "append_utf32 utf8 text st = (if text = [] then st else out_append (concat (map utf8 text)) st)"

text \<open>The UTF-16 to UTF-8 conversion of libunicode is the parameter \<open>utf16_to_utf8\<close>.\<close>

definition append_utf16 :: "(nat list \<Rightarrow> nat list) \<Rightarrow> nat list \<Rightarrow> vt_out \<Rightarrow> vt_out" where
  "append_utf16 utf16_to_utf8 text st = (if text = [] then st else out_append (utf16_to_utf8 text) st)"

text \<open>\<open>std::to_chars\<close> for an \<open>int\<close> in base ten.\<close>

fun dec_chars :: "nat \<Rightarrow> nat list" where
  "dec_chars n = (if n < 10 then [0x30 + n] else dec_chars (n div 10) @ [0x30 + n mod 10])"

declare dec_chars.simps [simp del]

definition int_chars :: "int \<Rightarrow> nat list" where
  "int_chars v = (if v < 0 then 0x2D # dec_chars (nat (- v)) else dec_chars (nat v))"

definition append_int :: "int \<Rightarrow> vt_out \<Rightarrow> vt_out" where
  "append_int v = out_append (int_chars v)"

definition append_cell :: "(char32 \<Rightarrow> nat list) \<Rightarrow> char32 \<Rightarrow> vt_out \<Rightarrow> vt_out" where
  "append_cell utf8 ch = out_append (utf8 ch)"

section \<open>Pieces of a sequence\<close>

definition vt_append_str :: "nat list \<Rightarrow> vt_out \<Rightarrow> vt_out" where
  "vt_append_str s = out_append s"

definition vt_append_char :: "nat \<Rightarrow> vt_out \<Rightarrow> vt_out" where
  "vt_append_char c = out_append [c]"

definition vt_append_int :: "int \<Rightarrow> vt_out \<Rightarrow> vt_out" where
  "vt_append_int n = append_int n"

definition vt_append_sgr_param :: "int \<Rightarrow> bool \<times> vt_out \<Rightarrow> bool \<times> vt_out" where
  "vt_append_sgr_param value fo =
     (case fo of (first, st) \<Rightarrow> (False, vt_append_int value (if \<not> first then vt_append_char 0x3B st else st)))"

definition vt_append_hex_byte :: "nat \<Rightarrow> vt_out \<Rightarrow> vt_out" where
  "vt_append_hex_byte value =
     (let hex_digits = asc ''0123456789abcdef''
      in run_all [vt_append_char (hex_digits ! (value div 16)), vt_append_char (hex_digits ! (value mod 16))])"

definition vt_append_raw_sequence :: "(char32 \<Rightarrow> nat list) \<Rightarrow> u32 \<Rightarrow> vt_out \<Rightarrow> vt_out" where
  "vt_append_raw_sequence utf8 text = append_utf32 utf8 text"

definition vt_write_cup :: "int \<Rightarrow> int \<Rightarrow> vt_out \<Rightarrow> vt_out" where
  "vt_write_cup row col st =
     run_all [vt_append_str (0x1B # asc ''[''), vt_append_int (row + 1), vt_append_char 0x3B,
              vt_append_int (col + 1), vt_append_char 0x48] (st\<lparr>vo_cursor_lost := False\<rparr>)"

definition vt_write_cup_buffer :: "console_viewport \<Rightarrow> coord \<Rightarrow> vt_out \<Rightarrow> vt_out" where
  "vt_write_cup_buffer vp buffer_position =
     (let terminal_position = vp_clamped_relative_position buffer_position vp
      in vt_write_cup (cY terminal_position) (cX terminal_position))"

text \<open>The two tables of \<open>vt_write_attr\<close>, from BGRI colours to SGR numbers.\<close>

definition fg_map :: "int list" where
  "fg_map = [30, 34, 32, 36, 31, 35, 33, 37, 90, 94, 92, 96, 91, 95, 93, 97]"

definition bg_map :: "int list" where
  "bg_map = [40, 44, 42, 46, 41, 45, 43, 47, 100, 104, 102, 106, 101, 105, 103, 107]"

definition vt_write_attr :: "attr \<Rightarrow> vt_out \<Rightarrow> vt_out" where
  "vt_write_attr attr =
     (if attr = 0x07 then vt_append_str (0x1B # asc ''[0m'')
      else
        let fg = unat (attr AND 0x0F);
            bg = unat (drop_bit 4 attr AND 0x0F);
            fl = drop_bit 8 attr AND 0xFF
        in run_all
          [vt_append_str (0x1B # asc ''[0''),
           (if fl AND 0x4000 \<noteq> 0 then vt_append_str (asc '';7'') else id),
           (if fl AND 0x8000 \<noteq> 0 then vt_append_str (asc '';4'') else id),
           (if fl AND 0x0400 \<noteq> 0 then vt_append_str (asc '';9'') else id),
           (if fg \<noteq> 0x07 then run_all [vt_append_char 0x3B, vt_append_int (fg_map ! (fg mod 16))] else id),
           (if bg \<noteq> 0x00 then run_all [vt_append_char 0x3B, vt_append_int (bg_map ! (bg mod 16))] else id),
           vt_append_char 0x6D])"

definition vt_write_cell :: "(char32 \<Rightarrow> nat list) \<Rightarrow> char32 \<Rightarrow> vt_out \<Rightarrow> vt_out" where
  "vt_write_cell utf8 ch = append_cell utf8 (if ch = 0 then 0x20 else ch)"

definition vt_write_clear_screen :: "vt_out \<Rightarrow> vt_out" where
  "vt_write_clear_screen = vt_append_str (0x1B # asc ''[2J'' @ 0x1B # asc ''[H'')"

definition vt_write_dsr_cpr :: "vt_out \<Rightarrow> vt_out" where
  "vt_write_dsr_cpr = vt_append_str (0x1B # asc ''[6n'')"

definition vt_write_window_title :: "(char32 \<Rightarrow> nat list) \<Rightarrow> u32 \<Rightarrow> vt_out \<Rightarrow> vt_out" where
  "vt_write_window_title utf8 title =
     (if title = [] then id
      else run_all [vt_append_str (0x1B # asc '']0;''), append_utf32 utf8 title, vt_append_char 0x07])"

definition vt_write_text :: "(char32 \<Rightarrow> nat list) \<Rightarrow> u32 \<Rightarrow> vt_out \<Rightarrow> vt_out" where
  "vt_write_text utf8 text = append_utf32 utf8 text"

definition vt_write_crlf :: "(char32 \<Rightarrow> nat list) \<Rightarrow> vt_out \<Rightarrow> vt_out" where
  "vt_write_crlf utf8 = run_all [vt_write_cell utf8 0x0D, vt_write_cell utf8 0x0A]"

text \<open>
  The loop of \<open>vt_append_str_lf_to_crlf\<close> over the bytes, with the start of the part not yet appended; the
  byte before the first is the last byte of the write before.
\<close>

fun lf_to_crlf_loop :: "nat list \<Rightarrow> nat \<Rightarrow> nat \<Rightarrow> nat \<Rightarrow> nat \<Rightarrow> vt_out \<Rightarrow> nat \<times> vt_out" where
  "lf_to_crlf_loop text prev start i 0 st = (start, st)"
| "lf_to_crlf_loop text prev start i (Suc k) st =
     (if text ! i = 0x0A \<and> (if i = 0 then prev else text ! (i - 1)) \<noteq> 0x0D
      then lf_to_crlf_loop text prev (i + 1) (i + 1) k
             (vt_append_str [0x0D, 0x0A] (vt_append_str (take (i - start) (drop start text)) st))
      else lf_to_crlf_loop text prev start (i + 1) k st)"

definition vt_append_str_lf_to_crlf :: "nat list \<Rightarrow> vt_out \<Rightarrow> vt_out" where
  "vt_append_str_lf_to_crlf text st =
     (let (start, st1) = lf_to_crlf_loop text (vo_replay_last_byte st) 0 0 (length text) st;
          st2 = vt_append_str (drop start text) st1
      in if text \<noteq> [] then st2\<lparr>vo_replay_last_byte := last text\<rparr> else st2)"

section \<open>vt_msg_send\<close>

text \<open>\<open>ESC [ n final\<close>, and the form that leaves out a count of 1 or less.\<close>

definition vt_send_count :: "nat \<Rightarrow> int \<Rightarrow> vt_out \<Rightarrow> vt_out" where
  "vt_send_count final n = run_all [vt_append_str (0x1B # asc ''[''), vt_append_int n, vt_append_char final]"

definition vt_send_counted :: "nat \<Rightarrow> int \<Rightarrow> vt_out \<Rightarrow> vt_out" where
  "vt_send_counted final n =
     (if n > 1 then vt_send_count final n else vt_append_str (0x1B # asc ''['' @ [final]))"

text \<open>Reading a member of the payload that is not the active one has no meaning; 0 here.\<close>

definition send_count_of :: "vt_payload \<Rightarrow> int" where
  "send_count_of p = (case p of P_count n \<Rightarrow> n | _ \<Rightarrow> 0)"

definition send_position_of :: "vt_payload \<Rightarrow> int \<times> int" where
  "send_position_of p = (case p of P_position r c \<Rightarrow> (r, c) | _ \<Rightarrow> (0, 0))"

definition send_number_of :: "vt_payload \<Rightarrow> int" where
  "send_number_of p = (case p of P_erase_mode m \<Rightarrow> m | P_cursor_shape s \<Rightarrow> s | _ \<Rightarrow> 0)"

definition vt_send_cursor :: "vt_cursor_id \<Rightarrow> vt_payload \<Rightarrow> vt_out \<Rightarrow> vt_out" where
  "vt_send_cursor c p =
     (case c of
        cursor_up \<Rightarrow> vt_send_counted 0x41 (send_count_of p)
      | cursor_down \<Rightarrow> vt_send_counted 0x42 (send_count_of p)
      | cursor_forward \<Rightarrow> vt_send_counted 0x43 (send_count_of p)
      | cursor_backward \<Rightarrow> vt_send_counted 0x44 (send_count_of p)
      | cursor_next_line \<Rightarrow> vt_send_counted 0x45 (send_count_of p)
      | cursor_prev_line \<Rightarrow> vt_send_counted 0x46 (send_count_of p)
      | cursor_forward_tab \<Rightarrow> vt_send_count 0x49 (send_count_of p)
      | cursor_backward_tab \<Rightarrow> vt_send_count 0x5A (send_count_of p)
      | cursor_vert_absolute \<Rightarrow> vt_send_count 0x64 (fst (send_position_of p))
      | cursor_horiz_absolute \<Rightarrow> vt_send_count 0x47 (snd (send_position_of p))
      | cursor_position \<Rightarrow>
          vt_write_cup (to_short (fst (send_position_of p) - 1)) (to_short (snd (send_position_of p) - 1))
      | save_cursor \<Rightarrow> vt_append_str (0x1B # asc ''7'')
      | restore_cursor \<Rightarrow> vt_append_str (0x1B # asc ''8'')
      | ansi_save_cursor \<Rightarrow> vt_append_str (0x1B # asc ''7'')
      | ansi_restore_cursor \<Rightarrow> vt_append_str (0x1B # asc ''8'')
      | set_cursor_shape \<Rightarrow>
          run_all [vt_append_str (0x1B # asc ''[''), vt_append_int (send_number_of p), vt_append_str (asc '' q'')]
      | cursor_enable_blinking \<Rightarrow> vt_append_str (0x1B # asc ''[?12h'')
      | cursor_disable_blinking \<Rightarrow> vt_append_str (0x1B # asc ''[?12l'')
      | cursor_show \<Rightarrow> vt_append_str (0x1B # asc ''[?25h'')
      | cursor_hide \<Rightarrow> vt_append_str (0x1B # asc ''[?25l'')
      | cursor_keys_app_mode \<Rightarrow> vt_append_str (0x1B # asc ''[?1h'')
      | cursor_keys_normal_mode \<Rightarrow> vt_append_str (0x1B # asc ''[?1l''))"

definition vt_send_mode :: "vt_mode_id \<Rightarrow> vt_out \<Rightarrow> vt_out" where
  "vt_send_mode m =
     (case m of
        horizontal_tab_set \<Rightarrow> vt_append_str (0x1B # asc ''H'')
      | tab_clear_current \<Rightarrow> vt_append_str (0x1B # asc ''[0g'')
      | tab_clear_all \<Rightarrow> vt_append_str (0x1B # asc ''[3g'')
      | keypad_app_mode \<Rightarrow> vt_append_str (0x1B # asc ''='')
      | keypad_numeric_mode \<Rightarrow> vt_append_str (0x1B # asc ''>'')
      | designate_charset_line_drawing \<Rightarrow> vt_append_str (0x1B # asc ''(0'')
      | designate_charset_ascii \<Rightarrow> vt_append_str (0x1B # asc ''(B''))"

definition vt_send_screen :: "vt_screen_id \<Rightarrow> vt_payload \<Rightarrow> vt_out \<Rightarrow> vt_out" where
  "vt_send_screen c p =
     (case c of
        scroll_up \<Rightarrow> vt_send_counted 0x53 (send_count_of p)
      | scroll_down \<Rightarrow> vt_send_counted 0x54 (send_count_of p)
      | insert_characters \<Rightarrow> vt_send_count 0x40 (send_count_of p)
      | delete_characters \<Rightarrow> vt_send_count 0x50 (send_count_of p)
      | erase_characters \<Rightarrow> vt_send_count 0x58 (send_count_of p)
      | insert_lines \<Rightarrow> vt_send_count 0x4C (send_count_of p)
      | delete_lines \<Rightarrow> vt_send_count 0x4D (send_count_of p)
      | erase_in_display \<Rightarrow> vt_send_count 0x4A (send_number_of p)
      | erase_in_line \<Rightarrow> vt_send_count 0x4B (send_number_of p)
      | set_scrolling_region \<Rightarrow>
          (case p of
             P_scroll_region t u \<Rightarrow>
               run_all [vt_append_str (0x1B # asc ''[''), vt_append_int t, vt_append_char 0x3B, vt_append_int u,
                        vt_append_char 0x72]
           | _ \<Rightarrow> id)
      | use_alternate_buffer \<Rightarrow> vt_append_str (0x1B # asc ''[?1049h'')
      | use_main_buffer \<Rightarrow> vt_append_str (0x1B # asc ''[?1049l'')
      | set_columns_132 \<Rightarrow> vt_append_str (0x1B # asc ''[?3h'')
      | set_columns_80 \<Rightarrow> vt_append_str (0x1B # asc ''[?3l'')
      | resize_window \<Rightarrow> id)"

text \<open>
  The parameters of one colour: \<open>extended\<close> is 38 or 48, the 16 colours have the numbers from \<open>normal\<close> and
  from \<open>bright\<close> on.
\<close>

definition vt_send_sgr_color :: "vt_sgr_color \<Rightarrow> int \<Rightarrow> int \<Rightarrow> int \<Rightarrow> int \<Rightarrow> bool \<times> vt_out \<Rightarrow> bool \<times> vt_out" where
  "vt_send_sgr_color c default_code extended normal bright fo =
     (if col_kind c = color_default then vt_append_sgr_param default_code fo
      else if col_kind c = color_rgb
      then fold vt_append_sgr_param [extended, 2, int (col_value c), int (col_g c), int (col_b c)] fo
      else if col_kind c = color_indexed \<and> col_value c \<le> 7 then vt_append_sgr_param (normal + int (col_value c)) fo
      else if col_kind c = color_indexed \<and> col_value c \<le> 15
      then vt_append_sgr_param (bright + (int (col_value c) - 8)) fo
      else if col_kind c = color_indexed
      then fold vt_append_sgr_param [extended, 5, int (col_value c)] fo
      else fo)"

definition vt_send_sgr_flags :: "vt_sgr \<Rightarrow> bool \<times> vt_out \<Rightarrow> bool \<times> vt_out" where
  "vt_send_sgr_flags s fo =
     fold vt_append_sgr_param
       (map snd (filter fst
          [(vt_sgr_has s sgr_bold, 1), (vt_sgr_has s sgr_faint, 2), (vt_sgr_has s sgr_italic, 3),
           (vt_sgr_has s sgr_underline, 4), (vt_sgr_has s sgr_blink, 5), (vt_sgr_has s sgr_negative, 7),
           (vt_sgr_has s sgr_conceal, 8), (vt_sgr_has s sgr_strikethrough, 9),
           (vt_sgr_clears s sgr_bold \<or> vt_sgr_clears s sgr_faint, 22), (vt_sgr_clears s sgr_italic, 23),
           (vt_sgr_clears s sgr_underline, 24), (vt_sgr_clears s sgr_blink, 25), (vt_sgr_clears s sgr_negative, 27),
           (vt_sgr_clears s sgr_conceal, 28), (vt_sgr_clears s sgr_strikethrough, 29)])) fo"

definition vt_send_sgr :: "vt_sgr \<Rightarrow> vt_out \<Rightarrow> vt_out" where
  "vt_send_sgr s st0 =
     (let st = vt_append_str (0x1B # asc ''['') st0
      in if vt_sgr_has s sgr_reset then run_all [vt_append_char 0x30, vt_append_char 0x6D] st
         else
           let fo1 = vt_append_sgr_param 0 (True, st);
               fo2 = vt_send_sgr_flags s fo1;
               fo3 = vt_send_sgr_color (sgr_fg s) 39 38 30 90 fo2;
               fo4 = vt_send_sgr_color (sgr_bg s) 49 48 40 100 fo3
           in vt_append_char 0x6D (snd fo4))"

definition vt_send_palette :: "int \<Rightarrow> nat \<Rightarrow> nat \<Rightarrow> nat \<Rightarrow> vt_out \<Rightarrow> vt_out" where
  "vt_send_palette index r g b =
     run_all [vt_append_str (0x1B # asc '']4;''), vt_append_int index, vt_append_char 0x3B, vt_append_str (asc ''rgb:''),
              vt_append_hex_byte r, vt_append_char 0x2F, vt_append_hex_byte g, vt_append_char 0x2F,
              vt_append_hex_byte b, vt_append_char 0x07]"

definition vt_msg_send :: "(char32 \<Rightarrow> nat list) \<Rightarrow> vt_message_id \<Rightarrow> vt_message \<Rightarrow> vt_out \<Rightarrow> vt_out" where
  "vt_msg_send utf8 ident msg =
     (let p = m_payload msg
      in case ident of
        text_msg \<Rightarrow> vt_write_text utf8 (case p of P_text t \<Rightarrow> t | _ \<Rightarrow> [])
      | set_window_title \<Rightarrow> vt_write_window_title utf8 (case p of P_title t \<Rightarrow> t | _ \<Rightarrow> [])
      | carriage_return \<Rightarrow> vt_write_cell utf8 0x0D
      | line_feed \<Rightarrow> vt_write_crlf utf8
      | reverse_index \<Rightarrow> vt_append_str (0x1B # asc ''M'')
      | Cursor c \<Rightarrow> vt_send_cursor c p
      | Mode m \<Rightarrow> vt_send_mode m
      | Screen c \<Rightarrow> vt_send_screen c p
      | sgr_msg \<Rightarrow> (case p of P_sgr s \<Rightarrow> vt_send_sgr s | _ \<Rightarrow> id)
      | set_palette_color \<Rightarrow> (case p of P_palette i r g b \<Rightarrow> vt_send_palette i r g b | _ \<Rightarrow> id)
      | Query soft_reset \<Rightarrow> vt_append_str (0x1B # asc ''[!p'' @ 0x1B # asc ''[?9001h'')
      | Query report_cursor_position \<Rightarrow> vt_append_str (0x1B # asc ''[6n'')
      | Query device_attributes \<Rightarrow> vt_append_str (0x1B # asc ''[0c'')
      | _ \<Rightarrow> id)"

section \<open>What is appended\<close>

named_theorems out_defs

lemmas [out_defs] = run_all_def out_append_def append_utf32_def append_int_def append_cell_def vt_append_str_def
  vt_append_char_def vt_append_int_def vt_append_hex_byte_def vt_write_cup_def vt_write_cell_def vt_write_window_title_def
  vt_write_text_def vt_write_crlf_def vt_send_count_def vt_send_counted_def

end
