(* ===== verification/Line_Edit.thy ===== *)
theory Line_Edit
  imports Terminal_Cursor Command_History Input_Buffer Pending_Io Vt_Output
begin

text \<open>
  The cooked line editor (\<open>pipe_bridge\<close>, \<open>libcorehost/pipe_bridge.hpp\<close>): the line and its insertion point,
  the terminal cursor it believes in, the history, the bytes for the terminal, and the read it serves. The
  string operations are those of \<open>std::u32string\<close> for positions within the line, which \<open>line_inv\<close> says
  they are. The UTF-8 encoder is the parameter \<open>utf8\<close>; logging is left out.
\<close>

section \<open>State\<close>

text \<open>The records of the input queue; of the kinds other than keys only the size event is written by the modelled code.\<close>

record key_event =
  ke_down :: bool
  ke_repeat :: nat
  ke_vk :: nat
  ke_scan :: nat
  ke_char :: nat
  ke_ctrl :: nat

datatype input_record = Key_event key_event | Size_event coord | Other_event

text \<open>
  How a read ended: with a line, at the end of the terminal's input, by Ctrl+C; a raw read with bytes, a
  \<open>GetConsoleInput\<close> with records.
\<close>

datatype read_result =
  Read_line u32 | Read_eof | Read_alerted | Read_bytes "nat list" | Read_records "input_record list"

record line_edit =
  le_cooked :: u32
  le_cursor :: nat
  le_term :: terminal_cursor_state
  le_history :: command_history_state
  le_out :: vt_out
  le_output_valid :: bool
  le_written :: "nat list"
  le_line_found :: bool
  le_pending :: pending_io_state
  le_aliases :: "u32 \<Rightarrow> u32 option"
  le_position :: coord
  le_read_total :: nat
  le_read_aborted :: bool
  le_completed :: "read_result list"

abbreviation on_term :: "(terminal_cursor_state \<Rightarrow> terminal_cursor_state) \<Rightarrow> line_edit \<Rightarrow> line_edit" where
  "on_term f s \<equiv> s\<lparr>le_term := f (le_term s)\<rparr>"

abbreviation on_history :: "(command_history_state \<Rightarrow> command_history_state) \<Rightarrow> line_edit \<Rightarrow> line_edit" where
  "on_history f s \<equiv> s\<lparr>le_history := f (le_history s)\<rparr>"

abbreviation on_out :: "(vt_out \<Rightarrow> vt_out) \<Rightarrow> line_edit \<Rightarrow> line_edit" where
  "on_out f s \<equiv> s\<lparr>le_out := f (le_out s)\<rparr>"

section \<open>One domain at a time\<close>

definition cooked_append :: "char32 \<Rightarrow> line_edit \<Rightarrow> line_edit" where
  "cooked_append ch s =
     s\<lparr>le_cooked := take (le_cursor s) (le_cooked s) @ [ch] @ drop (le_cursor s) (le_cooked s),
       le_cursor := le_cursor s + 1\<rparr>"

definition cooked_pop_before :: "line_edit \<Rightarrow> line_edit" where
  "cooked_pop_before s =
     (if le_cursor s = 0 then s
      else s\<lparr>le_cooked := take (le_cursor s - 1) (le_cooked s) @ drop (le_cursor s) (le_cooked s),
             le_cursor := le_cursor s - 1\<rparr>)"

definition cooked_pop_at :: "line_edit \<Rightarrow> line_edit" where
  "cooked_pop_at s =
     (if le_cursor s \<ge> length (le_cooked s) then s
      else s\<lparr>le_cooked := take (le_cursor s) (le_cooked s) @ drop (le_cursor s + 1) (le_cooked s)\<rparr>)"

definition cooked_clear :: "line_edit \<Rightarrow> line_edit" where
  "cooked_clear s = s\<lparr>le_cooked := [], le_cursor := 0\<rparr>"

definition cooked_set_pos :: "nat \<Rightarrow> line_edit \<Rightarrow> line_edit" where
  "cooked_set_pos p s = s\<lparr>le_cursor := p\<rparr>"

definition cooked_at_end :: "line_edit \<Rightarrow> bool" where
  "cooked_at_end s \<longleftrightarrow> le_cursor s \<ge> length (le_cooked s)"

definition echo_byte :: "nat \<Rightarrow> line_edit \<Rightarrow> line_edit" where
  "echo_byte b = on_out (vt_append_char b)"

definition term_cursor_col :: "line_edit \<Rightarrow> int" where
  "term_cursor_col s = tc_column_for_offset (le_cursor s) (le_term s)"

definition vt_flush :: "line_edit \<Rightarrow> line_edit" where
  "vt_flush s =
     (let (out, bytes) = out_flush (le_output_valid s) (le_out s)
      in s\<lparr>le_out := out, le_written := le_written s @ bytes\<rparr>)"

section \<open>Compositions\<close>

definition cup_to :: "int \<Rightarrow> int \<Rightarrow> line_edit \<Rightarrow> line_edit" where
  "cup_to row col s = vt_flush (on_out (vt_write_cup row col) s)"

definition write_cells :: "(char32 \<Rightarrow> nat list) \<Rightarrow> u32 \<Rightarrow> line_edit \<Rightarrow> line_edit" where
  "write_cells utf8 cs s = fold (\<lambda>c. on_out (vt_write_cell utf8 c)) cs s"

definition repaint_suffix :: "(char32 \<Rightarrow> nat list) \<Rightarrow> line_edit \<Rightarrow> line_edit" where
  "repaint_suffix utf8 s = write_cells utf8 (drop (le_cursor s) (le_cooked s)) s"

definition repaint_full_line :: "(char32 \<Rightarrow> nat list) \<Rightarrow> line_edit \<Rightarrow> line_edit" where
  "repaint_full_line utf8 s =
     (if \<not> tc_cursor_valid (le_term s) then s
      else
        let s1 = cup_to (cY (tc_cursor (le_term s))) (tc_input_column_start (le_term s)) s;
            s2 = on_out (vt_append_str (0x1B # asc ''[K'')) s1;
            s3 = vt_flush (write_cells utf8 (le_cooked s2) s2)
        in on_term (tc_set_cursor_x (tc_input_column_end (le_term s3))) s3)"

definition load_history_line :: "(char32 \<Rightarrow> nat list) \<Rightarrow> line_edit \<Rightarrow> line_edit" where
  "load_history_line utf8 s =
     (let s1 = cooked_set_pos (length (le_cooked s)) s;
          s2 = on_term (tc_set_bounds_end_for_length (length (le_cooked s1))) s1
      in repaint_full_line utf8 s2)"

definition edit_insert_char :: "(char32 \<Rightarrow> nat list) \<Rightarrow> char32 \<Rightarrow> nat \<Rightarrow> line_edit \<Rightarrow> line_edit" where
  "edit_insert_char utf8 ch raw s =
     (let s1 = on_term tc_extend_bounds (cooked_append ch (on_history h_break_browse s))
      in if \<not> tc_cursor_valid (le_term s1) then s1
         else if cooked_at_end s1 then on_term tc_advance (echo_byte raw s1)
         else
           let sv = tc_cursor (le_term s1);
               s2 = cup_to (cY sv) (to_short (cX sv + 1)) (repaint_suffix utf8 (echo_byte raw s1))
           in on_term (tc_set_cursor_x (to_short (cX sv + 1))) s2)"

definition edit_insert_codepoint :: "(char32 \<Rightarrow> nat list) \<Rightarrow> char32 \<Rightarrow> line_edit \<Rightarrow> line_edit" where
  "edit_insert_codepoint utf8 ch s =
     (let s1 = on_term tc_extend_bounds (cooked_append ch (on_history h_break_browse s))
      in if \<not> tc_cursor_valid (le_term s1) then s1
         else if cooked_at_end s1 then on_term tc_advance (on_out (vt_write_cell utf8 ch) s1)
         else
           let sv = tc_cursor (le_term s1);
               s2 = on_term tc_advance (on_out (vt_write_cell utf8 ch) s1);
               s3 = cup_to (cY sv) (to_short (cX sv + 1)) (repaint_suffix utf8 s2)
           in on_term (tc_set_cursor_x (to_short (cX sv + 1))) s3)"

definition edit_backspace :: "(char32 \<Rightarrow> nat list) \<Rightarrow> line_edit \<Rightarrow> line_edit" where
  "edit_backspace utf8 s0 =
     (let s = on_history h_break_browse s0
      in if le_cursor s = 0 then s
         else
           let s1 = on_term tc_retract_bounds (cooked_pop_before s)
           in if \<not> tc_cursor_valid (le_term s1) then s1
              else
                let s2 = on_term tc_retreat
                           (vt_flush (on_out (vt_append_str (0x1B # asc ''[D'' @ 0x1B # asc ''[P'')) s1))
                in if \<not> cooked_at_end s2
                   then let c = tc_cursor (le_term s2) in cup_to (cY c) (cX c) (repaint_suffix utf8 s2)
                   else s2)"

definition edit_delete :: "line_edit \<Rightarrow> line_edit" where
  "edit_delete s0 =
     (let s = on_history h_break_browse s0
      in if le_cursor s \<ge> length (le_cooked s) then s
         else vt_flush (on_out (vt_append_str (0x1B # asc ''[P'')) (on_term tc_retract_bounds (cooked_pop_at s))))"

text \<open>The cursor keys end in the same way.\<close>

definition cup_and_track :: "int \<Rightarrow> line_edit \<Rightarrow> line_edit" where
  "cup_and_track x s =
     (if tc_cursor_valid (le_term s)
      then on_term (tc_set_cursor_x x) (cup_to (cY (tc_cursor (le_term s))) x s) else s)"

definition edit_move_left :: "line_edit \<Rightarrow> line_edit" where
  "edit_move_left s =
     (if le_cursor s > 0
      then let s1 = cooked_set_pos (le_cursor s - 1) s in cup_and_track (term_cursor_col s1) s1
      else s)"

definition edit_move_right :: "line_edit \<Rightarrow> line_edit" where
  "edit_move_right s =
     (if le_cursor s < length (le_cooked s)
      then let s1 = cooked_set_pos (le_cursor s + 1) s in cup_and_track (term_cursor_col s1) s1
      else s)"

definition edit_home :: "line_edit \<Rightarrow> line_edit" where
  "edit_home s = (let s1 = cooked_set_pos 0 s in cup_and_track (tc_input_column_start (le_term s1)) s1)"

definition edit_end :: "line_edit \<Rightarrow> line_edit" where
  "edit_end s =
     (let s1 = cooked_set_pos (length (le_cooked s)) s in cup_and_track (tc_input_column_end (le_term s1)) s1)"

definition history_up :: "(char32 \<Rightarrow> nat list) \<Rightarrow> line_edit \<Rightarrow> line_edit" where
  "history_up utf8 s =
     (case h_browse_up (le_cooked s) (le_history s) of
        None \<Rightarrow> s
      | Some (h, line) \<Rightarrow> load_history_line utf8 (s\<lparr>le_history := h, le_cooked := line\<rparr>))"

definition history_down :: "(char32 \<Rightarrow> nat list) \<Rightarrow> line_edit \<Rightarrow> line_edit" where
  "history_down utf8 s =
     (case h_browse_down (le_history s) of
        None \<Rightarrow> s
      | Some (h, line) \<Rightarrow> load_history_line utf8 (s\<lparr>le_history := h, le_cooked := line\<rparr>))"

section \<open>Completing a read\<close>

text \<open>The alias of the first word; the word is looked up as 16-bit characters.\<close>

definition expand_alias :: "line_edit \<Rightarrow> line_edit" where
  "expand_alias s =
     (if le_cooked s = [] then s
      else
        let word = takeWhile (\<lambda>c. c \<noteq> 0x20) (le_cooked s)
        in case le_aliases s (map (\<lambda>c. c mod 65536) word) of
             None \<Rightarrow> s
           | Some ex \<Rightarrow> s\<lparr>le_cooked := ex @ drop (length word) (le_cooked s)\<rparr>)"

text \<open>
  \<open>complete_pending\<close> for a pending \<open>ReadConsole\<close>. What \<open>prepare_console_read_completion\<close> hands to the encoders
  is recorded; \<open>Read_Completion\<close> has the encoding. Sending the completion to the driver is left out.
\<close>

definition console_read_result :: "line_edit \<Rightarrow> line_edit \<times> read_result" where
  "console_read_result s =
     (if le_read_aborted s then (s, Read_alerted)
      else if pio_vt_eof (le_pending s) \<and> le_cooked s = [] \<and> le_read_total s = 0 then (s, Read_eof)
      else let s1 = expand_alias s in (s1, Read_line (le_cooked s1)))"

text \<open>The end of \<open>complete_pending\<close>, for every read but \<open>GetConsoleInput\<close>; \<open>results\<close> is what was prepared.\<close>

definition finish_read :: "read_result list \<Rightarrow> line_edit \<Rightarrow> line_edit" where
  "finish_read results s =
     (let s1 = s\<lparr>le_completed := le_completed s @ results, le_pending := pending_clear (le_pending s), le_read_total := 0\<rparr>;
          s2 = (if \<not> le_read_aborted s1 then on_history (h_push (le_cooked s1)) s1 else s1);
          s3 = on_history h_reset_browse (cooked_clear s2)
      in if tc_cursor_valid (le_term s3) then s3\<lparr>le_position := tc_cursor (le_term s3)\<rparr> else s3)"

definition complete_console_read :: "line_edit \<Rightarrow> line_edit" where
  "complete_console_read s0 =
     (if \<not> has_pending (le_pending s0) then s0
      else let (s, r) = console_read_result s0 in finish_read [r] s)"

definition edit_submit_line :: "line_edit \<Rightarrow> line_edit" where
  "edit_submit_line s =
     (let s1 = (if tc_cursor_valid (le_term s)
                then on_term (\<lambda>t. tc_mark_enter_newline_at_cursor (tc_crlf t)) (on_out (vt_append_str [0x0D, 0x0A]) s)
                else s)
      in complete_console_read (s1\<lparr>le_line_found := True\<rparr>))"

text \<open>What \<open>handle_console_read\<close> does before it looks for input.\<close>

definition begin_line :: "nat \<Rightarrow> bool \<Rightarrow> line_edit \<Rightarrow> line_edit" where
  "begin_line msg proc_z s =
     on_history h_reset_browse
       (cooked_clear (s\<lparr>le_pending := begin_console_read msg proc_z (le_pending s), le_read_total := 0, le_line_found := False\<rparr>))"

section \<open>Keys\<close>

definition edit_key_event_for_console_read :: "(char32 \<Rightarrow> nat list) \<Rightarrow> key_event \<Rightarrow> line_edit \<Rightarrow> line_edit \<times> bool" where
  "edit_key_event_for_console_read utf8 key s =
     (if \<not> ke_down key then (s, False)
      else if ke_vk key = 0x0D then (edit_submit_line s, True)
      else
        (if ke_vk key = 0x08 then edit_backspace utf8 s
         else if ke_vk key = 0x2E then edit_delete s
         else if ke_vk key = 0x25 then edit_move_left s
         else if ke_vk key = 0x27 then edit_move_right s
         else if ke_vk key = 0x24 then edit_home s
         else if ke_vk key = 0x23 then edit_end s
         else if ke_vk key = 0x26 then history_up utf8 s
         else if ke_vk key = 0x28 then history_down utf8 s
         else if ke_char key \<ge> 0x20 \<or> ke_char key = 0x09 then edit_insert_codepoint utf8 (ke_char key) s
         else s, False))"

text \<open>The loop over the queued records; it takes one away each time round.\<close>

function consume_input_buffer_for_console_read ::
    "(char32 \<Rightarrow> nat list) \<Rightarrow> input_record input_buffer \<Rightarrow> line_edit \<Rightarrow> input_record input_buffer \<times> line_edit \<times> bool" where
  "consume_input_buffer_for_console_read utf8 inp s =
     (if pio_kind (le_pending s) = pk_ConsoleRead \<and> ib_events inp \<noteq> []
      then
        let (inp', out) = ib_read 1 inp
        in case hd out of
             Key_event key \<Rightarrow>
               let (s', done) = edit_key_event_for_console_read utf8 key s
               in if done then (inp', s', True) else consume_input_buffer_for_console_read utf8 inp' s'
           | _ \<Rightarrow> consume_input_buffer_for_console_read utf8 inp' s
      else (inp, s, False))"
  by pat_completeness auto
termination
  by (relation "measure (\<lambda>(utf8, inp, s). length (ib_events inp))") (auto simp: ib_read_def Let_def split: if_splits)

end
