(* ===== verification/Vt_Parser.thy ===== *)
theory Vt_Parser
  imports Vt_Message
begin

text \<open>
  The VT/CSI/OSC/SS3 parser (\<open>libcorehost/vt_parser.hpp\<close>): its state as a record, one function per
  parser mode and one per dispatch routine, and \<open>vt_parse\<close> (the member \<open>parse\<close>) composed of them
  as the code composes them.

  A step that the source marks with \<open>std::unreachable()\<close> is the value \<open>None\<close>, so that the code's
  belief that it is never reached is a theorem (\<open>vt_parse_defined\<close>). The string views of a result
  are copies of the viewed text. The parameter array with its count is the list of the committed
  parameters; \<open>_osc_buf\<close> with \<open>_osc_len\<close> is the list of the stored bytes.
\<close>

section \<open>State\<close>

datatype parser_mode = mode_ground | mode_esc | mode_csi | mode_osc | mode_ss3 | mode_osc_st

record vt_parser =
  p_msg :: vt_message
  p_raw :: u32
  p_seq_start :: nat
  p_mode :: parser_mode
  p_private_marker :: bool
  p_params :: "int list"
  p_current_param :: int
  p_has_param :: bool
  p_intermediate :: nat
  p_csi_overflow :: bool
  p_osc_code :: int
  p_osc_buf :: "nat list"
  p_osc_had_semi :: bool
  p_ground_control_char :: char32

definition vt_parser_init :: vt_parser where
  "vt_parser_init =
     \<lparr>p_msg = vt_message_init, p_raw = [], p_seq_start = 0, p_mode = mode_ground,
      p_private_marker = False, p_params = [], p_current_param = 0, p_has_param = False,
      p_intermediate = 0, p_csi_overflow = False, p_osc_code = 0, p_osc_buf = [],
      p_osc_had_semi = False, p_ground_control_char = 0\<rparr>"

definition MAX_PARAMS :: nat where
  "MAX_PARAMS = 16"

definition OSC_BUF_SIZE :: nat where
  "OSC_BUF_SIZE = 32"

section \<open>Small helpers\<close>

definition set_payload :: "vt_payload \<Rightarrow> vt_parser \<Rightarrow> vt_parser" where
  "set_payload pl p = p\<lparr>p_msg := (p_msg p)\<lparr>m_payload := pl\<rparr>\<rparr>"

definition vt_reset :: "vt_parser \<Rightarrow> vt_parser" where
  "vt_reset p =
     p\<lparr>p_msg := vt_message_init, p_raw := [], p_seq_start := 0, p_mode := mode_ground\<rparr>"

definition in_ground :: "vt_parser \<Rightarrow> bool" where
  "in_ground p \<longleftrightarrow> p_mode p = mode_ground"

definition reset_params :: "vt_parser \<Rightarrow> vt_parser" where
  "reset_params p =
     p\<lparr>p_params := [], p_current_param := 0, p_has_param := False, p_private_marker := False,
       p_intermediate := 0, p_csi_overflow := False\<rparr>"

definition add_param :: "vt_parser \<Rightarrow> vt_parser" where
  "add_param p =
     (let p' = (if length (p_params p) < MAX_PARAMS
                then p\<lparr>p_params := p_params p @ [p_current_param p]\<rparr>
                else p\<lparr>p_csi_overflow := True\<rparr>)
      in p'\<lparr>p_current_param := 0, p_has_param := False\<rparr>)"

definition get_param :: "vt_parser \<Rightarrow> nat \<Rightarrow> int \<Rightarrow> int" where
  "get_param p i d = (if i < length (p_params p) then p_params p ! i else d)"

definition clamp_param :: "int \<Rightarrow> int" where
  "clamp_param v = (if v > 32767 then 32767 else v)"

definition get_positive_param :: "vt_parser \<Rightarrow> nat \<Rightarrow> int \<Rightarrow> int" where
  "get_positive_param p i d =
     (let value = get_param p i d in if value = 0 then d else clamp_param value)"

definition set_unknown_sequence :: "nat \<Rightarrow> vt_parser \<Rightarrow> vt_parser" where
  "set_unknown_sequence start p = set_payload (P_text (drop start (p_raw p))) p"

definition set_unknown_osc_text :: "u32 \<Rightarrow> vt_parser \<Rightarrow> vt_parser" where
  "set_unknown_osc_text t p = set_payload (P_text t) p"

definition finish_seq :: "vt_parser \<times> vt_message_id \<Rightarrow> vt_parser \<times> vt_message_id" where
  "finish_seq r =
     (case r of (p, i) \<Rightarrow>
        if i = continue_msg
        then ((set_unknown_sequence (p_seq_start p) p)\<lparr>p_seq_start := 0\<rparr>, unknown_sequence)
        else (p\<lparr>p_seq_start := 0\<rparr>, i))"

section \<open>Character classes\<close>

definition is_c0_or_del :: "char32 \<Rightarrow> bool" where
  "is_c0_or_del ch \<longleftrightarrow> ch \<le> 0x1F \<or> ch = 0x7F"

definition is_digit :: "char32 \<Rightarrow> bool" where
  "is_digit ch \<longleftrightarrow> 0x30 \<le> ch \<and> ch \<le> 0x39"

datatype ground_char_kind =
    g_printable | g_esc | g_carriage_return | g_line_feed | g_tab | g_nul | g_backspace | g_sub
  | g_del | g_other_control

datatype csi_char_kind =
    c_control | c_digit | c_semicolon | c_private_marker | c_intermediate | c_final | c_invalid

definition classify_ground_char :: "char32 \<Rightarrow> ground_char_kind" where
  "classify_ground_char ch =
     (if ch > 0x1F \<and> ch \<noteq> 0x7F then g_printable
      else if ch = 0x00 then g_nul
      else if ch = 0x08 then g_backspace
      else if ch = 0x09 then g_tab
      else if ch = 0x0A then g_line_feed
      else if ch = 0x0D then g_carriage_return
      else if ch = 0x1B then g_esc
      else if ch = 0x1A then g_sub
      else if ch = 0x7F then g_del
      else g_other_control)"

fun control_id_from_ground_kind :: "ground_char_kind \<Rightarrow> vt_message_id" where
  "control_id_from_ground_kind g_nul = Key char_nul"
| "control_id_from_ground_kind g_backspace = Key char_del"
| "control_id_from_ground_kind g_del = Key char_del"
| "control_id_from_ground_kind g_sub = Key char_sub"
| "control_id_from_ground_kind g_tab = Cursor cursor_forward_tab"
| "control_id_from_ground_kind g_carriage_return = carriage_return"
| "control_id_from_ground_kind g_line_feed = line_feed"
| "control_id_from_ground_kind _ = text_msg"

definition classify_csi_char :: "char32 \<Rightarrow> csi_char_kind" where
  "classify_csi_char ch =
     (if is_c0_or_del ch then c_control
      else if is_digit ch then c_digit
      else if ch = 0x3B then c_semicolon
      else if ch = 0x3F then c_private_marker
      else if 0x20 \<le> ch \<and> ch \<le> 0x2F then c_intermediate
      else if 0x40 \<le> ch \<and> ch \<le> 0x7E then c_final
      else c_invalid)"

section \<open>Dispatch of ESC, SS3 and charset sequences\<close>

text \<open>\<open>continue_msg\<close> is the source's value for a sequence that is not recognised.\<close>

definition dispatch_esc :: "char32 \<Rightarrow> vt_message_id" where
  "dispatch_esc code =
     (if code = 0x4D then reverse_index
      else if code = 0x37 then Cursor save_cursor
      else if code = 0x38 then Cursor restore_cursor
      else if code = 0x48 then Mode horizontal_tab_set
      else if code = 0x3D then Mode keypad_app_mode
      else if code = 0x3E then Mode keypad_numeric_mode
      else continue_msg)"

definition dispatch_ss3 :: "char32 \<Rightarrow> vt_message_id" where
  "dispatch_ss3 code =
     (if code = 0x41 then Key key_up
      else if code = 0x42 then Key key_down
      else if code = 0x43 then Key key_right
      else if code = 0x44 then Key key_left
      else if code = 0x48 then Key key_home
      else if code = 0x46 then Key key_end
      else if code = 0x50 then Key key_f1
      else if code = 0x51 then Key key_f2
      else if code = 0x52 then Key key_f3
      else if code = 0x53 then Key key_f4
      else continue_msg)"

definition dispatch_charset :: "char32 \<Rightarrow> vt_message_id" where
  "dispatch_charset final =
     (if final = 0x30 then Mode designate_charset_line_drawing
      else if final = 0x42 then Mode designate_charset_ascii
      else continue_msg)"

section \<open>Dispatch of OSC sequences\<close>

text \<open>
  \<open>std::from_chars\<close> on a string of digits: the value of the longest prefix that parses, here all of
  it; \<open>None\<close> stands for the error code \<open>result_out_of_range\<close>.
\<close>

definition digits_value :: "nat \<Rightarrow> nat list \<Rightarrow> nat" where
  "digits_value base ds = fold (\<lambda>d acc. acc * base + d) ds 0"

definition dec_digit :: "char32 \<Rightarrow> nat" where
  "dec_digit ch = ch - 0x30"

definition hex_digit :: "char32 \<Rightarrow> nat" where
  "hex_digit ch =
     (if is_digit ch then ch - 0x30
      else if 0x41 \<le> ch \<and> ch \<le> 0x46 then ch - 0x41 + 10
      else ch - 0x61 + 10)"

definition is_hex_digit :: "char32 \<Rightarrow> bool" where
  "is_hex_digit ch \<longleftrightarrow> is_digit ch \<or> (0x41 \<le> ch \<and> ch \<le> 0x46) \<or> (0x61 \<le> ch \<and> ch \<le> 0x66)"

definition parse_osc_decimal :: "u32 \<Rightarrow> nat \<Rightarrow> int \<times> nat" where
  "parse_osc_decimal s pos =
     (let start = pos + length (takeWhile (\<lambda>ch. ch = 0x20) (drop pos s));
          ds = takeWhile is_digit (take 5 (drop start s));
          pos' = start + length ds
      in if ds = [] then (0, pos')
         else let v = digits_value 10 (map dec_digit ds)
              in (if v > 32767 then 0 else int v, pos'))"

definition parse_osc_hex :: "u32 \<Rightarrow> nat \<Rightarrow> nat \<times> nat" where
  "parse_osc_hex buf pos =
     (let ds = takeWhile is_hex_digit (take 2 (drop pos buf));
          pos' = pos + length ds
      in if ds = [] then (0, pos')
         else let pos'' = pos' + length (takeWhile (\<lambda>ch. ch = 0x2F) (drop pos' buf))
              in (digits_value 16 (map hex_digit ds), pos''))"

text \<open>The terminator of an OSC payload: BEL, or ESC followed by a backslash.\<close>

fun find_terminator :: "u32 \<Rightarrow> nat option" where
  "find_terminator [] = None"
| "find_terminator (c # cs) =
     (if c = 0x07 \<or> (c = 0x1B \<and> (case cs of [] \<Rightarrow> False | d # _ \<Rightarrow> d = 0x5C)) then Some 0
      else map_option Suc (find_terminator cs))"

text \<open>The loop that reads the operation code; \<open>short\<close> arithmetic wraps.\<close>

fun osc_code_value :: "int \<Rightarrow> u32 \<Rightarrow> int" where
  "osc_code_value code [] = code"
| "osc_code_value code (c # cs) =
     (if is_digit c then osc_code_value (to_short (code * 10 + int (c - 0x30))) cs else code)"

definition char_in :: "u32 \<Rightarrow> nat \<Rightarrow> char32 list \<Rightarrow> bool" where
  "char_in s i cs \<longleftrightarrow> i < length s \<and> s ! i \<in> set cs"

definition dispatch_osc_palette :: "u32 \<Rightarrow> vt_parser \<Rightarrow> vt_parser \<times> vt_message_id" where
  "dispatch_osc_palette payload p =
     (let (index, p0) = parse_osc_decimal payload 0;
          p1 = (if char_in payload p0 [0x3B] then p0 + 1 else p0)
      in if p1 + 4 \<le> length payload \<and> char_in payload p1 [0x72, 0x52]
            \<and> char_in payload (p1 + 1) [0x67, 0x47] \<and> char_in payload (p1 + 2) [0x62, 0x42]
            \<and> char_in payload (p1 + 3) [0x3A]
         then let p2 = p1 + 4;
                  (r, p3) = parse_osc_hex payload p2;
                  (g, p4) = parse_osc_hex payload p3;
                  (b, p5) = parse_osc_hex payload p4
              in if p5 = p2 then (set_unknown_osc_text [] p, unknown_sequence)
                 else (set_payload (P_palette index r g b) p, set_palette_color)
         else (set_unknown_osc_text [] p, unknown_sequence))"

definition dispatch_osc :: "vt_parser \<Rightarrow> vt_parser \<times> vt_message_id" where
  "dispatch_osc p =
     (let seq = drop (p_seq_start p) (p_raw p)
      in if length seq < 3 \<or> seq ! 0 \<noteq> 0x1B \<or> seq ! 1 \<noteq> 0x5D then (p, continue_msg)
         else
           let code = osc_code_value 0 (drop 2 seq);
               pos = 2 + length (takeWhile is_digit (drop 2 seq))
           in if pos \<ge> length seq \<or> seq ! pos \<noteq> 0x3B then (p, continue_msg)
              else
                (case find_terminator (drop (pos + 1) seq) of
                   None \<Rightarrow> (p, continue_msg)
                 | Some n \<Rightarrow>
                     let payload = take n (drop (pos + 1) seq)
                     in if code = 8 then (set_unknown_osc_text [] p, osc8_hyperlink)
                        else if code = 0 \<or> code = 2
                        then (set_payload (P_title payload) p, set_window_title)
                        else if code = 4 then dispatch_osc_palette payload p
                        else (set_unknown_osc_text [] p, unknown_sequence)))"

section \<open>Dispatch of CSI sequences\<close>

text \<open>
  The parameter loop of SGR (final \<open>m\<close>) on the list of the parameters not read yet; \<open>None\<close> is the
  loop's \<open>return continue_msg\<close> on an incomplete 38/48 colour. A 38 or 48 that is the last parameter is
  ignored.
\<close>

fun sgr_params :: "int list \<Rightarrow> vt_sgr \<Rightarrow> vt_sgr option" where
  "sgr_params [] s = Some s"
| "sgr_params (v # vs) s =
     (if v = 0 then sgr_params vs (vt_sgr_set sgr_reset s)
      else if v = 1 then sgr_params vs (vt_sgr_set sgr_bold s)
      else if v = 2 then sgr_params vs (vt_sgr_set sgr_faint s)
      else if v = 3 then sgr_params vs (vt_sgr_set sgr_italic s)
      else if v = 4 then sgr_params vs (vt_sgr_set sgr_underline s)
      else if v = 5 then sgr_params vs (vt_sgr_set sgr_blink s)
      else if v = 7 then sgr_params vs (vt_sgr_set sgr_negative s)
      else if v = 8 then sgr_params vs (vt_sgr_set sgr_conceal s)
      else if v = 9 then sgr_params vs (vt_sgr_set sgr_strikethrough s)
      else if v = 22 then sgr_params vs (vt_sgr_clear sgr_faint (vt_sgr_clear sgr_bold s))
      else if v = 23 then sgr_params vs (vt_sgr_clear sgr_italic s)
      else if v = 24 then sgr_params vs (vt_sgr_clear sgr_underline s)
      else if v = 25 then sgr_params vs (vt_sgr_clear sgr_blink s)
      else if v = 27 then sgr_params vs (vt_sgr_clear sgr_negative s)
      else if v = 28 then sgr_params vs (vt_sgr_clear sgr_conceal s)
      else if v = 29 then sgr_params vs (vt_sgr_clear sgr_strikethrough s)
      else if 30 \<le> v \<and> v \<le> 37
        then sgr_params vs (s\<lparr>sgr_fg := color_set_index (to_short (v - 30)) (sgr_fg s)\<rparr>)
      else if v = 38 \<and> vs \<noteq> [] then
        (case vs of
           a # b # rest \<Rightarrow>
             if a = 5 then sgr_params rest (s\<lparr>sgr_fg := color_set_index b (sgr_fg s)\<rparr>)
             else (case rest of
                 c # d # rest' \<Rightarrow>
                   if a = 2
                   then sgr_params rest'
                          (s\<lparr>sgr_fg := color_set_rgb (to_u8 b) (to_u8 c) (to_u8 d) (sgr_fg s)\<rparr>)
                   else None
               | _ \<Rightarrow> None)
         | _ \<Rightarrow> None)
      else if v = 39 then sgr_params vs (s\<lparr>sgr_fg := color_set_default (sgr_fg s)\<rparr>)
      else if 40 \<le> v \<and> v \<le> 47
        then sgr_params vs (s\<lparr>sgr_bg := color_set_index (to_short (v - 40)) (sgr_bg s)\<rparr>)
      else if v = 48 \<and> vs \<noteq> [] then
        (case vs of
           a # b # rest \<Rightarrow>
             if a = 5 then sgr_params rest (s\<lparr>sgr_bg := color_set_index b (sgr_bg s)\<rparr>)
             else (case rest of
                 c # d # rest' \<Rightarrow>
                   if a = 2
                   then sgr_params rest'
                          (s\<lparr>sgr_bg := color_set_rgb (to_u8 b) (to_u8 c) (to_u8 d) (sgr_bg s)\<rparr>)
                   else None
               | _ \<Rightarrow> None)
         | _ \<Rightarrow> None)
      else if v = 49 then sgr_params vs (s\<lparr>sgr_bg := color_set_default (sgr_bg s)\<rparr>)
      else if 90 \<le> v \<and> v \<le> 97
        then sgr_params vs (s\<lparr>sgr_fg := color_set_index (to_short (v - 90 + 8)) (sgr_fg s)\<rparr>)
      else if 100 \<le> v \<and> v \<le> 107
        then sgr_params vs (s\<lparr>sgr_bg := color_set_index (to_short (v - 100 + 8)) (sgr_bg s)\<rparr>)
      else sgr_params vs s)"

definition dec_private_set :: "int \<Rightarrow> vt_message_id" where
  "dec_private_set v =
     (if v = 12 then Cursor cursor_enable_blinking
      else if v = 25 then Cursor cursor_show
      else if v = 1 then Cursor cursor_keys_app_mode
      else if v = 3 then Screen set_columns_132
      else if v = 1049 then Screen use_alternate_buffer
      else continue_msg)"

definition dec_private_reset :: "int \<Rightarrow> vt_message_id" where
  "dec_private_reset v =
     (if v = 12 then Cursor cursor_disable_blinking
      else if v = 25 then Cursor cursor_hide
      else if v = 1 then Cursor cursor_keys_normal_mode
      else if v = 3 then Screen set_columns_80
      else if v = 1049 then Screen use_main_buffer
      else continue_msg)"

definition tilde_key :: "int \<Rightarrow> vt_message_id" where
  "tilde_key v =
     (if v = 2 then Key key_insert
      else if v = 3 then Key key_delete
      else if v = 5 then Key key_page_up
      else if v = 6 then Key key_page_down
      else if v = 15 then Key key_f5
      else if v = 17 then Key key_f6
      else if v = 18 then Key key_f7
      else if v = 19 then Key key_f8
      else if v = 20 then Key key_f9
      else if v = 21 then Key key_f10
      else if v = 23 then Key key_f11
      else if v = 24 then Key key_f12
      else continue_msg)"

text \<open>The Win32 Input Mode key \<open>CSI Vk;Sc;Uc;Kd;Cs;Rc _\<close>.\<close>

definition win32_key_payload :: "vt_parser \<Rightarrow> vt_win32_key" where
  "win32_key_payload p =
     (let rc = to_u16 (clamp_param (get_param p 5 1))
      in \<lparr>wk_vk = to_u16 (clamp_param (get_param p 0 0)),
          wk_sc = to_u16 (clamp_param (get_param p 1 0)),
          wk_uc = to_u16 (clamp_param (get_param p 2 0)),
          wk_key_down = (get_param p 3 0 \<noteq> 0),
          wk_control_state = to_u32 (clamp_param (get_param p 4 0)),
          wk_repeat_count = (if rc = 0 then 1 else rc)\<rparr>)"

text \<open>
  The finals that carry the count \<open>n\<close> and refuse a private marker (\<open>A\<close> to \<open>F\<close>), and those that
  carry it in any case.
\<close>

definition dispatch_csi_counted :: "char32 \<Rightarrow> (vt_message_id \<times> bool) option" where
  "dispatch_csi_counted t =
     (if t = 0x41 then Some (Cursor cursor_up, True)
      else if t = 0x42 then Some (Cursor cursor_down, True)
      else if t = 0x43 then Some (Cursor cursor_forward, True)
      else if t = 0x44 then Some (Cursor cursor_backward, True)
      else if t = 0x45 then Some (Cursor cursor_next_line, True)
      else if t = 0x46 then Some (Cursor cursor_prev_line, True)
      else if t = 0x53 then Some (Screen scroll_up, False)
      else if t = 0x54 then Some (Screen scroll_down, False)
      else if t = 0x40 then Some (Screen insert_characters, False)
      else if t = 0x50 then Some (Screen delete_characters, False)
      else if t = 0x58 then Some (Screen erase_characters, False)
      else if t = 0x4C then Some (Screen insert_lines, False)
      else if t = 0x4D then Some (Screen delete_lines, False)
      else if t = 0x49 then Some (Cursor cursor_forward_tab, False)
      else if t = 0x5A then Some (Cursor cursor_backward_tab, False)
      else None)"

text \<open>The finals from \<open>m\<close> on: attributes, cursor shape, tab stops, margins, queries and keys.\<close>

definition dispatch_csi_tail :: "char32 \<Rightarrow> vt_parser \<Rightarrow> vt_parser \<times> vt_message_id" where
  "dispatch_csi_tail t p =
     (if t = 0x6D then
        (case sgr_params (p_params p) vt_sgr_init of
           Some s \<Rightarrow> (set_payload (P_sgr s) p, sgr_msg)
         | None \<Rightarrow> (p, continue_msg))
      else if t = 0x71 then
        (if p_intermediate p = 0x20
         then (set_payload (P_cursor_shape (clamp_param (get_param p 0 0))) p,
               Cursor set_cursor_shape)
         else (p, continue_msg))
      else if t = 0x67 then
        (p, if get_param p 0 0 = 0 then Mode tab_clear_current
            else if get_param p 0 0 = 3 then Mode tab_clear_all
            else continue_msg)
      else if t = 0x72 then
        (set_payload
           (P_scroll_region (clamp_param (get_param p 0 1)) (clamp_param (get_param p 1 0))) p,
         Screen set_scrolling_region)
      else if t = 0x6E then
        (p, if get_param p 0 0 = 6 then Query report_cursor_position else continue_msg)
      else if t = 0x63 then (p, Query device_attributes)
      else if t = 0x52 then
        (if p_private_marker p then (p, continue_msg)
         else let row = clamp_param (get_param p 0 1);
                  col = clamp_param (get_param p 1 1)
              in (set_payload (P_cpr row col) p,
                  if row > 0 \<and> col > 0 then Query cpr_response else continue_msg))
      else if t = 0x70 then
        (p, if p_intermediate p = 0x21 then Query soft_reset else continue_msg)
      else if t = 0x5F then
        (set_payload (P_win32_key (win32_key_payload p)) p, Key win32_input_key)
      else if t = 0x7E then (p, tilde_key (get_param p 0 0))
      else (p, continue_msg))"

definition dispatch_csi_final :: "char32 \<Rightarrow> int \<Rightarrow> vt_parser \<Rightarrow> vt_parser \<times> vt_message_id" where
  "dispatch_csi_final t n p =
     (let priv = p_private_marker p
      in case dispatch_csi_counted t of
           Some (i, no_priv) \<Rightarrow>
             if no_priv \<and> priv then (p, continue_msg)
             else (set_payload (P_count (clamp_param n)) p, i)
         | None \<Rightarrow>
      if t = 0x47 then
        (if priv then (p, continue_msg)
         else (set_payload (P_position 0 (get_positive_param p 0 1)) p,
               Cursor cursor_horiz_absolute))
      else if t = 0x64 then
        (if priv then (p, continue_msg)
         else (set_payload (P_position (get_positive_param p 0 1) 0) p,
               Cursor cursor_vert_absolute))
      else if t = 0x48 \<or> t = 0x66 then
        (if priv then (p, continue_msg)
         else (set_payload
                 (P_position (get_positive_param p 0 1) (get_positive_param p 1 1)) p,
               Cursor cursor_position))
      else if t = 0x73 then (if priv then (p, continue_msg) else (p, Cursor ansi_save_cursor))
      else if t = 0x75 then (if priv then (p, continue_msg) else (p, Cursor ansi_restore_cursor))
      else if t = 0x68 then
        (if priv then (p, dec_private_set (get_param p 0 0)) else (p, continue_msg))
      else if t = 0x6C then
        (if priv then (p, dec_private_reset (get_param p 0 0)) else (p, continue_msg))
      else if t = 0x74 then
        (if get_param p 0 0 = 8
         then let rows = clamp_param (get_param p 1 0);
                  cols = clamp_param (get_param p 2 0)
              in (set_payload (P_resize rows cols) p,
                  if rows > 0 \<and> cols > 0 then Screen resize_window else continue_msg)
         else (p, continue_msg))
      else if t = 0x4A then
        (set_payload (P_erase_mode (clamp_param (get_param p 0 0))) p, Screen erase_in_display)
      else if t = 0x4B then
        (set_payload (P_erase_mode (clamp_param (get_param p 0 0))) p, Screen erase_in_line)
      else dispatch_csi_tail t p)"

definition dispatch_csi :: "char32 \<Rightarrow> vt_parser \<Rightarrow> vt_parser \<times> vt_message_id" where
  "dispatch_csi t p =
     (if p_csi_overflow p then (p, continue_msg)
      else
        let n0 = (if length (p_params p) > 0 then get_param p 0 1 else 1);
            n = (if n0 = 0 then 1 else n0);
            km = (if length (p_params p) > 1 then get_param p 1 1 else 1)
        in dispatch_csi_final t n (p\<lparr>p_msg := (p_msg p)\<lparr>m_key_modifier := km\<rparr>\<rparr>))"

section \<open>One character in each mode\<close>

definition parse_esc :: "char32 \<Rightarrow> vt_parser \<Rightarrow> vt_parser \<times> vt_message_id" where
  "parse_esc ch p =
     (if is_c0_or_del ch
      then ((set_unknown_sequence (p_seq_start p) p)\<lparr>p_mode := mode_ground\<rparr>, unknown_sequence)
      else if ch = 0x5B then (reset_params (p\<lparr>p_mode := mode_csi\<rparr>), continue_msg)
      else if ch = 0x5D
        then (p\<lparr>p_mode := mode_osc, p_osc_code := 0, p_osc_buf := [], p_osc_had_semi := False\<rparr>,
              continue_msg)
      else if ch = 0x4F then (p\<lparr>p_mode := mode_ss3\<rparr>, continue_msg)
      else if ch = 0x28 then (p\<lparr>p_intermediate := 0x28\<rparr>, continue_msg)
      else
        let p1 = p\<lparr>p_mode := mode_ground\<rparr>
        in if p_intermediate p1 = 0x28
           then finish_seq (p1\<lparr>p_intermediate := 0\<rparr>, dispatch_charset ch)
           else if p_intermediate p1 \<noteq> 0
           then ((set_unknown_sequence (p_seq_start p1) p1)\<lparr>p_intermediate := 0\<rparr>,
                 unknown_sequence)
           else finish_seq (p1, dispatch_esc ch))"

definition parse_ss3 :: "char32 \<Rightarrow> vt_parser \<Rightarrow> vt_parser \<times> vt_message_id" where
  "parse_ss3 ch p =
     (if is_c0_or_del ch
      then ((set_unknown_sequence (p_seq_start p) p)\<lparr>p_mode := mode_ground\<rparr>, unknown_sequence)
      else if 0x40 \<le> ch \<and> ch \<le> 0x7E
      then finish_seq (p\<lparr>p_mode := mode_ground\<rparr>, dispatch_ss3 ch)
      else ((set_unknown_sequence (p_seq_start p) p)\<lparr>p_mode := mode_ground\<rparr>,
            unknown_sequence))"

definition csi_abort :: "vt_parser \<Rightarrow> vt_parser \<times> vt_message_id" where
  "csi_abort p =
     (reset_params ((set_unknown_sequence (p_seq_start p) p)\<lparr>p_mode := mode_ground\<rparr>),
      unknown_sequence)"

definition parse_csi :: "char32 \<Rightarrow> vt_parser \<Rightarrow> vt_parser \<times> vt_message_id" where
  "parse_csi ch p =
     (case classify_csi_char ch of
        c_control \<Rightarrow> csi_abort p
      | c_digit \<Rightarrow>
          (p\<lparr>p_current_param := to_short (p_current_param p * 10 + int (ch - 0x30)),
             p_has_param := True\<rparr>, continue_msg)
      | c_semicolon \<Rightarrow> (add_param p, continue_msg)
      | c_private_marker \<Rightarrow> (p\<lparr>p_private_marker := True\<rparr>, continue_msg)
      | c_intermediate \<Rightarrow> (p\<lparr>p_intermediate := ch\<rparr>, continue_msg)
      | c_final \<Rightarrow>
          (case dispatch_csi ch (add_param p) of
             (p1, i) \<Rightarrow> finish_seq (reset_params (p1\<lparr>p_mode := mode_ground\<rparr>), i))
      | c_invalid \<Rightarrow> csi_abort p)"

definition parse_osc :: "char32 \<Rightarrow> vt_parser \<Rightarrow> vt_parser \<times> vt_message_id" where
  "parse_osc ch p =
     (if is_c0_or_del ch then
        (if ch = 0x07 then
           (case dispatch_osc p of (p1, i) \<Rightarrow> finish_seq (p1\<lparr>p_mode := mode_ground\<rparr>, i))
         else if ch = 0x1B then (p\<lparr>p_mode := mode_osc_st\<rparr>, continue_msg)
         else ((set_unknown_sequence (p_seq_start p) p)
                 \<lparr>p_mode := mode_ground, p_osc_code := 0, p_osc_buf := [],
                  p_osc_had_semi := False\<rparr>, unknown_sequence))
      else if \<not> p_osc_had_semi p then
        (if is_digit ch
         then (p\<lparr>p_osc_code := to_short (p_osc_code p * 10 + int (ch - 0x30))\<rparr>, continue_msg)
         else if ch = 0x3B then (p\<lparr>p_osc_had_semi := True\<rparr>, continue_msg)
         else (p, continue_msg))
      else if p_osc_code p \<noteq> 0 \<and> p_osc_code p \<noteq> 2 \<and> length (p_osc_buf p) < OSC_BUF_SIZE - 1
              \<and> ch < 0x80
      then (p\<lparr>p_osc_buf := p_osc_buf p @ [ch]\<rparr>, continue_msg)
      else (p, continue_msg))"

definition parse_osc_st :: "char32 \<Rightarrow> vt_parser \<Rightarrow> vt_parser \<times> vt_message_id" where
  "parse_osc_st ch p =
     (if ch = 0x5C then
        (case dispatch_osc p of (p1, i) \<Rightarrow> finish_seq (p1\<lparr>p_mode := mode_ground\<rparr>, i))
      else parse_esc ch (p\<lparr>p_mode := mode_esc\<rparr>))"

text \<open>\<open>None\<close>: the source's \<open>std::unreachable()\<close> for the ground mode.\<close>

definition parse_sequence_char :: "char32 \<Rightarrow> vt_parser \<Rightarrow> (vt_parser \<times> vt_message_id) option" where
  "parse_sequence_char ch p0 =
     (let p = p0\<lparr>p_raw := p_raw p0 @ [ch]\<rparr>
      in case p_mode p of
           mode_ground \<Rightarrow> None
         | mode_esc \<Rightarrow> Some (parse_esc ch p)
         | mode_csi \<Rightarrow> Some (parse_csi ch p)
         | mode_osc \<Rightarrow> Some (parse_osc ch p)
         | mode_osc_st \<Rightarrow> Some (parse_osc_st ch p)
         | mode_ss3 \<Rightarrow> Some (parse_ss3 ch p))"

definition set_key_modifier :: "int \<Rightarrow> vt_parser \<Rightarrow> vt_parser" where
  "set_key_modifier k p = p\<lparr>p_msg := (p_msg p)\<lparr>m_key_modifier := k\<rparr>\<rparr>"

definition parse_ground_control :: "char32 \<Rightarrow> vt_parser \<Rightarrow> (vt_parser \<times> vt_message_id) option" where
  "parse_ground_control ch p =
     (let kind = classify_ground_char ch
      in if kind = g_printable then None
         else if kind = g_esc then
           (let raw = p_raw p @ [ch]
            in Some (p\<lparr>p_raw := raw, p_seq_start := length raw - 1, p_mode := mode_esc\<rparr>,
                     continue_msg))
         else
           let control_id = control_id_from_ground_kind kind
           in if kind = g_carriage_return \<or> kind = g_line_feed
              then Some (set_payload (P_text []) p, control_id)
              else if kind = g_tab then Some (set_payload (P_count 1) p, control_id)
              else
                let p1 = (if kind = g_backspace then set_key_modifier 5 p else p)
                in Some (set_payload (P_text [ch]) (p1\<lparr>p_ground_control_char := ch\<rparr>),
                         control_id))"

section \<open>parse\<close>

definition direct_ground_text_run_length :: "u32 \<Rightarrow> nat" where
  "direct_ground_text_run_length input = length (takeWhile (\<lambda>ch. \<not> (ch \<le> 0x1F \<or> ch = 0x7F)) input)"

definition raw_sequence :: "vt_parser \<Rightarrow> u32" where
  "raw_sequence p =
     (if p_seq_start p \<ge> length (p_raw p) \<or> p_raw p ! p_seq_start p \<noteq> 0x1B then []
      else drop (p_seq_start p) (p_raw p))"

definition make_result :: "vt_parser \<Rightarrow> vt_message_id \<Rightarrow> nat \<Rightarrow> vt_parse_result" where
  "make_result p i consumed =
     (if i \<noteq> continue_msg
      then \<lparr>res_id = i, res_consumed = consumed, res_raw_sequence = raw_sequence p,
            res_message = p_msg p\<rparr>
      else \<lparr>res_id = i, res_consumed = consumed, res_raw_sequence = [],
            res_message = vt_message_init\<rparr>)"

text \<open>The loop over the characters of an escape sequence; \<open>i\<close> characters were read before.\<close>

fun parse_loop :: "u32 \<Rightarrow> nat \<Rightarrow> vt_parser \<Rightarrow> (vt_parser \<times> vt_parse_result) option" where
  "parse_loop [] i p = Some (p, make_result p continue_msg i)"
| "parse_loop (c # cs) i p =
     (case parse_sequence_char c p of
        None \<Rightarrow> None
      | Some (p', d) \<Rightarrow>
          if d \<noteq> continue_msg then Some (p', make_result p' d (i + 1))
          else parse_loop cs (i + 1) p')"

fun vt_parse :: "vt_parser \<Rightarrow> u32 \<Rightarrow> (vt_parser \<times> vt_parse_result) option" where
  "vt_parse p [] = Some (p, make_result p continue_msg 0)"
| "vt_parse p (c # cs) =
     (if p_mode p = mode_ground then
        (let run = direct_ground_text_run_length (c # cs)
         in if run \<noteq> 0
            then (let p1 = set_payload (P_text (take run (c # cs))) p
                  in Some (p1, make_result p1 continue_text run))
            else
              (case parse_ground_control c p of
                 None \<Rightarrow> None
               | Some (p1, d) \<Rightarrow>
                   if d \<noteq> continue_msg then Some (p1, make_result p1 d 1)
                   else parse_loop cs 1 p1))
      else parse_loop (c # cs) 0 p)"

end
