(* ===== verification/Vt_Parser_Inv.thy ===== *)
theory Vt_Parser_Inv
  imports Vt_Parser
begin

text \<open>
  The parser's invariant and what one call of \<open>vt_parse\<close> does to it.

  \<open>parser_inv\<close> holds of a parser between two calls: in ground state nothing is buffered; inside a
  sequence the buffer starts with the sequence's ESC; the parameter and OSC buffers are within
  their arrays; every stored number is a \<open>short\<close>. The lemmas \<open>step_ok\<close> say of one character in each
  mode that it keeps the buffer, ends the sequence exactly when it produces a message, and keeps
  the bounds.
\<close>

section \<open>The invariant\<close>

definition fields_inv :: "vt_parser \<Rightarrow> bool" where
  "fields_inv p \<longleftrightarrow>
     length (p_params p) \<le> MAX_PARAMS \<and> (\<forall>v \<in> set (p_params p). is_short v) \<and>
     is_short (p_current_param p) \<and> length (p_osc_buf p) < OSC_BUF_SIZE \<and>
     is_short (p_osc_code p)"

definition seq_inv :: "vt_parser \<Rightarrow> bool" where
  "seq_inv p \<longleftrightarrow>
     p_mode p \<noteq> mode_ground \<and> p_seq_start p = 0 \<and> p_raw p \<noteq> [] \<and> p_raw p ! 0 = 0x1B \<and>
     fields_inv p"

definition ground_inv :: "vt_parser \<Rightarrow> bool" where
  "ground_inv p \<longleftrightarrow>
     p_mode p = mode_ground \<and> p_seq_start p = 0 \<and> p_raw p = [] \<and> fields_inv p"

definition parser_inv :: "vt_parser \<Rightarrow> bool" where
  "parser_inv p \<longleftrightarrow> (if p_mode p = mode_ground then ground_inv p else seq_inv p)"

lemma fields_inv_init [simp]: "fields_inv vt_parser_init"
  by (simp add: fields_inv_def vt_parser_init_def is_short_def OSC_BUF_SIZE_def)

lemma parser_inv_init [simp]: "parser_inv vt_parser_init"
  using fields_inv_init
  by (simp add: parser_inv_def ground_inv_def) (simp add: vt_parser_init_def)

lemma fields_inv_frame [simp]:
  "fields_inv (p\<lparr>p_msg := m\<rparr>) = fields_inv p"
  "fields_inv (p\<lparr>p_raw := r\<rparr>) = fields_inv p"
  "fields_inv (p\<lparr>p_seq_start := n\<rparr>) = fields_inv p"
  "fields_inv (p\<lparr>p_mode := mo\<rparr>) = fields_inv p"
  "fields_inv (p\<lparr>p_private_marker := b\<rparr>) = fields_inv p"
  "fields_inv (p\<lparr>p_has_param := b\<rparr>) = fields_inv p"
  "fields_inv (p\<lparr>p_intermediate := n\<rparr>) = fields_inv p"
  "fields_inv (p\<lparr>p_csi_overflow := b\<rparr>) = fields_inv p"
  "fields_inv (p\<lparr>p_osc_had_semi := b\<rparr>) = fields_inv p"
  "fields_inv (p\<lparr>p_ground_control_char := n\<rparr>) = fields_inv p"
  by (simp_all add: fields_inv_def)

lemma fields_inv_set_payload [simp]: "fields_inv (set_payload pl p) = fields_inv p"
  by (simp add: set_payload_def)

lemma fields_inv_set_key_modifier [simp]: "fields_inv (set_key_modifier k p) = fields_inv p"
  by (simp add: set_key_modifier_def)

lemma fields_inv_reset_params [parser_inv_intros]:
  "fields_inv p \<Longrightarrow> fields_inv (reset_params p)"
  by (simp add: reset_params_def fields_inv_def is_short_def MAX_PARAMS_def)

lemma fields_inv_add_param [parser_inv_intros]: "fields_inv p \<Longrightarrow> fields_inv (add_param p)"
  by (auto simp: add_param_def fields_inv_def is_short_def Let_def)

lemma fields_inv_current [parser_inv_intros]:
  "fields_inv p \<Longrightarrow> fields_inv (p\<lparr>p_current_param := to_short x\<rparr>)"
  by (simp add: fields_inv_def)

lemma fields_inv_osc_code [parser_inv_intros]:
  "fields_inv p \<Longrightarrow> fields_inv (p\<lparr>p_osc_code := to_short x\<rparr>)"
  by (simp add: fields_inv_def)

lemma fields_inv_osc_start [parser_inv_intros]:
  "fields_inv p \<Longrightarrow> fields_inv (p\<lparr>p_osc_code := 0, p_osc_buf := []\<rparr>)"
  by (simp add: fields_inv_def is_short_def OSC_BUF_SIZE_def)

lemma fields_inv_osc_push [parser_inv_intros]:
  "fields_inv p \<Longrightarrow> length (p_osc_buf p) < OSC_BUF_SIZE - 1 \<Longrightarrow>
   fields_inv (p\<lparr>p_osc_buf := p_osc_buf p @ [ch]\<rparr>)"
  by (simp add: fields_inv_def OSC_BUF_SIZE_def)

lemma parser_inv_reset [parser_inv_intros]: "fields_inv p \<Longrightarrow> parser_inv (vt_reset p)"
  by (simp add: parser_inv_def ground_inv_def vt_reset_def)

section \<open>Dispatch only writes the message\<close>

lemma set_payload_frame [simp]:
  "p_raw (set_payload pl p) = p_raw p"
  "p_seq_start (set_payload pl p) = p_seq_start p"
  "p_mode (set_payload pl p) = p_mode p"
  "p_intermediate (set_payload pl p) = p_intermediate p"
  "p_msg (set_payload pl p) = (p_msg p)\<lparr>m_payload := pl\<rparr>"
  by (simp_all add: set_payload_def)

definition only_msg :: "vt_parser \<Rightarrow> vt_parser \<Rightarrow> bool" where
  "only_msg p p' \<longleftrightarrow> p' = p\<lparr>p_msg := p_msg p'\<rparr>"

lemma only_msg_refl [simp]: "only_msg p p"
  by (simp add: only_msg_def)

lemma only_msg_set_payload [simp]: "only_msg p (set_payload pl p)"
  by (simp add: only_msg_def set_payload_def)

lemma only_msg_set_msg [simp]: "only_msg p (p\<lparr>p_msg := m\<rparr>)"
  by (simp add: only_msg_def)

lemma only_msg_trans: "only_msg p q \<Longrightarrow> only_msg q r \<Longrightarrow> only_msg p r"
  unfolding only_msg_def by (metis (no_types, lifting) vt_parser.surjective vt_parser.update_convs(1))

lemma only_msgD:
  assumes "only_msg p p'"
  shows "p_raw p' = p_raw p" "p_seq_start p' = p_seq_start p" "p_mode p' = p_mode p"
    "fields_inv p' = fields_inv p" "p_intermediate p' = p_intermediate p"
proof -
  have eq: "p' = p\<lparr>p_msg := p_msg p'\<rparr>" using assms by (simp add: only_msg_def)
  show "p_raw p' = p_raw p" by (subst eq) simp
  show "p_seq_start p' = p_seq_start p" by (subst eq) simp
  show "p_mode p' = p_mode p" by (subst eq) simp
  show "fields_inv p' = fields_inv p" by (subst eq) simp
  show "p_intermediate p' = p_intermediate p" by (subst eq) simp
qed

lemma dispatch_osc_palette_only_msg: "only_msg p (fst (dispatch_osc_palette payload p))"
  by (simp add: dispatch_osc_palette_def set_unknown_osc_text_def Let_def split: prod.split)

lemma dispatch_osc_only_msg: "only_msg p (fst (dispatch_osc p))"
  by (simp add: dispatch_osc_def set_unknown_osc_text_def Let_def
      dispatch_osc_palette_only_msg split: option.split)

lemma only_msg_if:
  "only_msg p (fst a) \<Longrightarrow> only_msg p (fst b) \<Longrightarrow> only_msg p (fst (if c then a else b))"
  by simp

lemma only_msg_pair: "only_msg p q \<Longrightarrow> only_msg p (fst (q, i))"
  by simp

lemma only_msg_option:
  "only_msg p (fst a) \<Longrightarrow> (\<And>x. only_msg p (fst (f x))) \<Longrightarrow> only_msg p (fst (case_option a f o'))"
  by (cases o') simp_all

lemma only_msg_prod:
  "(\<And>x y. only_msg p (fst (f x y))) \<Longrightarrow> only_msg p (fst (case_prod f xy))"
  by (cases xy) simp

lemmas only_msg_rules =
  only_msg_if only_msg_pair only_msg_option only_msg_prod only_msg_refl only_msg_set_payload

lemma dispatch_csi_final_only_msg: "only_msg p (fst (dispatch_csi_final t n p))"
  unfolding dispatch_csi_final_def dispatch_csi_tail_def Let_def by (intro only_msg_rules)

lemma dispatch_csi_only_msg: "only_msg p (fst (dispatch_csi t p))"
proof (cases "p_csi_overflow p")
  case True
  then show ?thesis by (simp add: dispatch_csi_def)
next
  case False
  then show ?thesis
    unfolding dispatch_csi_def Let_def
    by (simp only: if_False)
      (rule only_msg_trans [OF only_msg_set_msg dispatch_csi_final_only_msg])
qed

section \<open>One character\<close>

text \<open>A step of the sequence parser on a parser that already holds the character.\<close>

definition step_ok :: "vt_parser \<Rightarrow> vt_parser \<times> vt_message_id \<Rightarrow> bool" where
  "step_ok p r \<longleftrightarrow>
     p_raw (fst r) = p_raw p \<and> p_seq_start (fst r) = 0 \<and> fields_inv (fst r) \<and>
     (p_mode (fst r) = mode_ground \<longleftrightarrow> snd r \<noteq> continue_msg)"

lemma set_unknown_sequence_frame [simp]:
  "p_raw (set_unknown_sequence n p) = p_raw p"
  "p_seq_start (set_unknown_sequence n p) = p_seq_start p"
  "p_mode (set_unknown_sequence n p) = p_mode p"
  "p_intermediate (set_unknown_sequence n p) = p_intermediate p"
  "fields_inv (set_unknown_sequence n p) = fields_inv p"
  by (simp_all add: set_unknown_sequence_def)

lemma reset_params_frame [simp]:
  "p_raw (reset_params p) = p_raw p"
  "p_seq_start (reset_params p) = p_seq_start p"
  "p_mode (reset_params p) = p_mode p"
  "p_msg (reset_params p) = p_msg p"
  by (simp_all add: reset_params_def)

lemma add_param_frame [simp]:
  "p_raw (add_param p) = p_raw p"
  "p_seq_start (add_param p) = p_seq_start p"
  "p_mode (add_param p) = p_mode p"
  "p_msg (add_param p) = p_msg p"
  by (simp_all add: add_param_def Let_def)

lemma finish_seq_ok:
  assumes "p_mode p' = mode_ground" and "p_raw p' = p_raw p" and "fields_inv p'"
  shows "step_ok p (finish_seq (p', d))"
  using assms by (simp add: step_ok_def finish_seq_def)

lemma parse_esc_ok:
  assumes "p_mode p = mode_esc" and "p_seq_start p = 0" and "fields_inv p"
  shows "step_ok p (parse_esc ch p)"
  using assms unfolding parse_esc_def Let_def
  by (simp add: step_ok_def finish_seq_def parser_inv_intros fields_inv_osc_start [simplified])

lemma parse_ss3_ok:
  assumes "p_seq_start p = 0" and "fields_inv p"
  shows "step_ok p (parse_ss3 ch p)"
  using assms by (simp add: parse_ss3_def step_ok_def finish_seq_def)

lemma csi_abort_ok:
  assumes "p_seq_start p = 0" and "fields_inv p"
  shows "step_ok p (csi_abort p)"
  using assms by (simp add: csi_abort_def step_ok_def parser_inv_intros)

lemma parse_csi_ok:
  assumes "p_mode p = mode_csi" and "p_seq_start p = 0" and "fields_inv p"
  shows "step_ok p (parse_csi ch p)"
proof (cases "classify_csi_char ch = c_final")
  case True
  obtain p1 d where r: "dispatch_csi ch (add_param p) = (p1, d)" by (cases "dispatch_csi ch (add_param p)")
  then have "only_msg (add_param p) p1" using dispatch_csi_only_msg [of "add_param p" ch] by simp
  note frame = only_msgD [OF this]
  have "fields_inv p1" using frame(4) assms(3) by (simp add: parser_inv_intros)
  then show ?thesis
    using True r frame(1)
    by (simp add: parse_csi_def finish_seq_ok parser_inv_intros)
next
  case False
  then show ?thesis
    using assms csi_abort_ok [OF assms(2,3)]
    by (cases "classify_csi_char ch")
      (simp_all add: parse_csi_def step_ok_def parser_inv_intros)
qed

lemma dispatch_osc_end_ok:
  assumes "fields_inv p"
  shows "step_ok p (case dispatch_osc p of (p1, i) \<Rightarrow> finish_seq (p1\<lparr>p_mode := mode_ground\<rparr>, i))"
proof -
  obtain p1 d where r: "dispatch_osc p = (p1, d)" by (cases "dispatch_osc p")
  then have "only_msg p p1" using dispatch_osc_only_msg [of p] by simp
  note frame = only_msgD [OF this]
  show ?thesis
    using r frame(1,4) assms by (simp add: finish_seq_ok)
qed

lemma parse_osc_ok:
  assumes "p_mode p = mode_osc" and "p_seq_start p = 0" and "fields_inv p"
  shows "step_ok p (parse_osc ch p)"
proof (cases "ch = 0x07")
  case True
  moreover have "is_c0_or_del 7" by (simp add: is_c0_or_del_def)
  ultimately show ?thesis using dispatch_osc_end_ok [OF assms(3)] by (simp add: parse_osc_def)
next
  case not_bel: False
  show ?thesis
  proof (cases "is_c0_or_del ch")
    case True
    then show ?thesis
      using assms not_bel
      by (simp add: parse_osc_def step_ok_def parser_inv_intros fields_inv_osc_start [simplified])
  next
    case False
    then show ?thesis
      using assms by (simp add: parse_osc_def step_ok_def parser_inv_intros)
  qed
qed

lemma parse_osc_st_ok:
  assumes "p_seq_start p = 0" and "fields_inv p"
  shows "step_ok p (parse_osc_st ch p)"
proof (cases "ch = 0x5C")
  case True
  then show ?thesis using dispatch_osc_end_ok [OF assms(2)] by (simp add: parse_osc_st_def)
next
  case False
  have "step_ok (p\<lparr>p_mode := mode_esc\<rparr>) (parse_esc ch (p\<lparr>p_mode := mode_esc\<rparr>))"
    using assms by (intro parse_esc_ok) simp_all
  with False show ?thesis by (simp add: parse_osc_st_def step_ok_def)
qed

lemma parse_sequence_char_ok:
  assumes "seq_inv p"
  obtains p' d where "parse_sequence_char ch p = Some (p', d)"
    and "step_ok (p\<lparr>p_raw := p_raw p @ [ch]\<rparr>) (p', d)"
proof -
  let ?p = "p\<lparr>p_raw := p_raw p @ [ch]\<rparr>"
  have start: "p_seq_start ?p = 0" and inv: "fields_inv ?p" and mode: "p_mode ?p \<noteq> mode_ground"
    using assms by (simp_all add: seq_inv_def)
  have "\<exists>r. parse_sequence_char ch p = Some r \<and> step_ok ?p r"
    using mode parse_esc_ok [OF _ start inv, of ch] parse_ss3_ok [OF start inv, of ch]
      parse_csi_ok [OF _ start inv, of ch] parse_osc_ok [OF _ start inv, of ch]
      parse_osc_st_ok [OF start inv, of ch]
    by (cases "p_mode p") (simp_all add: parse_sequence_char_def)
  then show thesis using that by (metis surj_pair)
qed

lemma seq_inv_step:
  assumes "seq_inv p" and "parse_sequence_char ch p = Some (p', continue_msg)"
  shows "seq_inv p'" and "p_raw p' = p_raw p @ [ch]"
proof -
  have "step_ok (p\<lparr>p_raw := p_raw p @ [ch]\<rparr>) (p', continue_msg)"
    using parse_sequence_char_ok [OF assms(1), of ch] assms(2) by auto
  then show "seq_inv p'" and "p_raw p' = p_raw p @ [ch]"
    using assms(1) by (simp_all add: step_ok_def seq_inv_def nth_append)
qed

lemma seq_end_step:
  assumes "seq_inv p" and "parse_sequence_char ch p = Some (p', d)" and "d \<noteq> continue_msg"
  shows "p_mode p' = mode_ground" and "p_raw p' = p_raw p @ [ch]" and "fields_inv p'"
    and "raw_sequence p' = p_raw p @ [ch]"
proof -
  have ok: "step_ok (p\<lparr>p_raw := p_raw p @ [ch]\<rparr>) (p', d)"
    using parse_sequence_char_ok [OF assms(1), of ch] assms(2) by auto
  then show "p_mode p' = mode_ground" "p_raw p' = p_raw p @ [ch]" "fields_inv p'"
    using assms(3) by (simp_all add: step_ok_def)
  with ok show "raw_sequence p' = p_raw p @ [ch]"
    using assms(1) by (auto simp: raw_sequence_def step_ok_def seq_inv_def nth_append)
qed

end
