(* ===== verification/Stream_Step.thy ===== *)
theory Stream_Step
  imports Prelude
begin

text \<open>
  The interface of the program's incremental readers (the VT parser, the UTF-8 decoder, the LF to
  CRLF rewriting of raw output): a step consumes one character and may emit events, and a
  reader is driven by successive reads of arbitrary size. The locale derives, from the two laws that
  say how a run is made of steps and from an invariant every step keeps, that a run always
  returns and that the way the input is cut into reads does not matter.
\<close>

text \<open>Successive calls of a reader on the chunks of an input, the state carried over.\<close>

fun run_chunks :: "('s \<Rightarrow> 'c list \<Rightarrow> ('s \<times> 'e list) option) \<Rightarrow> 's \<Rightarrow> 'c list list \<Rightarrow> ('s \<times> 'e list) option"
  where
  "run_chunks f s [] = Some (s, [])"
| "run_chunks f s (x # xs) =
     (case f s x of
        None \<Rightarrow> None
      | Some (s1, es) \<Rightarrow> map_option (\<lambda>(s2, fs). (s2, es @ fs)) (run_chunks f s1 xs))"

locale stream_step =
  fixes step :: "'s \<Rightarrow> 'c \<Rightarrow> ('s \<times> 'e list) option"
    and run :: "'s \<Rightarrow> 'c list \<Rightarrow> ('s \<times> 'e list) option"
    and inv :: "'s \<Rightarrow> bool"
  assumes run_Nil: "inv s \<Longrightarrow> run s [] = Some (s, [])"
    and run_Cons: "inv s \<Longrightarrow> run s (c # cs) =
          (case step s c of
             None \<Rightarrow> None
           | Some (s1, es) \<Rightarrow> map_option (\<lambda>(s2, fs). (s2, es @ fs)) (run s1 cs))"
    and step_ok: "inv s \<Longrightarrow> \<exists>s' es. step s c = Some (s', es) \<and> inv s'"
begin

lemma run_ok: "inv s \<Longrightarrow> \<exists>s' es. run s cs = Some (s', es) \<and> inv s'"
proof (induction cs arbitrary: s)
  case Nil
  then show ?case by (simp add: run_Nil)
next
  case (Cons c cs)
  obtain s1 es where "step s c = Some (s1, es)" and "inv s1"
    using step_ok [OF Cons.prems] by blast
  with Cons.IH [of s1] show ?case by (auto simp: run_Cons [OF Cons.prems])
qed

lemma run_inv: "inv s \<Longrightarrow> run s cs = Some (s', es) \<Longrightarrow> inv s'"
  using run_ok [of s cs] by auto

lemma run_append:
  "inv s \<Longrightarrow> run s (xs @ ys) =
     (case run s xs of
        None \<Rightarrow> None
      | Some (s1, es) \<Rightarrow> map_option (\<lambda>(s2, fs). (s2, es @ fs)) (run s1 ys))"
proof (induction xs arbitrary: s)
  case Nil
  obtain s' es where "run s ys = Some (s', es)" using run_ok [OF Nil] by blast
  then show ?case by (simp add: run_Nil [OF Nil])
next
  case (Cons c xs)
  obtain s1 es where s1: "step s c = Some (s1, es)" "inv s1"
    using step_ok [OF Cons.prems] by blast
  obtain s2 fs where s2: "run s1 xs = Some (s2, fs)" "inv s2"
    using run_ok [OF s1(2)] by blast
  obtain s3 gs where "run s2 ys = Some (s3, gs)" using run_ok [OF s2(2)] by blast
  with s1 s2 Cons.IH [OF s1(2)] show ?case by (simp add: run_Cons [OF Cons.prems])
qed

lemma run_chunks_concat: "inv s \<Longrightarrow> run_chunks run s css = run s (concat css)"
proof (induction css arbitrary: s)
  case Nil
  then show ?case by (simp add: run_Nil)
next
  case (Cons cs css)
  obtain s1 es where "run s cs = Some (s1, es)" "inv s1"
    using run_ok [OF Cons.prems] by blast
  with Cons.IH [of s1] show ?case by (simp add: run_append [OF Cons.prems])
qed

text \<open>A quantity that every step accounts for is accounted for by a run.\<close>

lemma run_accounts:
  assumes step: "\<And>s c s' es. inv s \<Longrightarrow> step s c = Some (s', es) \<Longrightarrow>
      pend s @ [c] = concat (map src es) @ pend s'"
  shows "inv s \<Longrightarrow> run s cs = Some (s', es) \<Longrightarrow> pend s @ cs = concat (map src es) @ pend s'"
proof (induction cs arbitrary: s es)
  case Nil
  then show ?case by (simp add: run_Nil)
next
  case (Cons c cs)
  obtain s1 fs where s1: "step s c = Some (s1, fs)" "inv s1"
    using step_ok [OF Cons.prems(1)] by blast
  then obtain gs where gs: "run s1 cs = Some (s', gs)" "es = fs @ gs"
    using Cons.prems by (auto simp: run_Cons)
  have "pend s @ c # cs = (pend s @ [c]) @ cs" by simp
  then show ?case using step [OF Cons.prems(1) s1(1)] Cons.IH [OF s1(2) gs(1)] gs(2) by simp
qed

end

end
