(* ===== verification/Vt_Parser_Run.thy ===== *)
theory Vt_Parser_Run
  imports Vt_Parser_Inv Stream_Step
begin

text \<open>
  What a call of \<open>vt_parse\<close> promises, and the two loops that call it: the one over a whole range
  (\<open>vt_run\<close>: the usage in the header of \<open>libcorehost/vt_parser.hpp\<close> and the loop of
  \<open>write_console\<close> in \<open>libcorehost/api_handlers.hpp\<close>) and the one that feeds a character at a time
  (\<open>vt_feeds\<close>: \<open>pipe_bridge::process_input\<close>). Both produce the same events, so how the input is cut
  into chunks does not matter.
\<close>

section \<open>The contract of parse\<close>

definition parse_post :: "vt_parser \<Rightarrow> u32 \<Rightarrow> nat \<Rightarrow> vt_parser \<Rightarrow> vt_parse_result \<Rightarrow> bool" where
  "parse_post p cs i p' r \<longleftrightarrow>
     i \<le> res_consumed r \<and> res_consumed r \<le> i + length cs \<and> fields_inv p' \<and>
     (if res_id r = continue_msg
      then res_consumed r = i + length cs \<and> seq_inv p' \<and> p_raw p' = p_raw p @ cs
           \<and> res_raw_sequence r = []
      else i < res_consumed r \<and> p_mode p' = mode_ground
           \<and> res_raw_sequence r = p_raw p @ take (res_consumed r - i) cs)"

lemma make_result_frame [simp]:
  "res_id (make_result p d n) = d"
  "res_consumed (make_result p d n) = n"
  "res_raw_sequence (make_result p d n) = (if d = continue_msg then [] else raw_sequence p)"
  "res_message (make_result p d n) = (if d = continue_msg then vt_message_init else p_msg p)"
  by (simp_all add: make_result_def)

lemma seq_inv_fields: "seq_inv p \<Longrightarrow> fields_inv p"
  by (simp add: seq_inv_def)

lemma parse_loop_post:
  assumes "seq_inv p"
  shows "\<exists>p' r. parse_loop cs i p = Some (p', r) \<and> parse_post p cs i p' r"
  using assms
proof (induction cs arbitrary: i p)
  case Nil
  then show ?case by (simp add: parse_post_def seq_inv_fields)
next
  case (Cons c cs)
  obtain p1 d where step: "parse_sequence_char c p = Some (p1, d)"
    using parse_sequence_char_ok [OF Cons.prems] by blast
  show ?case
  proof (cases "d = continue_msg")
    case True
    have inv: "seq_inv p1" and raw: "p_raw p1 = p_raw p @ [c]"
      using seq_inv_step [OF Cons.prems] step True by auto
    obtain p' r where r: "parse_loop cs (i + 1) p1 = Some (p', r)"
      and post: "parse_post p1 cs (i + 1) p' r"
      using Cons.IH [OF inv] by blast
    have "parse_post p (c # cs) i p' r"
    proof (cases "res_id r = continue_msg")
      case True
      then show ?thesis using post raw by (simp add: parse_post_def)
    next
      case False
      then obtain n where "res_consumed r = Suc n" and "i < n"
        using post by (cases "res_consumed r") (simp_all add: parse_post_def)
      moreover then obtain m where "n - i = Suc m" by (metis Suc_diff_Suc)
      ultimately show ?thesis
        using post raw False by (simp add: parse_post_def Suc_diff_le)
    qed
    then show ?thesis using r step True by simp
  next
    case False
    note e = seq_end_step [OF Cons.prems step False]
    show ?thesis
      using step False e by (simp add: parse_post_def)
  qed
qed

lemma parse_ground_control_ok:
  assumes "ground_inv p" and "c \<le> 0x1F \<or> c = 0x7F"
  obtains p' d where "parse_ground_control c p = Some (p', d)"
    and "if d = continue_msg then seq_inv p' \<and> p_raw p' = [c]
         else p_mode p' = mode_ground \<and> fields_inv p' \<and> p_raw p' = []"
proof -
  have kind: "classify_ground_char c \<noteq> g_printable"
    using assms(2) by (auto simp: classify_ground_char_def)
  have "classify_ground_char c = g_esc \<longleftrightarrow> c = 0x1B"
    by (simp add: classify_ground_char_def)
  then show thesis
    using kind assms(1) that
    by (cases "classify_ground_char c")
      (simp_all add: parse_ground_control_def Let_def ground_inv_def seq_inv_def set_key_modifier_def)
qed

lemma text_run_length_Cons:
  "direct_ground_text_run_length (c # cs) =
     (if c \<le> 0x1F \<or> c = 0x7F then 0 else Suc (direct_ground_text_run_length cs))"
  by (simp add: direct_ground_text_run_length_def)

lemma text_run_length_le: "direct_ground_text_run_length cs \<le> length cs"
  by (simp add: direct_ground_text_run_length_def length_takeWhile_le)

lemma take_text_run:
  "take (direct_ground_text_run_length cs) cs = takeWhile (\<lambda>ch. \<not> (ch \<le> 0x1F \<or> ch = 0x7F)) cs"
  by (simp add: direct_ground_text_run_length_def)

text \<open>The three ways \<open>parse\<close> goes: a text run, one control character, a sequence.\<close>

lemma vt_parse_text:
  assumes "ground_inv p" and "direct_ground_text_run_length cs \<noteq> 0"
  shows "vt_parse p cs =
    (let run = direct_ground_text_run_length cs; p1 = set_payload (P_text (take run cs)) p
     in Some (p1, make_result p1 continue_text run))"
  using assms by (cases cs) (simp_all add: ground_inv_def direct_ground_text_run_length_def Let_def)

lemma vt_parse_control:
  assumes "ground_inv p" and "c \<le> 0x1F \<or> c = 0x7F"
  shows "vt_parse p (c # cs) =
    (case parse_ground_control c p of
       None \<Rightarrow> None
     | Some (p1, d) \<Rightarrow>
         if d \<noteq> continue_msg then Some (p1, make_result p1 d 1) else parse_loop cs 1 p1)"
  using assms by (simp add: ground_inv_def text_run_length_Cons)

lemma vt_parse_sequence:
  assumes "seq_inv p"
  shows "vt_parse p cs = parse_loop cs 0 p"
  using assms by (cases cs) (simp_all add: seq_inv_def)

declare vt_parse.simps [simp del]

lemma raw_sequence_ground [simp]: "ground_inv p \<Longrightarrow> raw_sequence p = []"
  by (simp add: raw_sequence_def ground_inv_def)

text \<open>
  The post-condition of \<open>parse\<close> on a non-empty input: some but not too many characters are
  consumed; without a message all are, and they are in the buffer; a message ends the sequence, and
  its raw text is everything since the ESC, or empty for what was read in ground state.
\<close>

definition vt_parse_post :: "vt_parser \<Rightarrow> u32 \<Rightarrow> vt_parser \<Rightarrow> vt_parse_result \<Rightarrow> bool" where
  "vt_parse_post p cs p' r \<longleftrightarrow>
     1 \<le> res_consumed r \<and> res_consumed r \<le> length cs \<and> fields_inv p' \<and>
     (if res_id r = continue_msg
      then res_consumed r = length cs \<and> seq_inv p' \<and> p_raw p' = p_raw p @ cs
      else p_mode p' = mode_ground \<and>
           (res_raw_sequence r = p_raw p @ take (res_consumed r) cs
            \<or> p_mode p = mode_ground \<and> res_raw_sequence r = []))"

lemma vt_parse_ok:
  assumes "parser_inv p" and "cs \<noteq> []"
  shows "\<exists>p' r. vt_parse p cs = Some (p', r) \<and> vt_parse_post p cs p' r"
proof (cases "p_mode p = mode_ground")
  case False
  then have "seq_inv p" using assms(1) by (simp add: parser_inv_def)
  with parse_loop_post [of p cs 0] assms(2) show ?thesis
    by (fastforce simp: vt_parse_sequence parse_post_def vt_parse_post_def Suc_le_eq
        split: if_splits)
next
  case ground: True
  then have inv: "ground_inv p" using assms(1) by (simp add: parser_inv_def)
  obtain c cs' where cs: "cs = c # cs'" using assms(2) by (cases cs) auto
  show ?thesis
  proof (cases "direct_ground_text_run_length cs = 0")
    case False
    then show ?thesis
      using inv text_run_length_le [of cs]
      by (simp add: vt_parse_text Let_def vt_parse_post_def ground_inv_def raw_sequence_def)
  next
    case True
    then have ctl: "c \<le> 0x1F \<or> c = 0x7F" by (simp add: cs text_run_length_Cons split: if_splits)
    obtain p1 d where step: "parse_ground_control c p = Some (p1, d)"
      and ok: "if d = continue_msg then seq_inv p1 \<and> p_raw p1 = [c]
               else p_mode p1 = mode_ground \<and> fields_inv p1 \<and> p_raw p1 = []"
      using parse_ground_control_ok [OF inv ctl] by blast
    show ?thesis
    proof (cases "d = continue_msg")
      case False
      then show ?thesis
        using vt_parse_control [OF inv ctl, of cs'] step ok ground
        by (simp add: cs vt_parse_post_def raw_sequence_def)
    next
      case True
      with ok have "seq_inv p1" and raw: "p_raw p1 = [c]" by simp_all
      then obtain p' r where "parse_loop cs' 1 p1 = Some (p', r)" and "parse_post p1 cs' 1 p' r"
        using parse_loop_post by blast
      then show ?thesis
        using vt_parse_control [OF inv ctl, of cs'] step True inv raw
        by (auto simp: cs vt_parse_post_def parse_post_def ground_inv_def take_Cons'
            split: if_splits)
    qed
  qed
qed

section \<open>The two loops over parse\<close>

text \<open>
  An event of a loop: a printable character, or a message with the characters it was made from
  (\<open>raw_sequence\<close>, or the control character itself when that is empty, as \<open>process_input\<close> takes it).
\<close>

datatype vt_event =
    E_char char32
  | E_msg vt_message_id u32 vt_message

definition result_events :: "u32 \<Rightarrow> vt_parse_result \<Rightarrow> vt_event list" where
  "result_events input r =
     (if res_id r = continue_msg then []
      else if res_id r = continue_text then map E_char (take (res_consumed r) input)
      else [E_msg (res_id r)
              (if res_raw_sequence r = [] then take (res_consumed r) input else res_raw_sequence r)
              (res_message r)])"

fun event_source :: "vt_event \<Rightarrow> u32" where
  "event_source (E_char c) = [c]"
| "event_source (E_msg _ s _) = s"

text \<open>
  The loop over a range: parse the rest of the input, skip what was consumed, consume the message and
  reset. \<open>None\<close> stands for \<open>std::unreachable()\<close> and for a call that consumes nothing, on which the loop
  would not end.
\<close>

function vt_run :: "vt_parser \<Rightarrow> u32 \<Rightarrow> (vt_parser \<times> vt_event list) option" where
  "vt_run p input =
     (if input = [] then Some (p, [])
      else case vt_parse p input of
             None \<Rightarrow> None
           | Some (p1, r) \<Rightarrow>
               if res_consumed r = 0 then None
               else map_option (\<lambda>(p2, es). (p2, result_events input r @ es))
                      (vt_run (if res_id r = continue_msg then p1 else vt_reset p1)
                         (drop (res_consumed r) input)))"
  by pat_completeness auto
termination
  by (relation "measure (\<lambda>(p, input). length input)") (auto simp: neq_Nil_conv)

declare vt_run.simps [simp del]

text \<open>The loop that parses one character at a time.\<close>

definition vt_feed :: "vt_parser \<Rightarrow> char32 \<Rightarrow> (vt_parser \<times> vt_event list) option" where
  "vt_feed p c =
     (case vt_parse p [c] of
        None \<Rightarrow> None
      | Some (p1, r) \<Rightarrow>
          Some (if res_id r = continue_msg then p1 else vt_reset p1, result_events [c] r))"

fun vt_feeds :: "vt_parser \<Rightarrow> u32 \<Rightarrow> (vt_parser \<times> vt_event list) option" where
  "vt_feeds p [] = Some (p, [])"
| "vt_feeds p (c # cs) =
     (case vt_feed p c of
        None \<Rightarrow> None
      | Some (p1, es) \<Rightarrow> map_option (\<lambda>(p2, fs). (p2, es @ fs)) (vt_feeds p1 cs))"

lemma parse_post_inv:
  assumes "vt_parse_post p cs p' r"
  shows "parser_inv (if res_id r = continue_msg then p' else vt_reset p')"
  using assms by (auto simp: vt_parse_post_def parser_inv_def seq_inv_def ground_inv_def vt_reset_def)

lemma vt_feed_ok: "parser_inv p \<Longrightarrow> \<exists>p' es. vt_feed p c = Some (p', es) \<and> parser_inv p'"
  using vt_parse_ok [of p "[c]"] parse_post_inv [of p "[c]"] by (fastforce simp: vt_feed_def)

interpretation vtf: stream_step vt_feed vt_feeds parser_inv
  by unfold_locales (simp_all add: vt_feed_ok [simplified])

text \<open>A printable character in ground state is an event of its own and leaves a reset parser.\<close>

lemma vt_feed_printable:
  assumes "ground_inv p" and "\<not> (c \<le> 0x1F \<or> c = 0x7F)"
  shows "vt_feed p c = Some (vt_reset p, [E_char c])"
proof -
  have "direct_ground_text_run_length [c] = 1"
    using assms(2) by (simp add: text_run_length_Cons) (simp add: direct_ground_text_run_length_def)
  then show ?thesis
    using assms(1)
    by (simp add: vt_feed_def vt_parse_text Let_def result_events_def vt_reset_def set_payload_def)
qed

lemma vt_reset_reset [simp]: "vt_reset (vt_reset p) = vt_reset p"
  by (simp add: vt_reset_def)

lemma ground_inv_reset [simp]: "ground_inv p \<Longrightarrow> ground_inv (vt_reset p)"
  by (simp add: ground_inv_def vt_reset_def) 

lemma vt_feeds_printable:
  assumes "ground_inv p" and "\<forall>c \<in> set cs. \<not> (c \<le> 0x1F \<or> c = 0x7F)" and "cs \<noteq> []"
  shows "vt_feeds p cs = Some (vt_reset p, map E_char cs)"
  using assms
proof (induction cs arbitrary: p)
  case (Cons c cs)
  then show ?case by (cases "cs = []") (simp_all add: vt_feed_printable)
qed simp

text \<open>No sequence is reported as a text run.\<close>

definition not_text :: "vt_message_id \<Rightarrow> bool" where
  "not_text i \<longleftrightarrow> i \<noteq> continue_text"

lemma not_text_if: "not_text a \<Longrightarrow> not_text b \<Longrightarrow> not_text (if c then a else b)"
  by simp

lemma not_text_snd_if:
  "not_text (snd a) \<Longrightarrow> not_text (snd b) \<Longrightarrow> not_text (snd (if c then a else b))"
  by simp

lemma not_text_pair: "not_text i \<Longrightarrow> not_text (snd (p, i))"
  by simp

lemma not_text_option:
  "not_text (snd a) \<Longrightarrow> (\<And>x. not_text (snd (f x))) \<Longrightarrow> not_text (snd (case_option a f o'))"
  by (cases o') simp_all

lemma not_text_prod: "(\<And>x y. not_text (snd (f x y))) \<Longrightarrow> not_text (snd (case_prod f xy))"
  by (cases xy) simp

lemma not_text_ids [simp]:
  "not_text continue_msg" "not_text unknown_sequence" "not_text set_window_title"
  "not_text osc8_hyperlink" "not_text reverse_index" "not_text sgr_msg"
  "not_text set_palette_color" "not_text (Cursor a)" "not_text (Mode b)" "not_text (Screen d)"
  "not_text (Query e)" "not_text (Key f)"
  by (simp_all add: not_text_def)

lemmas not_text_rules =
  not_text_if not_text_snd_if not_text_pair not_text_option not_text_prod not_text_ids

lemma dispatch_esc_not_text: "not_text (dispatch_esc c)"
  unfolding dispatch_esc_def by (intro not_text_rules)

lemma dispatch_ss3_not_text: "not_text (dispatch_ss3 c)"
  unfolding dispatch_ss3_def by (intro not_text_rules)

lemma dispatch_charset_not_text: "not_text (dispatch_charset c)"
  unfolding dispatch_charset_def by (intro not_text_rules)

lemma dispatch_osc_not_text: "not_text (snd (dispatch_osc p))"
  unfolding dispatch_osc_def dispatch_osc_palette_def Let_def by (intro not_text_rules)

lemma dec_private_not_text: "not_text (dec_private_set n)" "not_text (dec_private_reset n)"
  unfolding dec_private_set_def dec_private_reset_def by (intro not_text_rules)+

lemma tilde_key_not_text: "not_text (tilde_key n)"
  unfolding tilde_key_def by (intro not_text_rules)

lemma dispatch_csi_counted_not_text:
  "dispatch_csi_counted t = Some (i, b) \<Longrightarrow> not_text i"
  by (auto simp: dispatch_csi_counted_def split: if_splits)

lemma dispatch_csi_final_not_text: "not_text (snd (dispatch_csi_final t n p))"
proof (cases "dispatch_csi_counted t")
  case None
  show ?thesis
    unfolding dispatch_csi_final_def dispatch_csi_tail_def Let_def None option.case
    by (intro not_text_rules dec_private_not_text tilde_key_not_text)
next
  case (Some ib)
  then obtain i b where ib: "dispatch_csi_counted t = Some (i, b)" by (cases ib) auto
  show ?thesis
    using dispatch_csi_counted_not_text [OF ib]
    by (simp add: dispatch_csi_final_def Let_def ib)
qed

lemma dispatch_csi_not_text: "not_text (snd (dispatch_csi t p))"
  unfolding dispatch_csi_def Let_def
  by (intro not_text_snd_if not_text_pair not_text_ids dispatch_csi_final_not_text)

lemma finish_seq_not_text: "not_text (snd r) \<Longrightarrow> not_text (snd (finish_seq r))"
  by (cases r) (simp add: finish_seq_def)

lemma dispatch_csi_end_not_text:
  "not_text (snd (case dispatch_csi t p of (p1, i) \<Rightarrow> finish_seq (f p1, i)))"
  using dispatch_csi_not_text [of t p]
  by (cases "dispatch_csi t p") (simp add: finish_seq_not_text)

lemma dispatch_osc_end_not_text:
  "not_text (snd (case dispatch_osc p of (p1, i) \<Rightarrow> finish_seq (f p1, i)))"
  using dispatch_osc_not_text [of p] by (cases "dispatch_osc p") (simp add: finish_seq_not_text)

lemma parse_esc_not_text: "not_text (snd (parse_esc c p))"
  by (simp add: parse_esc_def Let_def finish_seq_not_text dispatch_esc_not_text
      dispatch_charset_not_text)

lemma parse_ss3_not_text: "not_text (snd (parse_ss3 c p))"
  by (simp add: parse_ss3_def finish_seq_not_text dispatch_ss3_not_text)

lemma parse_csi_not_text: "not_text (snd (parse_csi c p))"
  by (cases "classify_csi_char c")
    (simp_all add: parse_csi_def csi_abort_def dispatch_csi_end_not_text)

lemma parse_osc_not_text: "not_text (snd (parse_osc c p))"
  unfolding parse_osc_def by (intro not_text_rules dispatch_osc_end_not_text)

lemma parse_osc_st_not_text: "not_text (snd (parse_osc_st c p))"
  unfolding parse_osc_st_def by (intro not_text_snd_if dispatch_osc_end_not_text parse_esc_not_text)

lemma parse_sequence_char_not_text:
  assumes "parse_sequence_char c p = Some (p', d)"
  shows "d \<noteq> continue_text"
proof -
  have "not_text (snd (p', d))"
    using assms parse_esc_not_text parse_ss3_not_text parse_csi_not_text parse_osc_not_text
      parse_osc_st_not_text
    unfolding parse_sequence_char_def Let_def
    by (auto split: parser_mode.splits simp del: snd_conv) (metis)+
  then show ?thesis by (simp add: not_text_def)
qed

section \<open>The two loops agree\<close>

lemma vt_feed_seq:
  assumes "seq_inv p" and "parse_sequence_char c p = Some (p', d)"
  shows "vt_feed p c =
    Some (if d = continue_msg then (p', [])
          else (vt_reset p', [E_msg d (p_raw p @ [c]) (p_msg p')]))"
  using assms seq_end_step [OF assms] parse_sequence_char_not_text [OF assms(2)]
  by (simp add: vt_feed_def vt_parse_sequence result_events_def)

lemma parse_loop_feeds:
  assumes "seq_inv p" and "parse_loop cs i p = Some (p', r)"
  shows "if res_id r = continue_msg then vt_feeds p cs = Some (p', [])
     else vt_feeds p (take (res_consumed r - i) cs) =
            Some (vt_reset p', [E_msg (res_id r) (res_raw_sequence r) (res_message r)])
          \<and> res_id r \<noteq> continue_text"
  using assms
proof (induction cs arbitrary: i p)
  case Nil
  then show ?case by auto
next
  case (Cons c cs)
  obtain p1 d where step: "parse_sequence_char c p = Some (p1, d)"
    using parse_sequence_char_ok [OF Cons.prems(1)] by blast
  show ?case
  proof (cases "d = continue_msg")
    case False
    then show ?thesis
      using Cons.prems step seq_end_step [OF Cons.prems(1) step False]
        parse_sequence_char_not_text [OF step]
      by (auto simp: vt_feed_seq [OF Cons.prems(1) step])
  next
    case True
    have inv: "seq_inv p1" using seq_inv_step [OF Cons.prems(1)] step True by simp
    have loop: "parse_loop cs (i + 1) p1 = Some (p', r)" using Cons.prems(2) step True by simp
    have post: "parse_post p1 cs (i + 1) p' r" using parse_loop_post [OF inv, of cs "i + 1"] loop by auto
    show ?thesis
      using Cons.IH [OF inv loop] vt_feed_seq [OF Cons.prems(1) step] True post
      by (auto simp: parse_post_def take_Cons' split: if_splits)
  qed
qed

lemma parse_ground_control_not_text:
  assumes "parse_ground_control c p = Some (p', d)"
  shows "d \<noteq> continue_text"
  using assms
  by (cases "classify_ground_char c")
    (auto simp: parse_ground_control_def Let_def)

lemma vt_parse_feeds:
  assumes inv: "parser_inv p" and ne: "cs \<noteq> []" and r: "vt_parse p cs = Some (p', r)"
  shows "vt_feeds p (take (res_consumed r) cs) =
    Some (if res_id r = continue_msg then p' else vt_reset p', result_events cs r)"
proof (cases "p_mode p = mode_ground")
  case False
  then have seq: "seq_inv p" using inv by (simp add: parser_inv_def)
  then obtain p'' r'' where "parse_loop cs 0 p = Some (p'', r'')" "parse_post p cs 0 p'' r''"
    using parse_loop_post by blast
  then have loop: "parse_loop cs 0 p = Some (p', r)" and post: "parse_post p cs 0 p' r"
    using r by (simp_all add: vt_parse_sequence [OF seq])
  have "p_raw p \<noteq> []" using seq by (simp add: seq_inv_def)
  then show ?thesis
    using parse_loop_feeds [OF seq loop] post
    by (auto simp: result_events_def parse_post_def split: if_splits)
next
  case ground: True
  then have g: "ground_inv p" using inv by (simp add: parser_inv_def)
  obtain c cs' where cs: "cs = c # cs'" using ne by (cases cs) auto
  show ?thesis
  proof (cases "direct_ground_text_run_length cs = 0")
    case False
    let ?run = "takeWhile (\<lambda>ch. \<not> (ch \<le> 0x1F \<or> ch = 0x7F)) cs"
    have "?run \<noteq> []" using False by (simp add: direct_ground_text_run_length_def)
    moreover have "\<forall>c \<in> set ?run. \<not> (c \<le> 0x1F \<or> c = 0x7F)" by (blast dest: set_takeWhileD)
    ultimately have "vt_feeds p ?run = Some (vt_reset p, map E_char ?run)"
      by (intro vt_feeds_printable [OF g])
    moreover have "p' = set_payload (P_text ?run) p" "r = make_result p' continue_text (length ?run)"
      using r False
      by (auto simp: vt_parse_text [OF g] Let_def direct_ground_text_run_length_def)
    ultimately show ?thesis
      by (simp add: result_events_def vt_reset_def set_payload_def)
  next
    case True
    then have ctl: "c \<le> 0x1F \<or> c = 0x7F" by (simp add: cs text_run_length_Cons split: if_splits)
    obtain p1 d where step: "parse_ground_control c p = Some (p1, d)"
      and ok: "if d = continue_msg then seq_inv p1 \<and> p_raw p1 = [c]
               else p_mode p1 = mode_ground \<and> fields_inv p1 \<and> p_raw p1 = []"
      using parse_ground_control_ok [OF g ctl] by blast
    note control = vt_parse_control [OF g ctl]
    show ?thesis
    proof (cases "d = continue_msg")
      case False
      then show ?thesis
        using r step parse_ground_control_not_text [OF step]
        by (auto simp: cs control vt_feed_def result_events_def)
    next
      case d: True
      with ok have seq: "seq_inv p1" and raw: "p_raw p1 = [c]" by simp_all
      have loop: "parse_loop cs' 1 p1 = Some (p', r)" using r step d by (simp add: cs control)
      have post: "parse_post p1 cs' 1 p' r" using parse_loop_post [OF seq, of cs' 1] loop by auto
      have feed: "vt_feed p c = Some (p1, [])"
        using step d by (simp add: vt_feed_def control result_events_def)
      have take: "take (res_consumed r) cs = c # take (res_consumed r - 1) cs'"
        using post by (simp add: cs take_Cons' parse_post_def split: if_splits)
      show ?thesis
        using parse_loop_feeds [OF seq loop] feed post raw
        by (auto simp: take result_events_def parse_post_def split: if_splits)
    qed
  qed
qed

lemma vt_run_eq_feeds: "parser_inv p \<Longrightarrow> vt_run p input = vt_feeds p input"
proof (induction p input rule: vt_run.induct)
  case (1 p input)
  show ?case
  proof (cases "input = []")
    case True
    then show ?thesis by (simp add: vt_run.simps)
  next
    case False
    obtain p1 r where r: "vt_parse p input = Some (p1, r)" and post: "vt_parse_post p input p1 r"
      using vt_parse_ok [OF "1.prems" False] by blast
    let ?q = "if res_id r = continue_msg then p1 else vt_reset p1"
    have consumed: "res_consumed r \<noteq> 0" using post by (auto simp: vt_parse_post_def)
    have inv: "parser_inv ?q" by (rule parse_post_inv [OF post])
    have "vt_run p input =
        map_option (\<lambda>(p2, es). (p2, result_events input r @ es)) (vt_run ?q (drop (res_consumed r) input))"
      using False r consumed by (simp add: vt_run.simps [of p input])
    also have "vt_run ?q (drop (res_consumed r) input) = vt_feeds ?q (drop (res_consumed r) input)"
      using "1.IH" [OF False r refl consumed inv] .
    also have "map_option (\<lambda>(p2, es). (p2, result_events input r @ es)) \<dots> =
        vt_feeds p (take (res_consumed r) input @ drop (res_consumed r) input)"
      using vt_parse_feeds [OF "1.prems" False r]
      by (simp only: vtf.run_append [OF "1.prems"]) simp
    finally show ?thesis by simp
  qed
qed

lemma vt_feed_accounts:
  assumes "parser_inv p" and "vt_feed p c = Some (p', es)"
  shows "p_raw p @ [c] = concat (map event_source es) @ p_raw p'"
proof -
  obtain p1 r where r: "vt_parse p [c] = Some (p1, r)" and post: "vt_parse_post p [c] p1 r"
    using vt_parse_ok [OF assms(1), of "[c]"] by blast
  have "p_mode p = mode_ground \<longrightarrow> p_raw p = []"
    using assms(1) by (auto simp: parser_inv_def ground_inv_def)
  moreover have "p_mode p \<noteq> mode_ground \<Longrightarrow> res_id r \<noteq> continue_text"
    using vt_parse_feeds [OF assms(1) _ r] assms(1) parse_loop_feeds [of p "[c]" 0 p1 r] r
    by (auto simp: parser_inv_def vt_parse_sequence split: if_splits)
  ultimately show ?thesis
    using assms(2) r post
    by (auto simp: vt_feed_def vt_parse_post_def result_events_def vt_reset_def take_Cons'
        split: if_splits)
qed

end
