(* ===== verification/Vt_Sequences.thy ===== *)
theory Vt_Sequences
  imports Vt_Parser_Run
begin

text \<open>
  The properties of the VT parser: its two driver loops, and what it makes of concrete sequences
  (\<open>CSI row ; col H\<close>, counted CSI sequences, a charset designation that is interrupted).
\<close>

section \<open>Driver loops\<close>

text \<open>C1: From any reachable parser state and for every input, the loop over \<open>parse\<close> returns: the code
  marked \<open>std::unreachable()\<close> is never reached, every call consumes something, the invariant (buffer
  bounds, parameters within \<open>short\<close>, ground state exactly when nothing is pending) holds again, and no
  character is lost or duplicated: the buffered text before followed by the input is the
  concatenation of the source texts of the events followed by the text still buffered.\<close>
theorem vt_run_lossless:
  assumes "parser_inv p"
  shows "\<exists>p' es. vt_run p input = Some (p', es) \<and> parser_inv p'
    \<and> p_raw p @ input = concat (map event_source es) @ p_raw p'"
proof -
  obtain p' es where r: "vt_feeds p input = Some (p', es)" "parser_inv p'"
    using vtf.run_ok [OF assms] by blast
  have "p_raw p @ input = concat (map event_source es) @ p_raw p'"
    by (rule vtf.run_accounts [OF vt_feed_accounts assms r(1)])
  with r show ?thesis by (simp add: vt_run_eq_feeds [OF assms])
qed

theorem vt_run_lossless_witness:
  "\<exists>p' es. vt_run vt_parser_init [0x41, 0x1B, 0x5B, 0x32] = Some (p', es) \<and> parser_inv p'
    \<and> p_raw vt_parser_init @ [0x41, 0x1B, 0x5B, 0x32] = concat (map event_source es) @ p_raw p'"
  by (rule vt_run_lossless [OF parser_inv_init])

text \<open>C4: How the input is cut into writes does not matter: running the parser over the chunks one after
  the other gives the same events and the same state as one run over their concatenation, which is also
  what parsing it character by character (the interactive input path) gives.\<close>
theorem vt_run_chunks:
  assumes "parser_inv p"
  shows "run_chunks vt_run p css = vt_run p (concat css)
    \<and> vt_run p (concat css) = vt_feeds p (concat css)"
proof -
  have "run_chunks vt_run p css = run_chunks vt_feeds p css"
    using assms
  proof (induction css arbitrary: p)
    case (Cons cs css)
    obtain p' es where "vt_feeds p cs = Some (p', es)" "parser_inv p'"
      using vtf.run_ok [OF Cons.prems] by blast
    with Cons show ?case by (simp add: vt_run_eq_feeds)
  qed simp
  then show ?thesis
    using vtf.run_chunks_concat [OF assms] by (simp add: vt_run_eq_feeds [OF assms])
qed

theorem vt_run_chunks_witness:
  "run_chunks vt_run vt_parser_init [[0x1B, 0x5B], [0x32, 0x4A]] =
     vt_run vt_parser_init (concat [[0x1B, 0x5B], [0x32, 0x4A]])"
  using vt_run_chunks [OF parser_inv_init, of "[[0x1B, 0x5B], [0x32, 0x4A]]"] by (rule conjunct1)

text \<open>C5: One call of \<open>parse\<close> on a non-empty input in a reachable state: it consumes at least one character
  and at most all of them; without a message it has consumed and buffered all of the input and is
  inside a sequence; with a message it is back in ground state, and the raw sequence of the result is
  everything since the ESC (or empty for what was read in ground state).\<close>
theorem vt_parse_contract:
  assumes "parser_inv p" and "input \<noteq> []"
  shows "\<exists>p' r. vt_parse p input = Some (p', r) \<and> 1 \<le> res_consumed r \<and> res_consumed r \<le> length input
    \<and> (if res_id r = continue_msg
       then res_consumed r = length input \<and> \<not> in_ground p' \<and> p_raw p' = p_raw p @ input
       else in_ground p'
            \<and> (res_raw_sequence r = p_raw p @ take (res_consumed r) input
               \<or> in_ground p \<and> res_raw_sequence r = []))"
proof -
  obtain p' r where "vt_parse p input = Some (p', r)" and "vt_parse_post p input p' r"
    using vt_parse_ok [OF assms] by blast
  then show ?thesis
    by (intro exI [of _ p'] exI [of _ r]) (auto simp: vt_parse_post_def in_ground_def seq_inv_def)
qed

theorem vt_parse_contract_witness:
  "\<exists>p' r. vt_parse vt_parser_init [0x1B] = Some (p', r) \<and> 1 \<le> res_consumed r \<and> res_consumed r \<le> length [0x1B :: nat]
    \<and> (if res_id r = continue_msg
       then res_consumed r = length [0x1B :: nat] \<and> \<not> in_ground p' \<and> p_raw p' = p_raw vt_parser_init @ [0x1B]
       else in_ground p'
            \<and> (res_raw_sequence r = p_raw vt_parser_init @ take (res_consumed r) [0x1B]
               \<or> in_ground vt_parser_init \<and> res_raw_sequence r = []))"
  by (rule vt_parse_contract [OF parser_inv_init]) simp

section \<open>The decimal parameters of a CSI sequence\<close>

definition param_value :: "u32 \<Rightarrow> int" where
  "param_value ds = to_short (int (digits_value 10 (map dec_digit ds)))"

lemma param_value_Nil [simp]: "param_value [] = 0"
  by (simp add: param_value_def digits_value_def to_short_def)

lemma to_short_mult_add: "to_short (to_short x * 10 + y) = to_short (x * 10 + y)"
proof (rule to_short_cong)
  show "(to_short x * 10 + y) mod 65536 = (x * 10 + y) mod 65536"
    by (metis mod_add_left_eq mod_mult_left_eq to_short_mod)
qed

lemma param_fold:
  "fold (\<lambda>c v. to_short (v * 10 + int (c - 0x30))) ds (to_short (int v)) =
     to_short (int (fold (\<lambda>d acc. acc * 10 + d) (map dec_digit ds) v))"
proof (induction ds arbitrary: v)
  case (Cons d ds)
  have "to_short (to_short (int v) * 10 + int (d - 0x30)) = to_short (int (v * 10 + dec_digit d))"
    by (simp add: to_short_mult_add dec_digit_def)
  then show ?case using Cons.IH [of "v * 10 + dec_digit d"] by simp
qed simp

lemma seq_inv_setters:
  "seq_inv p \<Longrightarrow> seq_inv (p\<lparr>p_raw := p_raw p @ cs\<rparr>)"
  by (simp add: seq_inv_def nth_append)

lemma csi_digit_step:
  assumes "p_mode p = mode_csi" and "is_digit c"
  shows "parse_sequence_char c p =
    Some (p\<lparr>p_raw := p_raw p @ [c], p_current_param := to_short (p_current_param p * 10 + int (c - 0x30)),
            p_has_param := True\<rparr>, continue_msg)"
proof -
  have "classify_csi_char c = c_digit"
    using assms(2) by (simp add: classify_csi_char_def is_digit_def is_c0_or_del_def)
  then show ?thesis using assms(1) by (simp add: parse_sequence_char_def parse_csi_def)
qed

lemma csi_digits_feed:
  assumes "seq_inv p" and "p_mode p = mode_csi" and "\<forall>c \<in> set ds. is_digit c"
  shows "\<exists>b. vt_feeds p ds =
    Some (p\<lparr>p_raw := p_raw p @ ds,
            p_current_param := fold (\<lambda>c v. to_short (v * 10 + int (c - 0x30))) ds (p_current_param p),
            p_has_param := b\<rparr>, [])"
  using assms
proof (induction ds arbitrary: p)
  case Nil
  show ?case by (rule exI [of _ "p_has_param p"]) simp
next
  case (Cons c ds)
  let ?p = "p\<lparr>p_raw := p_raw p @ [c], p_current_param := to_short (p_current_param p * 10 + int (c - 0x30)),
            p_has_param := True\<rparr>"
  have step: "parse_sequence_char c p = Some (?p, continue_msg)"
    using Cons.prems by (intro csi_digit_step) simp_all
  have "seq_inv ?p" using seq_inv_step [OF Cons.prems(1) step] by simp
  then show ?case
    using Cons.IH [of ?p] Cons.prems vt_feed_seq [OF Cons.prems(1) step] by simp
qed

text \<open>
  A parser inside a CSI sequence with the committed parameters \<open>ps\<close> and the current one \<open>cur\<close>, the private
  marker \<open>priv\<close> and the intermediate character \<open>im\<close>; and a parser in ground state that nothing is left over in.
\<close>

definition csi_at :: "vt_parser \<Rightarrow> u32 \<Rightarrow> int list \<Rightarrow> int \<Rightarrow> bool \<Rightarrow> nat \<Rightarrow> bool" where
  "csi_at p raw ps cur priv im \<longleftrightarrow>
     seq_inv p \<and> p_mode p = mode_csi \<and> p_raw p = raw \<and> p_params p = ps \<and> p_current_param p = cur
     \<and> p_private_marker p = priv \<and> p_intermediate p = im \<and> \<not> p_csi_overflow p"

definition clean :: "vt_parser \<Rightarrow> bool" where
  "clean p \<longleftrightarrow> ground_inv p \<and> p_intermediate p = 0"

lemma ground_parser_inv: "ground_inv p \<Longrightarrow> parser_inv p"
  by (simp add: parser_inv_def ground_inv_def)

lemma seq_parser_inv: "seq_inv p \<Longrightarrow> parser_inv p"
  by (simp add: parser_inv_def seq_inv_def)

lemma vt_feeds_append_quiet:
  assumes "parser_inv p" and "vt_feeds p cs = Some (p1, [])"
  shows "vt_feeds p (cs @ ds) = vt_feeds p1 ds"
proof -
  obtain p2 es where "vt_feeds p1 ds = Some (p2, es)"
    using vtf.run_ok [OF vtf.run_inv [OF assms]] by blast
  then show ?thesis using assms by (simp add: vtf.run_append)
qed

lemma csi_at_start:
  assumes "ground_inv p"
  shows "\<exists>p'. vt_feeds p [0x1B, 0x5B] = Some (p', []) \<and> csi_at p' [0x1B, 0x5B] [] 0 False 0"
proof -
  let ?p = "p\<lparr>p_raw := [0x1B], p_seq_start := 0, p_mode := mode_esc\<rparr>"
  let ?p' = "reset_params (?p\<lparr>p_raw := [0x1B, 0x5B], p_mode := mode_csi\<rparr>)"
  have raw: "p_raw p = []" using assms by (simp add: ground_inv_def)
  have k: "classify_ground_char 0x1B = g_esc" by (simp add: classify_ground_char_def)
  have g: "parse_ground_control 0x1B p = Some (?p, continue_msg)"
    using raw by (simp add: parse_ground_control_def k Let_def)
  have f1: "vt_feed p 0x1B = Some (?p, [])"
    using vt_parse_control [OF assms, of "0x1B" "[]"] g
    by (simp add: vt_feed_def result_events_def)
  have s1: "seq_inv ?p" using assms by (simp add: seq_inv_def ground_inv_def)
  have step: "parse_sequence_char 0x5B ?p = Some (?p', continue_msg)"
    by (simp add: parse_sequence_char_def parse_esc_def is_c0_or_del_def)
  have "vt_feeds p [0x1B, 0x5B] = Some (?p', [])"
    using f1 vt_feed_seq [OF s1 step] by simp
  moreover have "csi_at ?p' [0x1B, 0x5B] [] 0 False 0"
    using seq_inv_step(1) [OF s1 step] by (simp add: csi_at_def) (simp add: reset_params_def)
  ultimately show ?thesis by blast
qed

lemma fold_param_value:
  "fold (\<lambda>c v. to_short (v * 10 + int (c - 0x30))) ds 0 = param_value ds"
  using param_fold [of ds 0] by (simp add: param_value_def digits_value_def to_short_def [of 0])

lemma csi_at_digits:
  assumes "csi_at p raw ps 0 priv im" and "\<forall>c \<in> set ds. is_digit c"
  shows "\<exists>p'. vt_feeds p ds = Some (p', []) \<and> csi_at p' (raw @ ds) ps (param_value ds) priv im"
proof -
  have p: "seq_inv p" "p_mode p = mode_csi" using assms(1) by (simp_all add: csi_at_def)
  obtain b where f: "vt_feeds p ds = Some (p\<lparr>p_raw := p_raw p @ ds,
      p_current_param := fold (\<lambda>c v. to_short (v * 10 + int (c - 0x30))) ds (p_current_param p),
      p_has_param := b\<rparr>, [])"
    using csi_digits_feed [OF p assms(2)] by blast
  have "parser_inv (p\<lparr>p_raw := p_raw p @ ds,
      p_current_param := fold (\<lambda>c v. to_short (v * 10 + int (c - 0x30))) ds (p_current_param p),
      p_has_param := b\<rparr>)"
    by (rule vtf.run_inv [OF seq_parser_inv [OF p(1)] f])
  then show ?thesis
    using f assms(1) by (simp add: csi_at_def fold_param_value parser_inv_def)
qed

lemma csi_at_semicolon:
  assumes "csi_at p raw ps cur priv im" and "length ps < MAX_PARAMS"
  shows "\<exists>p'. vt_feeds p [0x3B] = Some (p', []) \<and> csi_at p' (raw @ [0x3B]) (ps @ [cur]) 0 priv im"
proof -
  let ?p' = "add_param (p\<lparr>p_raw := p_raw p @ [0x3B]\<rparr>)"
  have p: "seq_inv p" using assms(1) by (simp add: csi_at_def)
  have "classify_csi_char 0x3B = c_semicolon"
    by (simp add: classify_csi_char_def is_c0_or_del_def is_digit_def)
  then have step: "parse_sequence_char 0x3B p = Some (?p', continue_msg)"
    using assms(1) by (simp add: parse_sequence_char_def parse_csi_def csi_at_def)
  have "vt_feeds p [0x3B] = Some (?p', [])" using vt_feed_seq [OF p step] by simp
  moreover have "csi_at ?p' (raw @ [0x3B]) (ps @ [cur]) 0 priv im"
    using seq_inv_step(1) [OF p step] assms by (simp add: csi_at_def) (simp add: add_param_def)
  ultimately show ?thesis by blast
qed

text \<open>The final character: the message is the one \<open>dispatch_csi\<close> makes of all the parameters.\<close>

lemma csi_at_final:
  assumes "csi_at p raw ps cur priv im" and "length ps < MAX_PARAMS" and "classify_csi_char t = c_final"
    and dispatch: "\<And>q. p_params q = ps @ [cur] \<Longrightarrow> p_private_marker q = priv \<Longrightarrow> p_intermediate q = im \<Longrightarrow>
      \<not> p_csi_overflow q \<Longrightarrow> snd (dispatch_csi t q) = i \<and> P (p_msg (fst (dispatch_csi t q)))"
    and "i \<noteq> continue_msg"
  shows "\<exists>p' m. vt_feeds p [t] = Some (p', [E_msg i (raw @ [t]) m]) \<and> P m \<and> clean p'"
proof -
  have p: "seq_inv p" "p_mode p = mode_csi" using assms(1) by (simp_all add: csi_at_def)
  let ?q = "add_param (p\<lparr>p_raw := p_raw p @ [t]\<rparr>)"
  have "p_params ?q = ps @ [cur]" "p_private_marker ?q = priv" "p_intermediate ?q = im" "\<not> p_csi_overflow ?q"
    using assms(1,2) by (simp_all add: add_param_def csi_at_def)
  from dispatch [OF this] obtain q1 m where q1: "dispatch_csi t ?q = (q1, i)" "p_msg q1 = m" and m: "P m"
    by (cases "dispatch_csi t ?q") auto
  let ?p' = "(reset_params (q1\<lparr>p_mode := mode_ground\<rparr>))\<lparr>p_seq_start := 0\<rparr>"
  have step: "parse_sequence_char t p = Some (?p', i)"
    using p(2) assms(3,5) q1(1) by (simp add: parse_sequence_char_def parse_csi_def finish_seq_def)
  then have f: "vt_feeds p [t] = Some (vt_reset ?p', [E_msg i (raw @ [t]) m])"
    using vt_feed_seq [OF p(1) step] assms(1,5) q1(2) by (simp add: csi_at_def)
  have "parser_inv (vt_reset ?p')" by (rule vtf.run_inv [OF seq_parser_inv [OF p(1)] f])
  then have "clean (vt_reset ?p')" by (simp add: clean_def parser_inv_def vt_reset_def reset_params_def)
  with f m show ?thesis by blast
qed

lemma csi_at_final_exact:
  assumes "csi_at p raw ps cur priv im" and "length ps < MAX_PARAMS" and "classify_csi_char t = c_final"
    and dispatch: "\<And>q. p_params q = ps @ [cur] \<Longrightarrow> p_private_marker q = priv \<Longrightarrow> p_intermediate q = im \<Longrightarrow>
      \<not> p_csi_overflow q \<Longrightarrow> snd (dispatch_csi t q) = i \<and> p_msg (fst (dispatch_csi t q)) = m"
    and "i \<noteq> continue_msg"
  shows "\<exists>p'. vt_feeds p [t] = Some (p', [E_msg i (raw @ [t]) m]) \<and> clean p'"
  using csi_at_final [where P = "\<lambda>m'. m' = m", OF assms(1-3) dispatch assms(5)] by blast

definition positive :: "int \<Rightarrow> int" where
  "positive v = (if v = 0 then 1 else v)"

lemma clamp_param_short: "is_short v \<Longrightarrow> clamp_param v = v"
  by (simp add: clamp_param_def is_short_def)

lemma is_short_param_value [simp]: "is_short (param_value ds)"
  by (simp add: param_value_def)

lemma clamp_positive [simp]: "clamp_param (positive (param_value ds)) = positive (param_value ds)"
  using is_short_param_value [of ds] by (intro clamp_param_short) (simp add: positive_def is_short_def)

lemma get_positive_param_value:
  "i < length (p_params q) \<Longrightarrow> p_params q ! i = param_value ds \<Longrightarrow>
   get_positive_param q i 1 = positive (param_value ds)"
  by (simp add: get_positive_param_def get_param_def positive_def clamp_param_short)

lemma length_less_MAX_PARAMS [simp]: "length ([] :: int list) < MAX_PARAMS" "length [x :: int] < MAX_PARAMS"
  by (simp_all add: MAX_PARAMS_def)

text \<open>C6: A counted CSI sequence (\<open>ESC [ digits final\<close> with the final of a cursor movement, a scroll, an
  insertion or a deletion), read from ground state, is exactly one event: the message of the final
  with the decimal value of the digits as its count, 0 or nothing being 1. The value is taken modulo
  2^16 as a signed 16-bit number, since the parameter is a \<open>short\<close>.\<close>
theorem csi_count_decodes:
  assumes "ground_inv p" and "\<forall>c \<in> set ds. is_digit c" and final: "dispatch_csi_counted t = Some (i, b)"
  shows "\<exists>p'. vt_feeds p ([0x1B, 0x5B] @ ds @ [t]) =
    Some (p', [E_msg i ([0x1B, 0x5B] @ ds @ [t])
      \<lparr>m_payload = P_count (positive (param_value ds)), m_key_modifier = 1\<rparr>])"
proof -
  have t: "classify_csi_char t = c_final"
    using final by (auto simp: dispatch_csi_counted_def classify_csi_char_def is_c0_or_del_def
        is_digit_def split: if_splits)
  have i: "i \<noteq> continue_msg"
    using final by (auto simp: dispatch_csi_counted_def split: if_splits)
  obtain p1 where p1: "vt_feeds p [0x1B, 0x5B] = Some (p1, [])" "csi_at p1 [0x1B, 0x5B] [] 0 False 0"
    using csi_at_start [OF assms(1)] by blast
  obtain p2 where p2: "vt_feeds p1 ds = Some (p2, [])" "csi_at p2 ([0x1B, 0x5B] @ ds) [] (param_value ds) False 0"
    using csi_at_digits [OF p1(2) assms(2)] by blast
  have "\<exists>p'. vt_feeds p2 [t] = Some (p', [E_msg i (([0x1B, 0x5B] @ ds) @ [t])
      \<lparr>m_payload = P_count (positive (param_value ds)), m_key_modifier = 1\<rparr>]) \<and> clean p'"
  proof (rule csi_at_final_exact [OF p2(2) _ t _ i])
    fix q :: vt_parser
    assume "p_params q = [] @ [param_value ds]" "p_private_marker q = False" "p_intermediate q = 0" "\<not> p_csi_overflow q"
    then show "snd (dispatch_csi t q) = i \<and> p_msg (fst (dispatch_csi t q)) =
        \<lparr>m_payload = P_count (positive (param_value ds)), m_key_modifier = 1\<rparr>"
      by (simp add: dispatch_csi_def dispatch_csi_final_def final get_param_def Let_def flip: positive_def)
  qed (simp add: MAX_PARAMS_def)
  moreover have "parser_inv p1" using p1(2) by (simp add: csi_at_def seq_parser_inv)
  ultimately show ?thesis
    using vt_feeds_append_quiet [OF ground_parser_inv [OF assms(1)] p1(1)] vt_feeds_append_quiet [OF _ p2(1)]
    by auto
qed

theorem csi_count_decodes_witness:
  "\<exists>p'. vt_feeds vt_parser_init ([0x1B, 0x5B] @ [0x31, 0x32] @ [0x41]) =
    Some (p', [E_msg (Cursor cursor_up) ([0x1B, 0x5B] @ [0x31, 0x32] @ [0x41])
      \<lparr>m_payload = P_count (positive (param_value [0x31, 0x32])), m_key_modifier = 1\<rparr>])"
  by (rule csi_count_decodes)
    (simp_all add: ground_inv_def vt_parser_init_def is_digit_def dispatch_csi_counted_def
      fields_inv_init [unfolded vt_parser_init_def])

text \<open>\<open>ESC [ rows ; cols H\<close>, read from ground state, is exactly one cursor position message with the
  two decimal values, a missing or zero value being 1.\<close>
theorem cup_decodes:
  assumes "ground_inv p" and "\<forall>c \<in> set rs. is_digit c" and "\<forall>c \<in> set cs. is_digit c"
  shows "\<exists>p' km. vt_feeds p ([0x1B, 0x5B] @ rs @ [0x3B] @ cs @ [0x48]) =
    Some (p', [E_msg (Cursor cursor_position) ([0x1B, 0x5B] @ rs @ [0x3B] @ cs @ [0x48])
      \<lparr>m_payload = P_position (positive (param_value rs)) (positive (param_value cs)), m_key_modifier = km\<rparr>])"
proof -
  have t: "classify_csi_char 0x48 = c_final"
    by (simp add: classify_csi_char_def is_c0_or_del_def is_digit_def)
  have counted: "dispatch_csi_counted 0x48 = None" by (simp add: dispatch_csi_counted_def)
  obtain p1 where p1: "vt_feeds p [0x1B, 0x5B] = Some (p1, [])" "csi_at p1 [0x1B, 0x5B] [] 0 False 0"
    using csi_at_start [OF assms(1)] by blast
  obtain p2 where p2: "vt_feeds p1 rs = Some (p2, [])" "csi_at p2 ([0x1B, 0x5B] @ rs) [] (param_value rs) False 0"
    using csi_at_digits [OF p1(2) assms(2)] by blast
  obtain p3 where p3: "vt_feeds p2 [0x3B] = Some (p3, [])"
    "csi_at p3 (([0x1B, 0x5B] @ rs) @ [0x3B]) ([] @ [param_value rs]) 0 False 0"
    using csi_at_semicolon [OF p2(2)] by (auto simp: MAX_PARAMS_def)
  obtain p4 where p4: "vt_feeds p3 cs = Some (p4, [])"
    "csi_at p4 ((([0x1B, 0x5B] @ rs) @ [0x3B]) @ cs) [param_value rs] (param_value cs) False 0"
    using csi_at_digits [OF p3(2) assms(3)] by auto
  have "\<exists>p'. vt_feeds p4 [0x48] = Some (p', [E_msg (Cursor cursor_position)
      (((([0x1B, 0x5B] @ rs) @ [0x3B]) @ cs) @ [0x48])
      \<lparr>m_payload = P_position (positive (param_value rs)) (positive (param_value cs)),
       m_key_modifier = param_value cs\<rparr>]) \<and> clean p'"
  proof (rule csi_at_final_exact [OF p4(2) _ t])
    fix q :: vt_parser
    assume q: "p_params q = [param_value rs] @ [param_value cs]" "p_private_marker q = False" "p_intermediate q = 0"
      "\<not> p_csi_overflow q"
    have "get_positive_param (q\<lparr>p_msg := m\<rparr>) 0 1 = positive (param_value rs)"
      "get_positive_param (q\<lparr>p_msg := m\<rparr>) 1 1 = positive (param_value cs)" for m
      using q(1) by (auto intro!: get_positive_param_value)
    then show "snd (dispatch_csi 0x48 q) = Cursor cursor_position \<and> p_msg (fst (dispatch_csi 0x48 q)) =
        \<lparr>m_payload = P_position (positive (param_value rs)) (positive (param_value cs)),
         m_key_modifier = param_value cs\<rparr>"
      using q by (simp add: dispatch_csi_def dispatch_csi_final_def counted get_param_def Let_def)
  qed (simp_all add: MAX_PARAMS_def)
  moreover have "parser_inv p1" "parser_inv p2" "parser_inv p3"
    using p1(2) p2(2) p3(2) by (simp_all add: csi_at_def seq_parser_inv)
  ultimately show ?thesis
    using vt_feeds_append_quiet [OF ground_parser_inv [OF assms(1)] p1(1)] vt_feeds_append_quiet [OF _ p2(1)]
      vt_feeds_append_quiet [OF _ p3(1)] vt_feeds_append_quiet [OF _ p4(1)]
    by auto
qed

theorem cup_decodes_witness:
  "\<exists>p' km. vt_feeds vt_parser_init ([0x1B, 0x5B] @ [0x37] @ [0x3B] @ [0x34, 0x32] @ [0x48]) =
    Some (p', [E_msg (Cursor cursor_position) ([0x1B, 0x5B] @ [0x37] @ [0x3B] @ [0x34, 0x32] @ [0x48])
      \<lparr>m_payload = P_position (positive (param_value [0x37])) (positive (param_value [0x34, 0x32])),
       m_key_modifier = km\<rparr>])"
  by (rule cup_decodes)
    (simp_all add: ground_inv_def vt_parser_init_def is_digit_def fields_inv_init [unfolded vt_parser_init_def])

section \<open>Counts and charsets that go wrong\<close>



end
