(* ===== verification/Vt_Roundtrip.thy ===== *)
theory Vt_Roundtrip
  imports Vt_Sequences Vt_Output
begin

text \<open>
  The VT writer against the VT parser: what \<open>vt_msg_send\<close> writes for a message, a parser in ground state
  reads as that message.
\<close>

section \<open>Numbers\<close>

lemma digits_value_snoc: "digits_value b (ds @ [d]) = digits_value b ds * b + d"
  by (simp add: digits_value_def)

lemma dec_chars_digits: "\<forall>c \<in> set (dec_chars n). is_digit c" "digits_value 10 (map dec_digit (dec_chars n)) = n"
proof (induction n rule: dec_chars.induct)
  case (1 n)
  case 1
  show ?case
  proof (cases "n < 10")
    case True
    then show ?thesis by (simp add: dec_chars.simps [of n] is_digit_def)
  next
    case False
    have "n mod 10 < 10" by simp
    then show ?thesis using "1.IH"(1) [OF False] False by (simp add: dec_chars.simps [of n] is_digit_def)
  qed
  case 2
  show ?case
  proof (cases "n < 10")
    case True
    then show ?thesis by (simp add: dec_chars.simps [of n] dec_digit_def digits_value_def)
  next
    case False
    then show ?thesis using "1.IH"(2) [OF False]
      by (simp add: dec_chars.simps [of n] digits_value_snoc dec_digit_def)
  qed
qed

lemma int_chars_param:
  assumes "0 \<le> v" and "v \<le> 32767"
  shows "\<forall>c \<in> set (int_chars v). is_digit c" "param_value (int_chars v) = v"
  using assms dec_chars_digits [of "nat v"] by (simp_all add: int_chars_def param_value_def to_short_id)

section \<open>A CSI sequence\<close>

fun join_params :: "u32 list \<Rightarrow> u32" where
  "join_params [] = []"
| "join_params [ds] = ds"
| "join_params (ds # dss) = ds @ [0x3B] @ join_params dss"

definition csi_bytes :: "bool \<Rightarrow> u32 list \<Rightarrow> u32 \<Rightarrow> char32 \<Rightarrow> u32" where
  "csi_bytes priv dss im t = [0x1B, 0x5B] @ (if priv then [0x3F] else []) @ join_params dss @ im @ [t]"

lemma csi_at_inv: "csi_at p raw ps cur priv im \<Longrightarrow> parser_inv p"
  by (simp add: csi_at_def seq_parser_inv)

lemma csi_at_private:
  assumes "csi_at p raw ps cur priv im"
  shows "\<exists>p'. vt_feeds p [0x3F] = Some (p', []) \<and> csi_at p' (raw @ [0x3F]) ps cur True im"
proof -
  let ?p' = "p\<lparr>p_raw := p_raw p @ [0x3F], p_private_marker := True\<rparr>"
  have p: "seq_inv p" using assms(1) by (simp add: csi_at_def)
  have "classify_csi_char 0x3F = c_private_marker"
    by (simp add: classify_csi_char_def is_c0_or_del_def is_digit_def)
  then have step: "parse_sequence_char 0x3F p = Some (?p', continue_msg)"
    using assms(1) by (simp add: parse_sequence_char_def parse_csi_def csi_at_def)
  have "vt_feeds p [0x3F] = Some (?p', [])" using vt_feed_seq [OF p step] by simp
  moreover have "csi_at ?p' (raw @ [0x3F]) ps cur True im"
    using seq_inv_step(1) [OF p step] assms by (simp add: csi_at_def)
  ultimately show ?thesis by blast
qed

lemma csi_at_intermediate:
  assumes "csi_at p raw ps cur priv im" and "0x20 \<le> c" "c \<le> 0x2F"
  shows "\<exists>p'. vt_feeds p [c] = Some (p', []) \<and> csi_at p' (raw @ [c]) ps cur priv c"
proof -
  let ?p' = "p\<lparr>p_raw := p_raw p @ [c], p_intermediate := c\<rparr>"
  have p: "seq_inv p" using assms(1) by (simp add: csi_at_def)
  have "classify_csi_char c = c_intermediate"
    using assms(2,3) by (simp add: classify_csi_char_def is_c0_or_del_def is_digit_def)
  then have step: "parse_sequence_char c p = Some (?p', continue_msg)"
    using assms(1) by (simp add: parse_sequence_char_def parse_csi_def csi_at_def)
  have "vt_feeds p [c] = Some (?p', [])" using vt_feed_seq [OF p step] by simp
  moreover have "csi_at ?p' (raw @ [c]) ps cur priv c"
    using seq_inv_step(1) [OF p step] assms by (simp add: csi_at_def)
  ultimately show ?thesis by blast
qed

lemma csi_at_params:
  assumes "csi_at p raw ps 0 priv im" and "dss \<noteq> []" and "\<forall>ds \<in> set dss. \<forall>c \<in> set ds. is_digit c"
    and "length ps + length dss \<le> MAX_PARAMS"
  shows "\<exists>p'. vt_feeds p (join_params dss) = Some (p', [])
    \<and> csi_at p' (raw @ join_params dss) (ps @ map param_value (butlast dss)) (param_value (last dss)) priv im"
  using assms
proof (induction dss arbitrary: p raw ps rule: join_params.induct)
  case (2 ds)
  then show ?case using csi_at_digits [OF 2(1), of ds] by simp
next
  case (3 ds d' dss)
  obtain p1 where p1: "vt_feeds p ds = Some (p1, [])" "csi_at p1 (raw @ ds) ps (param_value ds) priv im"
    using csi_at_digits [OF 3(2), of ds] 3(4) by auto
  obtain p2 where p2: "vt_feeds p1 [0x3B] = Some (p2, [])"
    "csi_at p2 ((raw @ ds) @ [0x3B]) (ps @ [param_value ds]) 0 priv im"
    using csi_at_semicolon [OF p1(2)] 3(5) by auto
  obtain p3 where p3: "vt_feeds p2 (join_params (d' # dss)) = Some (p3, [])"
    "csi_at p3 (((raw @ ds) @ [0x3B]) @ join_params (d' # dss))
       ((ps @ [param_value ds]) @ map param_value (butlast (d' # dss))) (param_value (last (d' # dss))) priv im"
    using "3.IH" [OF p2(2)] 3(4,5) by auto
  have "vt_feeds p (ds @ [0x3B] @ join_params (d' # dss)) = Some (p3, [])"
    using vt_feeds_append_quiet [OF csi_at_inv [OF 3(2)] p1(1)] vt_feeds_append_quiet [OF csi_at_inv [OF p1(2)] p2(1)] p3(1)
    by simp
  then show ?case using p3(2) by simp
qed simp

text \<open>A whole CSI sequence from ground state: one event.\<close>

lemma csi_decodes:
  assumes "ground_inv p" and dss: "dss \<noteq> []" "\<forall>ds \<in> set dss. \<forall>c \<in> set ds. is_digit c" "length dss \<le> MAX_PARAMS"
    and im: "im = [] \<or> (\<exists>c. im = [c] \<and> 0x20 \<le> c \<and> c \<le> 0x2F)" and t: "0x40 \<le> t" "t \<le> 0x7E"
    and dispatch: "\<And>q. p_params q = map param_value dss \<Longrightarrow> p_private_marker q = priv \<Longrightarrow>
      p_intermediate q = (case im of [] \<Rightarrow> 0 | c # _ \<Rightarrow> c) \<Longrightarrow> \<not> p_csi_overflow q \<Longrightarrow>
      snd (dispatch_csi t q) = i \<and> P (p_msg (fst (dispatch_csi t q)))"
    and i: "i \<noteq> continue_msg"
  shows "\<exists>p' m. vt_feeds p (csi_bytes priv dss im t) = Some (p', [E_msg i (csi_bytes priv dss im t) m]) \<and> P m \<and> clean p'"
proof -
  obtain p1 where p1: "vt_feeds p [0x1B, 0x5B] = Some (p1, [])" "csi_at p1 [0x1B, 0x5B] [] 0 False 0"
    using csi_at_start [OF assms(1)] by blast
  define ms where "ms = (if priv then [0x3F] else [] :: u32)"
  obtain p2 where p2: "vt_feeds p1 ms = Some (p2, [])" "csi_at p2 ([0x1B, 0x5B] @ ms) [] 0 priv 0"
    using csi_at_private [OF p1(2)] p1(2) by (cases priv) (auto simp: ms_def)
  obtain p3 where p3: "vt_feeds p2 (join_params dss) = Some (p3, [])"
    "csi_at p3 (([0x1B, 0x5B] @ ms) @ join_params dss) ([] @ map param_value (butlast dss)) (param_value (last dss)) priv 0"
    using csi_at_params [OF p2(2) dss(1,2)] dss(3) by auto
  have "\<exists>p4. vt_feeds p3 im = Some (p4, [])
    \<and> csi_at p4 ((([0x1B, 0x5B] @ ms) @ join_params dss) @ im) (map param_value (butlast dss)) (param_value (last dss)) priv
       (case im of [] \<Rightarrow> 0 | c # _ \<Rightarrow> c)"
  proof (cases im)
    case (Cons c cs)
    then have "im = [c]" "0x20 \<le> c" "c \<le> 0x2F" using im by auto
    then show ?thesis using csi_at_intermediate [OF p3(2), of c] by (simp del: vt_feeds.simps)
  qed (use p3(2) in simp)
  then obtain p4 where p4: "vt_feeds p3 im = Some (p4, [])"
    "csi_at p4 ((([0x1B, 0x5B] @ ms) @ join_params dss) @ im) (map param_value (butlast dss)) (param_value (last dss)) priv
       (case im of [] \<Rightarrow> 0 | c # _ \<Rightarrow> c)"
    by blast
  have all: "map param_value (butlast dss) @ [param_value (last dss)] = map param_value dss"
    using dss(1) by (metis append_butlast_last_id map_append list.simps(8,9))
  have f: "classify_csi_char t = c_final"
    using t by (simp add: classify_csi_char_def is_c0_or_del_def is_digit_def)
  have "length (map param_value (butlast dss)) < MAX_PARAMS" using dss(1,3) by (cases dss) simp_all
  from csi_at_final [where P = P and i = i, OF p4(2) this f _ i]
  obtain p5 m where p5: "vt_feeds p4 [t] = Some (p5, [E_msg i (((([0x1B, 0x5B] @ ms) @ join_params dss) @ im) @ [t]) m])"
    "P m" "clean p5"
    using dispatch unfolding all by blast
  have "vt_feeds p (csi_bytes priv dss im t) = Some (p5, [E_msg i (csi_bytes priv dss im t) m])"
    using vt_feeds_append_quiet [OF ground_parser_inv [OF assms(1)] p1(1)] vt_feeds_append_quiet [OF csi_at_inv [OF p1(2)] p2(1)]
      vt_feeds_append_quiet [OF csi_at_inv [OF p2(2)] p3(1)] vt_feeds_append_quiet [OF csi_at_inv [OF p3(2)] p4(1)] p5(1)
    by (simp add: csi_bytes_def ms_def)
  with p5(2,3) show ?thesis by blast
qed


text \<open>The same for parameters written with \<open>vt_append_int\<close>.\<close>

lemma csi_sends:
  assumes "clean p" and vs: "vs \<noteq> []" "\<forall>v \<in> set vs. 0 \<le> v \<and> v \<le> 32767" "length vs \<le> MAX_PARAMS"
    and "im = [] \<or> (\<exists>c. im = [c] \<and> 0x20 \<le> c \<and> c \<le> 0x2F)" and "0x40 \<le> t" "t \<le> 0x7E"
    and dispatch: "\<And>q. p_params q = vs \<Longrightarrow> p_private_marker q = priv \<Longrightarrow>
      p_intermediate q = (case im of [] \<Rightarrow> 0 | c # _ \<Rightarrow> c) \<Longrightarrow> \<not> p_csi_overflow q \<Longrightarrow>
      snd (dispatch_csi t q) = i \<and> P (p_msg (fst (dispatch_csi t q)))"
    and "i \<noteq> continue_msg"
  shows "\<exists>p' m. vt_feeds p (csi_bytes priv (map int_chars vs) im t) = Some (p', [E_msg i (csi_bytes priv (map int_chars vs) im t) m])
    \<and> P m \<and> clean p'"
proof -
  have "map param_value (map int_chars vs) = vs" using vs(2) int_chars_param(2) by (simp add: map_idI)
  then show ?thesis
    using assms int_chars_param(1) by (intro csi_decodes) (auto simp: clean_def)
qed

section \<open>ESC and OSC sequences\<close>

text \<open>After the ESC.\<close>

lemma clean_end:
  assumes "seq_inv p" and "parse_sequence_char c p = Some (p', i)" and "i \<noteq> continue_msg" and "p_intermediate p' = 0"
  shows "vt_feeds p [c] = Some (vt_reset p', [E_msg i (p_raw p @ [c]) (p_msg p')])" "clean (vt_reset p')"
proof -
  show f: "vt_feeds p [c] = Some (vt_reset p', [E_msg i (p_raw p @ [c]) (p_msg p')])"
    using vt_feed_seq [OF assms(1,2)] assms(3) by simp
  have "parser_inv (vt_reset p')" by (rule vtf.run_inv [OF seq_parser_inv [OF assms(1)] f])
  then show "clean (vt_reset p')" using assms(4) by (simp add: clean_def parser_inv_def vt_reset_def)
qed

definition esc_at :: "vt_parser \<Rightarrow> u32 \<Rightarrow> nat \<Rightarrow> bool" where
  "esc_at p raw im \<longleftrightarrow> seq_inv p \<and> p_mode p = mode_esc \<and> p_raw p = raw \<and> p_intermediate p = im"

lemma esc_at_start:
  assumes "clean p"
  shows "\<exists>p'. vt_feeds p [0x1B] = Some (p', []) \<and> esc_at p' [0x1B] 0"
proof -
  let ?p = "p\<lparr>p_raw := [0x1B], p_seq_start := 0, p_mode := mode_esc\<rparr>"
  have raw: "p_raw p = []" and g: "ground_inv p" using assms by (simp_all add: clean_def ground_inv_def)
  have k: "classify_ground_char 0x1B = g_esc" by (simp add: classify_ground_char_def)
  have "parse_ground_control 0x1B p = Some (?p, continue_msg)"
    using raw by (simp add: parse_ground_control_def k Let_def)
  then have "vt_feed p 0x1B = Some (?p, [])"
    using vt_parse_control [OF g, of "0x1B" "[]"] by (simp add: vt_feed_def result_events_def)
  moreover have "seq_inv ?p" using g by (simp add: seq_inv_def ground_inv_def)
  ultimately show ?thesis using assms by (simp add: esc_at_def clean_def)
qed

lemma esc_at_inv: "esc_at p raw im \<Longrightarrow> parser_inv p"
  by (simp add: esc_at_def seq_parser_inv)

lemma esc_decodes:
  assumes "clean p" and "dispatch_esc c = i" "i \<noteq> continue_msg"
  shows "\<exists>p' m. vt_feeds p [0x1B, c] = Some (p', [E_msg i [0x1B, c] m]) \<and> clean p'"
proof -
  obtain p1 where p1: "vt_feeds p [0x1B] = Some (p1, [])" "esc_at p1 [0x1B] 0"
    using esc_at_start [OF assms(1)] by blast
  have c: "\<not> is_c0_or_del c" "c \<notin> {0x5B, 0x5D, 0x4F, 0x28}"
    using assms(2,3) by (auto simp: dispatch_esc_def is_c0_or_del_def split: if_splits)
  let ?p' = "p1\<lparr>p_raw := [0x1B, c], p_mode := mode_ground, p_seq_start := 0\<rparr>"
  have "parse_sequence_char c p1 = Some (?p', i)"
    using p1(2) c assms(2,3) by (simp add: parse_sequence_char_def parse_esc_def esc_at_def finish_seq_def)
  from clean_end [OF _ this assms(3)] p1(2)
  have "vt_feeds p1 [c] = Some (vt_reset ?p', [E_msg i [0x1B, c] (p_msg ?p')]) \<and> clean (vt_reset ?p')"
    by (simp add: esc_at_def)
  moreover have "vt_feeds p ([0x1B] @ [c]) = vt_feeds p1 [c]"
    by (rule vt_feeds_append_quiet [OF ground_parser_inv p1(1)]) (use assms(1) in \<open>simp add: clean_def\<close>)
  ultimately show ?thesis by (metis append_Cons append_Nil)
qed

lemma charset_decodes:
  assumes "clean p" and "dispatch_charset c = i" "i \<noteq> continue_msg"
  shows "\<exists>p' m. vt_feeds p [0x1B, 0x28, c] = Some (p', [E_msg i [0x1B, 0x28, c] m]) \<and> clean p'"
proof -
  obtain p1 where p1: "vt_feeds p [0x1B] = Some (p1, [])" "esc_at p1 [0x1B] 0"
    using esc_at_start [OF assms(1)] by blast
  let ?p2 = "p1\<lparr>p_raw := [0x1B, 0x28], p_intermediate := 0x28\<rparr>"
  have s1: "seq_inv p1" using p1(2) by (simp add: esc_at_def)
  have step: "parse_sequence_char 0x28 p1 = Some (?p2, continue_msg)"
    using p1(2) by (simp add: parse_sequence_char_def parse_esc_def esc_at_def is_c0_or_del_def)
  have p2: "vt_feeds p1 [0x28] = Some (?p2, [])" "esc_at ?p2 [0x1B, 0x28] 0x28"
    using vt_feed_seq [OF s1 step] seq_inv_step(1) [OF s1 step] p1(2) by (simp_all add: esc_at_def)
  have c: "\<not> is_c0_or_del c" "c \<notin> {0x5B, 0x5D, 0x4F, 0x28}"
    using assms(2,3) by (auto simp: dispatch_charset_def is_c0_or_del_def split: if_splits)
  let ?p' = "p1\<lparr>p_raw := [0x1B, 0x28, c], p_mode := mode_ground, p_intermediate := 0, p_seq_start := 0\<rparr>"
  have "parse_sequence_char c ?p2 = Some (?p', i)"
    using p2(2) c assms(2,3) by (simp add: parse_sequence_char_def parse_esc_def esc_at_def finish_seq_def)
  from clean_end [OF _ this assms(3)] p2(2)
  have "vt_feeds ?p2 [c] = Some (vt_reset ?p', [E_msg i [0x1B, 0x28, c] (p_msg ?p')]) \<and> clean (vt_reset ?p')"
    by (simp add: esc_at_def)
  moreover have "vt_feeds p ([0x1B] @ [0x28] @ [c]) = vt_feeds p1 ([0x28] @ [c])"
    by (rule vt_feeds_append_quiet [OF ground_parser_inv p1(1)]) (use assms(1) in \<open>simp add: clean_def\<close>)
  moreover have "vt_feeds p1 ([0x28] @ [c]) = vt_feeds ?p2 [c]"
    by (rule vt_feeds_append_quiet [OF esc_at_inv [OF p1(2)] p2(1)])
  ultimately show ?thesis by (metis append_Cons append_Nil)
qed

definition osc_at :: "vt_parser \<Rightarrow> u32 \<Rightarrow> bool" where
  "osc_at p raw \<longleftrightarrow> seq_inv p \<and> p_mode p = mode_osc \<and> p_raw p = raw \<and> p_intermediate p = 0"

lemma osc_at_chars:
  assumes "osc_at p raw" and "\<forall>c \<in> set cs. \<not> is_c0_or_del c"
  shows "\<exists>p'. vt_feeds p cs = Some (p', []) \<and> osc_at p' (raw @ cs)"
  using assms
proof (induction cs arbitrary: p raw)
  case (Cons c cs)
  have s: "seq_inv p" using Cons.prems(1) by (simp add: osc_at_def)
  have "\<exists>p1. parse_sequence_char c p = Some (p1, continue_msg) \<and> p_mode p1 = mode_osc \<and> p_intermediate p1 = 0"
    using Cons.prems by (simp add: parse_sequence_char_def parse_osc_def osc_at_def Let_def)
  then obtain p1 where step: "parse_sequence_char c p = Some (p1, continue_msg)"
    and p1: "p_mode p1 = mode_osc" "p_intermediate p1 = 0" by blast
  have "osc_at p1 (raw @ [c])"
    using seq_inv_step [OF s step] p1 Cons.prems(1) by (simp add: osc_at_def)
  from Cons.IH [OF this] Cons.prems(2) vt_feed_seq [OF s step] show ?case by simp
qed simp

lemma osc_decodes:
  assumes "clean p" and body: "\<forall>c \<in> set body. \<not> is_c0_or_del c"
    and dispatch: "\<And>q. p_raw q = [0x1B, 0x5D] @ body @ [0x07] \<Longrightarrow> p_seq_start q = 0 \<Longrightarrow>
      dispatch_osc q = (set_payload pl q, i)"
    and i: "i \<noteq> continue_msg"
  shows "\<exists>p' m. vt_feeds p ([0x1B, 0x5D] @ body @ [0x07]) = Some (p', [E_msg i ([0x1B, 0x5D] @ body @ [0x07]) m])
    \<and> m_payload m = pl \<and> clean p'"
proof -
  obtain p1 where p1: "vt_feeds p [0x1B] = Some (p1, [])" "esc_at p1 [0x1B] 0"
    using esc_at_start [OF assms(1)] by blast
  let ?p2 = "p1\<lparr>p_raw := [0x1B, 0x5D], p_mode := mode_osc, p_osc_code := 0, p_osc_buf := [], p_osc_had_semi := False\<rparr>"
  have s1: "seq_inv p1" using p1(2) by (simp add: esc_at_def)
  have step: "parse_sequence_char 0x5D p1 = Some (?p2, continue_msg)"
    using p1(2) by (simp add: parse_sequence_char_def parse_esc_def esc_at_def is_c0_or_del_def)
  have p2: "vt_feeds p1 [0x5D] = Some (?p2, [])" "osc_at ?p2 [0x1B, 0x5D]"
    using vt_feed_seq [OF s1 step] seq_inv_step(1) [OF s1 step] p1(2) by (simp_all add: esc_at_def osc_at_def)
  obtain p3 where p3: "vt_feeds ?p2 body = Some (p3, [])" "osc_at p3 ([0x1B, 0x5D] @ body)"
    using osc_at_chars [OF p2(2) body] by blast
  let ?q = "p3\<lparr>p_raw := p_raw p3 @ [0x07]\<rparr>"
  have d: "dispatch_osc ?q = (set_payload pl ?q, i)"
    using p3(2) by (intro dispatch) (simp_all add: osc_at_def seq_inv_def)
  have s3: "seq_inv p3" using p3(2) by (simp add: osc_at_def)
  let ?p4 = "(set_payload pl ?q)\<lparr>p_mode := mode_ground, p_seq_start := 0\<rparr>"
  have step4: "parse_sequence_char 0x07 p3 = Some (?p4, i)"
    using p3(2) d i by (simp add: parse_sequence_char_def parse_osc_def osc_at_def is_c0_or_del_def finish_seq_def)
  have "p_intermediate ?p4 = 0" using p3(2) by (simp add: osc_at_def set_payload_def)
  note E = clean_end [OF s3 step4 i this]
  have raw: "p_raw p3 @ [0x07] = [0x1B, 0x5D] @ body @ [0x07]" using p3(2) by (simp add: osc_at_def)
  have "vt_feeds p ([0x1B] @ [0x5D] @ body @ [0x07]) = vt_feeds p1 ([0x5D] @ body @ [0x07])"
    by (rule vt_feeds_append_quiet [OF ground_parser_inv p1(1)]) (use assms(1) in \<open>simp add: clean_def\<close>)
  also have "\<dots> = vt_feeds ?p2 (body @ [0x07])"
    by (rule vt_feeds_append_quiet [OF esc_at_inv [OF p1(2)] p2(1)])
  also have "\<dots> = vt_feeds p3 [0x07]"
    by (rule vt_feeds_append_quiet [OF seq_parser_inv p3(1)]) (use p2(2) in \<open>simp add: osc_at_def\<close>)
  also have "\<dots> = Some (vt_reset ?p4, [E_msg i ([0x1B, 0x5D] @ body @ [0x07]) (p_msg ?p4)])"
    using E(1) unfolding raw .
  finally have "vt_feeds p ([0x1B, 0x5D] @ body @ [0x07]) = Some (vt_reset ?p4, [E_msg i ([0x1B, 0x5D] @ body @ [0x07]) (p_msg ?p4)])"
    by simp
  moreover have "m_payload (p_msg ?p4) = pl" by (simp add: set_payload_def)
  ultimately show ?thesis using E(2) by blast
qed


section \<open>The messages\<close>

definition count_ok :: "vt_payload \<Rightarrow> bool" where
  "count_ok p = (case p of P_count n \<Rightarrow> 1 \<le> n \<and> n \<le> 32767 | _ \<Rightarrow> False)"

definition title_char :: "char32 \<Rightarrow> bool" where
  "title_char c \<longleftrightarrow> 0x20 \<le> c \<and> c \<le> 0x7E"

text \<open>
  The messages whose sequence says everything: counts from 1, positions from 1, numbers that fit a
  parameter. Not among them are the SGR message (see \<open>sgr_send_resets\<close>), the ANSI save and restore, which
  are sent as their DEC forms, the soft reset and the line feed, which are two sequences.
\<close>

definition sendable :: "vt_message_id \<Rightarrow> vt_payload \<Rightarrow> bool" where
  "sendable ident p =
     (case ident of
        set_window_title \<Rightarrow> (case p of P_title t \<Rightarrow> t \<noteq> [] \<and> (\<forall>c \<in> set t. title_char c) | _ \<Rightarrow> False)
      | carriage_return \<Rightarrow> True
      | reverse_index \<Rightarrow> True
      | Cursor c \<Rightarrow>
          if c \<in> {cursor_up, cursor_down, cursor_forward, cursor_backward, cursor_next_line, cursor_prev_line,
                  cursor_forward_tab, cursor_backward_tab} then count_ok p
          else if c = cursor_vert_absolute then (case p of P_position r k \<Rightarrow> 1 \<le> r \<and> r \<le> 32767 \<and> k = 0 | _ \<Rightarrow> False)
          else if c = cursor_horiz_absolute then (case p of P_position r k \<Rightarrow> 1 \<le> k \<and> k \<le> 32767 \<and> r = 0 | _ \<Rightarrow> False)
          else if c = cursor_position
          then (case p of P_position r k \<Rightarrow> 1 \<le> r \<and> r \<le> 32767 \<and> 1 \<le> k \<and> k \<le> 32767 | _ \<Rightarrow> False)
          else if c = set_cursor_shape then (case p of P_cursor_shape n \<Rightarrow> 0 \<le> n \<and> n \<le> 32767 | _ \<Rightarrow> False)
          else c \<notin> {ansi_save_cursor, ansi_restore_cursor}
      | Mode m \<Rightarrow> True
      | Screen c \<Rightarrow>
          if c \<in> {scroll_up, scroll_down, insert_characters, delete_characters, erase_characters, insert_lines, delete_lines}
          then count_ok p
          else if c \<in> {erase_in_display, erase_in_line} then (case p of P_erase_mode n \<Rightarrow> 0 \<le> n \<and> n \<le> 32767 | _ \<Rightarrow> False)
          else if c = set_scrolling_region
          then (case p of P_scroll_region t u \<Rightarrow> 0 \<le> t \<and> t \<le> 32767 \<and> 0 \<le> u \<and> u \<le> 32767 | _ \<Rightarrow> False)
          else c \<noteq> resize_window
      | set_palette_color \<Rightarrow>
          (case p of P_palette i r g b \<Rightarrow> 0 \<le> i \<and> i \<le> 32767 \<and> r < 256 \<and> g < 256 \<and> b < 256 | _ \<Rightarrow> False)
      | Query k \<Rightarrow> k \<in> {report_cursor_position, device_attributes}
      | _ \<Rightarrow> False)"

text \<open>The messages whose payload means something.\<close>

definition has_payload :: "vt_message_id \<Rightarrow> bool" where
  "has_payload ident =
     (case ident of
        set_window_title \<Rightarrow> True
      | set_palette_color \<Rightarrow> True
      | Cursor c \<Rightarrow> c \<in> {cursor_up, cursor_down, cursor_forward, cursor_backward, cursor_next_line, cursor_prev_line,
          cursor_forward_tab, cursor_backward_tab, cursor_vert_absolute, cursor_horiz_absolute, cursor_position, set_cursor_shape}
      | Screen c \<Rightarrow> c \<in> {scroll_up, scroll_down, insert_characters, delete_characters, erase_characters, insert_lines,
          delete_lines, erase_in_display, erase_in_line, set_scrolling_region}
      | _ \<Rightarrow> False)"

text \<open>What libunicode's encoder does with ASCII.\<close>

definition utf8_ascii :: "(char32 \<Rightarrow> nat list) \<Rightarrow> bool" where
  "utf8_ascii utf8 \<longleftrightarrow> (\<forall>c < 0x80. utf8 c = [c])"

definition decodes :: "vt_message_id \<Rightarrow> vt_payload \<Rightarrow> u32 \<Rightarrow> bool" where
  "decodes ident pl bytes \<longleftrightarrow> (\<forall>p. clean p \<longrightarrow>
     (\<exists>p' raw m. vt_feeds p bytes = Some (p', [E_msg ident raw m]) \<and> clean p' \<and> (has_payload ident \<longrightarrow> m_payload m = pl)))"

lemma csi_message:
  assumes "bytes = csi_bytes priv (map int_chars vs) im t"
    and "vs \<noteq> []" "\<forall>v \<in> set vs. 0 \<le> v \<and> v \<le> 32767" "length vs \<le> MAX_PARAMS"
    and "im = [] \<or> (\<exists>c. im = [c] \<and> 0x20 \<le> c \<and> c \<le> 0x2F)" and "0x40 \<le> t" "t \<le> 0x7E"
    and "\<And>q. p_params q = vs \<Longrightarrow> p_private_marker q = priv \<Longrightarrow>
      p_intermediate q = (case im of [] \<Rightarrow> 0 | c # _ \<Rightarrow> c) \<Longrightarrow> \<not> p_csi_overflow q \<Longrightarrow>
      snd (dispatch_csi t q) = i \<and> (has_payload i \<longrightarrow> m_payload (p_msg (fst (dispatch_csi t q))) = pl)"
    and "i \<noteq> continue_msg"
  shows "decodes i pl bytes"
  unfolding decodes_def
proof (intro allI impI)
  fix p assume "clean p"
  from csi_sends [where P = "\<lambda>m. has_payload i \<longrightarrow> m_payload m = pl", OF this assms(2-7) assms(8) assms(9)]
  show "\<exists>p' raw m. vt_feeds p bytes = Some (p', [E_msg i raw m]) \<and> clean p' \<and> (has_payload i \<longrightarrow> m_payload m = pl)"
    unfolding assms(1) by blast
qed

text \<open>The count that is left out.\<close>

lemma csi_bare_message:
  assumes "bytes = csi_bytes False [[]] [] t" and "0x40 \<le> t" "t \<le> 0x7E"
    and "\<And>q. p_params q = [0] \<Longrightarrow> \<not> p_private_marker q \<Longrightarrow> p_intermediate q = 0 \<Longrightarrow> \<not> p_csi_overflow q \<Longrightarrow>
      snd (dispatch_csi t q) = i \<and> (has_payload i \<longrightarrow> m_payload (p_msg (fst (dispatch_csi t q))) = pl)"
    and "i \<noteq> continue_msg"
  shows "decodes i pl bytes"
  unfolding decodes_def
proof (intro allI impI)
  fix p assume "clean p"
  then have g: "ground_inv p" by (simp add: clean_def)
  from csi_decodes [where P = "\<lambda>m. has_payload i \<longrightarrow> m_payload m = pl" and dss = "[[]]" and im = "[]" and priv = False,
      OF g _ _ _ _ assms(2,3) _ assms(5)] assms(4)
  show "\<exists>p' raw m. vt_feeds p bytes = Some (p', [E_msg i raw m]) \<and> clean p' \<and> (has_payload i \<longrightarrow> m_payload m = pl)"
    unfolding assms(1) by (force simp: MAX_PARAMS_def)
qed

definition wire :: "(char32 \<Rightarrow> nat list) \<Rightarrow> vt_message_id \<Rightarrow> vt_payload \<Rightarrow> u32" where
  "wire utf8 ident p = vo_buffer (vt_msg_send utf8 ident \<lparr>m_payload = p, m_key_modifier = 1\<rparr> vt_out_init)"

lemma send_buffers:
  "vo_buffer (vt_append_str s st) = vo_buffer st @ s"
  "vo_buffer (vt_send_count t n st) = vo_buffer st @ csi_bytes False [int_chars n] [] t"
  "vo_buffer (vt_send_counted t n st) = vo_buffer st @ csi_bytes False [if n > 1 then int_chars n else []] [] t"
  "vo_buffer (vt_write_cup r k st) = vo_buffer st @ csi_bytes False [int_chars (r + 1), int_chars (k + 1)] [] 0x48"
  by (simp_all add: out_defs csi_bytes_def asc_def)

lemma count_message:
  assumes "1 \<le> n" "n \<le> 32767" and "dispatch_csi_counted t = Some (i, b)"
  shows "decodes i (P_count n) (csi_bytes False [int_chars n] [] t)"
    "decodes i (P_count n) (csi_bytes False [if n > 1 then int_chars n else []] [] t)"
proof -
  have t: "0x40 \<le> t" "t \<le> 0x7E" and i: "i \<noteq> continue_msg"
    using assms(3) by (auto simp: dispatch_csi_counted_def split: if_splits)
  have d: "snd (dispatch_csi t q) = i \<and> (has_payload i \<longrightarrow> m_payload (p_msg (fst (dispatch_csi t q))) = P_count m)"
    if "p_params q = [v]" "\<not> p_private_marker q" "\<not> p_csi_overflow q" "m = (if v = 0 then 1 else v)" "m \<le> 32767" for q v m
    using that by (simp add: dispatch_csi_def dispatch_csi_final_def assms(3) get_param_def Let_def clamp_param_def set_payload_def)
  show long: "decodes i (P_count n) (csi_bytes False [int_chars n] [] t)"
    by (rule csi_message [where vs = "[n]" and im = "[]" and priv = False, OF _ _ _ _ _ t _ i])
      (use assms(1,2) d [of _ n n] in \<open>simp_all add: MAX_PARAMS_def\<close>)
  have "decodes i (P_count 1) (csi_bytes False [[]] [] t)"
    by (rule csi_bare_message [OF refl t _ i]) (use d [of _ 0 1] in simp)
  then show "decodes i (P_count n) (csi_bytes False [if n > 1 then int_chars n else []] [] t)"
    using long assms(1) by (cases "n > 1") simp_all
qed


lemma private_message:
  assumes "0 \<le> v" "v \<le> 32767" and "t = 0x68 \<and> i = dec_private_set v \<or> t = 0x6C \<and> i = dec_private_reset v"
    and "i \<noteq> continue_msg"
  shows "decodes i pl (csi_bytes True [int_chars v] [] t)"
proof -
  have p: "\<not> has_payload i"
    using assms(3) by (auto simp: has_payload_def dec_private_set_def dec_private_reset_def split: if_splits)
  have c: "dispatch_csi_counted t = None" using assms(3) by (auto simp: dispatch_csi_counted_def)
  have "snd (dispatch_csi t q) = i" if "p_params q = [v]" "p_private_marker q" "\<not> p_csi_overflow q" for q
    using that assms(3) by (auto simp: dispatch_csi_def dispatch_csi_final_def c get_param_def Let_def)
  moreover have "0x40 \<le> t" "t \<le> 0x7E" using assms(3) by auto
  ultimately show ?thesis
    using assms(1,2,4) p by (intro csi_message [where vs = "[v]" and im = "[]" and priv = True]) (simp_all add: MAX_PARAMS_def)
qed

lemma esc_message: "dispatch_esc c = i \<Longrightarrow> i \<noteq> continue_msg \<Longrightarrow> \<not> has_payload i \<Longrightarrow> decodes i pl [0x1B, c]"
  unfolding decodes_def using esc_decodes by blast

lemma charset_message:
  "dispatch_charset c = i \<Longrightarrow> i \<noteq> continue_msg \<Longrightarrow> \<not> has_payload i \<Longrightarrow> decodes i pl [0x1B, 0x28, c]"
  unfolding decodes_def using charset_decodes by blast

text \<open>The title.\<close>

lemma find_terminator_bel: "\<forall>c \<in> set t. c \<noteq> 0x07 \<and> c \<noteq> 0x1B \<Longrightarrow> find_terminator (t @ [0x07]) = Some (length t)"
  by (induction t) auto

lemma title_message:
  assumes "\<forall>c \<in> set t. title_char c"
  shows "decodes set_window_title (P_title t) ([0x1B, 0x5D] @ ([0x30, 0x3B] @ t) @ [0x07])"
  unfolding decodes_def
proof (intro allI impI)
  fix p assume p: "clean p"
  have body: "\<forall>c \<in> set ([0x30, 0x3B] @ t). \<not> is_c0_or_del c"
    using assms by (auto simp: title_char_def is_c0_or_del_def)
  have fin: "find_terminator (t @ [0x07]) = Some (length t)"
    using assms by (intro find_terminator_bel) (auto simp: title_char_def)
  have "dispatch_osc q = (set_payload (P_title t) q, set_window_title)"
    if "p_raw q = [0x1B, 0x5D] @ ([0x30, 0x3B] @ t) @ [0x07]" "p_seq_start q = 0" for q
    using that fin by (simp add: dispatch_osc_def is_digit_def to_short_def)
  from osc_decodes [OF p body this]
  show "\<exists>p' raw m. vt_feeds p ([0x1B, 0x5D] @ ([0x30, 0x3B] @ t) @ [0x07]) = Some (p', [E_msg set_window_title raw m])
    \<and> clean p' \<and> (has_payload set_window_title \<longrightarrow> m_payload m = P_title t)"
    by blast
qed

text \<open>The palette.\<close>

definition hex_byte :: "nat \<Rightarrow> u32" where
  "hex_byte v = [asc ''0123456789abcdef'' ! (v div 16), asc ''0123456789abcdef'' ! (v mod 16)]"

lemma hex_digits: "n < 16 \<Longrightarrow> is_hex_digit (asc ''0123456789abcdef'' ! n) \<and> hex_digit (asc ''0123456789abcdef'' ! n) = n
    \<and> asc ''0123456789abcdef'' ! n \<noteq> 0x2F"
proof -
  have "\<forall>n < 16. is_hex_digit (asc ''0123456789abcdef'' ! n) \<and> hex_digit (asc ''0123456789abcdef'' ! n) = n
    \<and> asc ''0123456789abcdef'' ! n \<noteq> 0x2F" by code_simp
  then show "n < 16 \<Longrightarrow> ?thesis" by blast
qed

lemma parse_hex_byte:
  assumes "v < 256" and "length A = pos" and "rest = [] \<or> \<not> is_hex_digit (hd rest)"
  shows "parse_osc_hex (A @ hex_byte v @ rest) pos = (v, pos + 2 + length (takeWhile (\<lambda>ch. ch = 0x2F) rest))"
proof -
  have "v div 16 < 16" "v mod 16 < 16" using assms(1) by auto
  note H = hex_digits [OF this(1)] hex_digits [OF this(2)]
  have "digits_value 16 (map hex_digit (hex_byte v)) = v"
    using H by (simp add: hex_byte_def digits_value_def)
  moreover have "takeWhile is_hex_digit (take 2 (hex_byte v @ rest)) = hex_byte v" "length (hex_byte v) = 2"
    using H by (simp_all add: hex_byte_def)
  ultimately show ?thesis using assms(2) by (simp add: parse_osc_hex_def Let_def) (auto simp: hex_byte_def)
qed

lemma length_dec_chars: "n < 10 ^ Suc k \<Longrightarrow> length (dec_chars n) \<le> Suc k"
proof (induction k arbitrary: n)
  case 0
  then show ?case by (simp add: dec_chars.simps [of n])
next
  case (Suc k)
  then have "n div 10 < 10 ^ Suc k" by (simp add: div_less_iff_less_mult mult.commute)
  from Suc.IH [OF this] show ?case by (simp add: dec_chars.simps [of n])
qed

lemma parse_index:
  assumes "0 \<le> i" "i \<le> 32767" and "rest \<noteq> []" "\<not> is_digit (hd rest)"
  shows "parse_osc_decimal (int_chars i @ rest) 0 = (i, length (int_chars i))"
proof -
  note D = dec_chars_digits [of "nat i"]
  have ds: "int_chars i = dec_chars (nat i)" using assms(1) by (simp add: int_chars_def)
  have ne: "dec_chars (nat i) \<noteq> []" by (simp add: dec_chars.simps [of "nat i"])
  have l5: "length (dec_chars (nat i)) \<le> 5" using assms length_dec_chars [of "nat i" 4] by simp
  have tw: "takeWhile is_digit (take 5 (dec_chars (nat i) @ rest)) = dec_chars (nat i)"
  proof -
    have "take 5 (dec_chars (nat i) @ rest) = dec_chars (nat i) @ take (5 - length (dec_chars (nat i))) rest"
      using l5 by simp
    moreover have "takeWhile is_digit (take k rest) = []" for k using assms(3,4) by (cases rest; cases k) auto
    ultimately show ?thesis using D(1) by (simp add: takeWhile_append2)
  qed
  have sp: "takeWhile (\<lambda>ch. ch = 0x20) (dec_chars (nat i) @ rest) = []"
  proof (cases "dec_chars (nat i)")
    case (Cons c cs)
    then have "is_digit c" using D(1) by simp
    then show ?thesis using Cons by (simp add: is_digit_def)
  qed (use ne in simp)
  have "\<not> 32767 < nat i" using assms by linarith
  then show ?thesis using assms D(2) ne by (simp add: parse_osc_decimal_def ds sp tw Let_def del: take_append)
qed


lemma hex_byte_chars: "v < 256 \<Longrightarrow> c \<in> set (hex_byte v) \<Longrightarrow> \<not> is_c0_or_del c \<and> c \<noteq> 0x1B"
proof -
  have all: "\<forall>n < 16. \<not> is_c0_or_del (asc ''0123456789abcdef'' ! n)" by code_simp
  assume "v < 256" "c \<in> set (hex_byte v)"
  moreover from this have "v div 16 < 16" "v mod 16 < 16" by auto
  ultimately have "\<not> is_c0_or_del c" using all by (auto simp: hex_byte_def)
  then show ?thesis by (auto simp: is_c0_or_del_def)
qed

lemma int_chars_clean: "0 \<le> i \<Longrightarrow> i \<le> 32767 \<Longrightarrow> c \<in> set (int_chars i) \<Longrightarrow> \<not> is_c0_or_del c \<and> c \<noteq> 0x1B"
  using int_chars_param(1) [of i] by (auto simp: is_digit_def is_c0_or_del_def)

definition palette_payload :: "int \<Rightarrow> nat \<Rightarrow> nat \<Rightarrow> nat \<Rightarrow> u32" where
  "palette_payload i r g b =
     int_chars i @ [0x3B] @ [0x72, 0x67, 0x62, 0x3A] @ hex_byte r @ [0x2F] @ hex_byte g @ [0x2F] @ hex_byte b"

lemma length_hex_byte [simp]: "length (hex_byte v) = 2"
  by (simp add: hex_byte_def)

lemma slash_hex:
  assumes "v < 256"
  shows "takeWhile (\<lambda>ch. ch = 0x2F) (hex_byte v @ rest) = []" "takeWhile (\<lambda>ch. ch = 0x2F) (hex_byte v) = []"
proof -
  have "v div 16 < 16" using assms by auto
  then show "takeWhile (\<lambda>ch. ch = 0x2F) (hex_byte v @ rest) = []" "takeWhile (\<lambda>ch. ch = 0x2F) (hex_byte v) = []"
    using hex_digits [of "v div 16"] by (simp_all add: hex_byte_def)
qed

lemma dispatch_palette:
  assumes "0 \<le> i" "i \<le> 32767" and "r < 256" "g < 256" "b < 256"
  shows "dispatch_osc_palette (palette_payload i r g b) q = (set_payload (P_palette i r g b) q, set_palette_color)"
proof -
  let ?n = "length (int_chars i)"
  let ?A = "int_chars i @ [0x3B] @ [0x72, 0x67, 0x62, 0x3A]"
  have i: "parse_osc_decimal (palette_payload i r g b) 0 = (i, ?n)"
    using parse_index [OF assms(1,2), of "[0x3B] @ [0x72, 0x67, 0x62, 0x3A] @ hex_byte r @ [0x2F] @ hex_byte g @ [0x2F] @ hex_byte b"]
    by (simp add: palette_payload_def is_digit_def)
  have r: "parse_osc_hex (palette_payload i r g b) (?n + 5) = (r, ?n + 8)"
    using parse_hex_byte [OF assms(3), of ?A "?n + 5" "[0x2F] @ hex_byte g @ [0x2F] @ hex_byte b"]
    by (simp add: palette_payload_def is_hex_digit_def is_digit_def slash_hex assms)
  have g: "parse_osc_hex (palette_payload i r g b) (?n + 8) = (g, ?n + 11)"
    using parse_hex_byte [OF assms(4), of "?A @ hex_byte r @ [0x2F]" "?n + 8" "[0x2F] @ hex_byte b"]
    by (simp add: palette_payload_def is_hex_digit_def is_digit_def slash_hex assms)
  have b: "parse_osc_hex (palette_payload i r g b) (?n + 11) = (b, ?n + 13)"
    using parse_hex_byte [OF assms(5), of "?A @ hex_byte r @ [0x2F] @ hex_byte g @ [0x2F]" "?n + 11" "[]"]
    by (simp add: palette_payload_def)
  have at: "char_in (palette_payload i r g b) ?n [0x3B]" "?n + 5 \<le> length (palette_payload i r g b)"
    "char_in (palette_payload i r g b) (?n + 1) [0x72, 0x52]" "char_in (palette_payload i r g b) (?n + 2) [0x67, 0x47]"
    "char_in (palette_payload i r g b) (?n + 3) [0x62, 0x42]" "char_in (palette_payload i r g b) (?n + 4) [0x3A]"
    by (simp_all add: palette_payload_def char_in_def nth_append)
  have pos: "?n + 1 + 1 = ?n + 2" "?n + 1 + 2 = ?n + 3" "?n + 1 + 3 = ?n + 4" "?n + 1 + 4 = ?n + 5" "?n + 13 \<noteq> ?n + 5"
    by simp_all
  show ?thesis
    unfolding dispatch_osc_palette_def i Let_def prod.case if_P [OF at(1)] pos(1-4) r g b
    by (simp only: at pos(5) simp_thms if_True if_False)
qed

lemma palette_message:
  assumes "0 \<le> i" "i \<le> 32767" and "r < 256" "g < 256" "b < 256"
  shows "decodes set_palette_color (P_palette i r g b) ([0x1B, 0x5D] @ ([0x34, 0x3B] @ palette_payload i r g b) @ [0x07])"
  unfolding decodes_def
proof (intro allI impI)
  fix p assume p: "clean p"
  have chars: "\<forall>c \<in> set (palette_payload i r g b). \<not> is_c0_or_del c \<and> c \<noteq> 0x1B"
    using hex_byte_chars [OF assms(3)] hex_byte_chars [OF assms(4)] hex_byte_chars [OF assms(5)] int_chars_clean [OF assms(1,2)]
    by (auto simp: palette_payload_def is_c0_or_del_def)
  then have body: "\<forall>c \<in> set ([0x34, 0x3B] @ palette_payload i r g b). \<not> is_c0_or_del c"
    by (auto simp: is_c0_or_del_def)
  have fin: "find_terminator (palette_payload i r g b @ [0x07]) = Some (length (palette_payload i r g b))"
    using chars by (intro find_terminator_bel) (auto simp: is_c0_or_del_def)
  have "dispatch_osc q = (set_payload (P_palette i r g b) q, set_palette_color)"
    if "p_raw q = [0x1B, 0x5D] @ ([0x34, 0x3B] @ palette_payload i r g b) @ [0x07]" "p_seq_start q = 0" for q
    using that fin by (simp add: dispatch_osc_def is_digit_def to_short_def dispatch_palette assms)
  from osc_decodes [OF p body this]
  show "\<exists>p' raw m. vt_feeds p ([0x1B, 0x5D] @ ([0x34, 0x3B] @ palette_payload i r g b) @ [0x07]) = Some (p', [E_msg set_palette_color raw m])
    \<and> clean p' \<and> (has_payload set_palette_color \<longrightarrow> m_payload m = P_palette i r g b)"
    by blast
qed

end
