(* ===== verification/Roundtrip_Send.thy ===== *)
theory Roundtrip_Send
  imports Vt_Roundtrip
begin

text \<open>
  \<open>vt_msg_send\<close> (\<open>libcorehost/pipe_bridge.hpp\<close>) read back by \<open>vt_parser\<close>: every message of \<open>sendable\<close>, and a
  stream of them.
\<close>

lemma carriage_return_message: "decodes carriage_return pl [0x0D]"
  unfolding decodes_def
proof (intro allI impI)
  fix p :: vt_parser assume p: "clean p"
  then have g: "ground_inv p" by (simp add: clean_def)
  let ?p1 = "set_payload (P_text []) p"
  have c: "parse_ground_control 0x0D p = Some (?p1, carriage_return)"
    by (simp add: parse_ground_control_def classify_ground_char_def Let_def)
  obtain p' raw m where f: "vt_feed p 0x0D = Some (p', [E_msg carriage_return raw m])" "p' = vt_reset ?p1"
    using vt_parse_control [OF g, of "0x0D" "[]"] c
    by (simp add: vt_feed_def result_events_def make_result_def)
  have "clean p'"
    using p f(2) by (simp add: clean_def ground_inv_def vt_reset_def set_payload_def fields_inv_def)
  moreover have "vt_feeds p [0x0D] = Some (p', [E_msg carriage_return raw m])" using f(1) by simp
  moreover have "\<not> has_payload carriage_return" by (simp add: has_payload_def)
  ultimately show "\<exists>p' raw m. vt_feeds p [0x0D] = Some (p', [E_msg carriage_return raw m]) \<and> clean p'
      \<and> (has_payload carriage_return \<longrightarrow> m_payload m = pl)"
    by blast
qed

text \<open>The dispatch of one final, unfolded at a concrete character.\<close>

lemmas csi_finals = dispatch_csi_def dispatch_csi_final_def dispatch_csi_tail_def dispatch_csi_counted_def
  get_positive_param_def get_param_def clamp_param_def set_payload_def Let_def has_payload_def

lemma one_number:
  assumes "0 \<le> n" "n \<le> 32767"
    and "\<And>q::vt_parser. p_params q = [n] \<Longrightarrow> \<not> p_private_marker q \<Longrightarrow> p_intermediate q = (case im of [] \<Rightarrow> 0 | c # _ \<Rightarrow> c) \<Longrightarrow>
      \<not> p_csi_overflow q \<Longrightarrow>
      snd (dispatch_csi t q) = i \<and> (has_payload i \<longrightarrow> m_payload (p_msg (fst (dispatch_csi t q))) = pl)"
    and "im = [] \<or> im = [0x20]" and "0x40 \<le> t" "t \<le> 0x7E" and "i \<noteq> continue_msg"
  shows "decodes i pl (csi_bytes False [int_chars n] im t)"
  by (rule csi_message [where vs = "[n]" and im = im and priv = False]) (use assms in \<open>auto simp: MAX_PARAMS_def\<close>)

lemma erase_message:
  assumes "0 \<le> n" "n \<le> 32767"
  shows "decodes (Screen erase_in_display) (P_erase_mode n) (csi_bytes False [int_chars n] [] 0x4A)"
    "decodes (Screen erase_in_line) (P_erase_mode n) (csi_bytes False [int_chars n] [] 0x4B)"
  by (rule one_number; use assms in \<open>simp add: csi_finals\<close>)+

lemma absolute_message:
  assumes "1 \<le> n" "n \<le> 32767"
  shows "decodes (Cursor cursor_vert_absolute) (P_position n 0) (csi_bytes False [int_chars n] [] 0x64)"
    "decodes (Cursor cursor_horiz_absolute) (P_position 0 n) (csi_bytes False [int_chars n] [] 0x47)"
  by (rule one_number; use assms in \<open>simp add: csi_finals\<close>)+

lemma shape_message:
  assumes "0 \<le> n" "n \<le> 32767"
  shows "decodes (Cursor set_cursor_shape) (P_cursor_shape n) (csi_bytes False [int_chars n] [0x20] 0x71)"
  by (rule one_number; use assms in \<open>simp add: csi_finals\<close>)

lemma fixed_number_message:
  "decodes (Mode tab_clear_current) pl (csi_bytes False [int_chars 0] [] 0x67)"
  "decodes (Mode tab_clear_all) pl (csi_bytes False [int_chars 3] [] 0x67)"
  "decodes (Query report_cursor_position) pl (csi_bytes False [int_chars 6] [] 0x6E)"
  "decodes (Query device_attributes) pl (csi_bytes False [int_chars 0] [] 0x63)"
  by (rule one_number; simp add: csi_finals)+

lemma two_numbers:
  assumes "0 \<le> m" "m \<le> 32767" "0 \<le> n" "n \<le> 32767"
    and "\<And>q::vt_parser. p_params q = [m, n] \<Longrightarrow> \<not> p_private_marker q \<Longrightarrow> p_intermediate q = 0 \<Longrightarrow> \<not> p_csi_overflow q \<Longrightarrow>
      snd (dispatch_csi t q) = i \<and> (has_payload i \<longrightarrow> m_payload (p_msg (fst (dispatch_csi t q))) = pl)"
    and "0x40 \<le> t" "t \<le> 0x7E" and "i \<noteq> continue_msg"
  shows "decodes i pl (csi_bytes False [int_chars m, int_chars n] [] t)"
  by (rule csi_message [where vs = "[m, n]" and im = "[]" and priv = False]) (use assms in \<open>auto simp: MAX_PARAMS_def\<close>)

lemma region_message:
  assumes "0 \<le> m" "m \<le> 32767" "0 \<le> n" "n \<le> 32767"
  shows "decodes (Screen set_scrolling_region) (P_scroll_region m n) (csi_bytes False [int_chars m, int_chars n] [] 0x72)"
  by (rule two_numbers; use assms in \<open>simp add: csi_finals\<close>)

lemma position_message:
  assumes "1 \<le> m" "m \<le> 32767" "1 \<le> n" "n \<le> 32767"
  shows "decodes (Cursor cursor_position) (P_position m n) (csi_bytes False [int_chars m, int_chars n] [] 0x48)"
  by (rule two_numbers; use assms in \<open>simp add: csi_finals\<close>)

section \<open>What is written\<close>

text \<open>The fixed sequences, as numbers.\<close>

lemma fixed_bytes:
  "0x1B # asc ''[?12h'' = csi_bytes True [int_chars 12] [] 0x68" "0x1B # asc ''[?12l'' = csi_bytes True [int_chars 12] [] 0x6C"
  "0x1B # asc ''[?25h'' = csi_bytes True [int_chars 25] [] 0x68" "0x1B # asc ''[?25l'' = csi_bytes True [int_chars 25] [] 0x6C"
  "0x1B # asc ''[?1h'' = csi_bytes True [int_chars 1] [] 0x68" "0x1B # asc ''[?1l'' = csi_bytes True [int_chars 1] [] 0x6C"
  "0x1B # asc ''[?3h'' = csi_bytes True [int_chars 3] [] 0x68" "0x1B # asc ''[?3l'' = csi_bytes True [int_chars 3] [] 0x6C"
  "0x1B # asc ''[?1049h'' = csi_bytes True [int_chars 1049] [] 0x68" "0x1B # asc ''[?1049l'' = csi_bytes True [int_chars 1049] [] 0x6C"
  "0x1B # asc ''[0g'' = csi_bytes False [int_chars 0] [] 0x67" "0x1B # asc ''[3g'' = csi_bytes False [int_chars 3] [] 0x67"
  "0x1B # asc ''[6n'' = csi_bytes False [int_chars 6] [] 0x6E" "0x1B # asc ''[0c'' = csi_bytes False [int_chars 0] [] 0x63"
  "0x1B # asc ''7'' = [0x1B, 0x37]" "0x1B # asc ''8'' = [0x1B, 0x38]" "0x1B # asc ''H'' = [0x1B, 0x48]"
  "0x1B # asc ''M'' = [0x1B, 0x4D]" "0x1B # asc ''='' = [0x1B, 0x3D]" "0x1B # asc ''>'' = [0x1B, 0x3E]"
  "0x1B # asc ''(0'' = [0x1B, 0x28, 0x30]" "0x1B # asc ''(B'' = [0x1B, 0x28, 0x42]"
  by code_simp+

lemma shape_buffer:
  "vo_buffer (run_all [vt_append_str (0x1B # asc ''[''), vt_append_int n, vt_append_str (asc '' q'')] st)
     = vo_buffer st @ csi_bytes False [int_chars n] [0x20] 0x71"
  by (simp add: out_defs csi_bytes_def asc_def)

lemma region_buffer:
  "vo_buffer (run_all [vt_append_str (0x1B # asc ''[''), vt_append_int t, vt_append_char 0x3B, vt_append_int u, vt_append_char 0x72] st)
     = vo_buffer st @ csi_bytes False [int_chars t, int_chars u] [] 0x72"
  by (simp add: out_defs csi_bytes_def asc_def)

lemma hex_buffer: "vo_buffer (vt_append_hex_byte v st) = vo_buffer st @ hex_byte v"
  by (simp add: out_defs hex_byte_def Let_def)

lemma palette_buffer:
  "vo_buffer (vt_send_palette i r g b st)
     = vo_buffer st @ [0x1B, 0x5D] @ ([0x34, 0x3B] @ palette_payload i r g b) @ [0x07]"
proof -
  have "asc '']4;'' = [0x5D, 0x34, 0x3B]" "asc ''rgb:'' = [0x72, 0x67, 0x62, 0x3A]" by code_simp+
  then show ?thesis
    by (simp add: vt_send_palette_def run_all_def vt_append_str_def vt_append_char_def vt_append_int_def append_int_def
        out_append_def palette_payload_def hex_buffer)
qed

lemma map_ascii: "utf8_ascii utf8 \<Longrightarrow> \<forall>c \<in> set t. title_char c \<Longrightarrow> concat (map utf8 t) = t"
  by (induction t) (auto simp: utf8_ascii_def title_char_def)

lemma title_buffer:
  assumes "utf8_ascii utf8" "t \<noteq> []" "\<forall>c \<in> set t. title_char c"
  shows "vo_buffer (vt_write_window_title utf8 t st) = vo_buffer st @ [0x1B, 0x5D] @ ([0x30, 0x3B] @ t) @ [0x07]"
  using assms(2) map_ascii [OF assms(1,3)] by (simp add: out_defs asc_def)

section \<open>Each family\<close>

definition sends :: "(vt_out \<Rightarrow> vt_out) \<Rightarrow> vt_message_id \<Rightarrow> vt_payload \<Rightarrow> bool" where
  "sends f i pl \<longleftrightarrow> (\<exists>bytes. (\<forall>st. vo_buffer (f st) = vo_buffer st @ bytes) \<and> decodes i pl bytes)"

lemma sends_str: "decodes i pl s \<Longrightarrow> sends (vt_append_str s) i pl"
  unfolding sends_def using send_buffers(1) by blast

lemma sends_count:
  assumes "1 \<le> n" "n \<le> 32767" "map_option fst (dispatch_csi_counted t) = Some i"
  shows "sends (vt_send_count t n) i (P_count n)" "sends (vt_send_counted t n) i (P_count n)"
proof -
  from assms(3) obtain b where "dispatch_csi_counted t = Some (i, b)" by auto
  from count_message [OF assms(1,2) this]
  show "sends (vt_send_count t n) i (P_count n)" "sends (vt_send_counted t n) i (P_count n)"
    unfolding sends_def using send_buffers(2,3) by blast+
qed

lemma sends_number: "decodes i pl (csi_bytes False [int_chars n] [] t) \<Longrightarrow> sends (vt_send_count t n) i pl"
  unfolding sends_def using send_buffers(2) by blast

lemma private_set_messages:
  "decodes (Cursor cursor_enable_blinking) pl (0x1B # asc ''[?12h'')" "decodes (Cursor cursor_disable_blinking) pl (0x1B # asc ''[?12l'')"
  "decodes (Cursor cursor_show) pl (0x1B # asc ''[?25h'')" "decodes (Cursor cursor_hide) pl (0x1B # asc ''[?25l'')"
  "decodes (Cursor cursor_keys_app_mode) pl (0x1B # asc ''[?1h'')" "decodes (Cursor cursor_keys_normal_mode) pl (0x1B # asc ''[?1l'')"
  "decodes (Screen set_columns_132) pl (0x1B # asc ''[?3h'')" "decodes (Screen set_columns_80) pl (0x1B # asc ''[?3l'')"
  "decodes (Screen use_alternate_buffer) pl (0x1B # asc ''[?1049h'')" "decodes (Screen use_main_buffer) pl (0x1B # asc ''[?1049l'')"
  unfolding fixed_bytes by (rule private_message; simp add: dec_private_set_def dec_private_reset_def)+

lemma escape_messages:
  "decodes (Cursor save_cursor) pl (0x1B # asc ''7'')" "decodes (Cursor restore_cursor) pl (0x1B # asc ''8'')"
  "decodes (Mode horizontal_tab_set) pl (0x1B # asc ''H'')" "decodes reverse_index pl (0x1B # asc ''M'')"
  "decodes (Mode keypad_app_mode) pl (0x1B # asc ''='')" "decodes (Mode keypad_numeric_mode) pl (0x1B # asc ''>'')"
  unfolding fixed_bytes by (rule esc_message; simp add: dispatch_esc_def has_payload_def)+

lemma charset_messages:
  "decodes (Mode designate_charset_line_drawing) pl (0x1B # asc ''(0'')" "decodes (Mode designate_charset_ascii) pl (0x1B # asc ''(B'')"
  unfolding fixed_bytes by (rule charset_message; simp add: dispatch_charset_def has_payload_def)+

lemmas fixed_messages = private_set_messages escape_messages charset_messages
  fixed_number_message [folded fixed_bytes(11,12,13,14)]

lemma count_okE: "count_ok pl \<Longrightarrow> (\<And>n. pl = P_count n \<Longrightarrow> 1 \<le> n \<Longrightarrow> n \<le> 32767 \<Longrightarrow> thesis) \<Longrightarrow> thesis"
  by (cases pl) (simp_all add: count_ok_def)

text \<open>The counts.\<close>

lemma sends_counts_cursor:
  assumes "count_ok pl"
    and "c \<in> {cursor_up, cursor_down, cursor_forward, cursor_backward, cursor_next_line, cursor_prev_line,
      cursor_forward_tab, cursor_backward_tab}"
  shows "sends (vt_send_cursor c pl) (Cursor c) pl"
  using assms
  by (elim count_okE) (auto simp: vt_send_cursor_def send_count_of_def dispatch_csi_counted_def sends_count)

lemma sends_counts_screen:
  assumes "count_ok pl"
    and "c \<in> {scroll_up, scroll_down, insert_characters, delete_characters, erase_characters, insert_lines, delete_lines}"
  shows "sends (vt_send_screen c pl) (Screen c) pl"
  using assms
  by (elim count_okE) (auto simp: vt_send_screen_def send_count_of_def dispatch_csi_counted_def sends_count)

lemma position_sends:
  assumes "1 \<le> r" "r \<le> 32767" "1 \<le> k" "k \<le> 32767"
  shows "sends (vt_write_cup (to_short (r - 1)) (to_short (k - 1))) (Cursor cursor_position) (P_position r k)"
proof -
  have "to_short (r - 1) + 1 = r" "to_short (k - 1) + 1 = k" using assms by (simp_all add: to_short_id)
  then show ?thesis unfolding sends_def using position_message [OF assms] send_buffers(4) by metis
qed

lemma wire_cursor: "sendable (Cursor c) pl \<Longrightarrow> sends (vt_send_cursor c pl) (Cursor c) pl"
proof -
  assume A: "sendable (Cursor c) pl"
  let ?counts = "{cursor_up, cursor_down, cursor_forward, cursor_backward, cursor_next_line, cursor_prev_line,
      cursor_forward_tab, cursor_backward_tab}"
  let ?absolute = "{cursor_vert_absolute, cursor_horiz_absolute, cursor_position, set_cursor_shape}"
  consider "c \<in> ?counts" | "c \<in> ?absolute" | "c \<notin> ?counts \<union> ?absolute" by blast
  then show ?thesis
  proof cases
    case 1
    then show ?thesis using A by (intro sends_counts_cursor) (auto simp: sendable_def)
  next
    case 2
    have "sends (vt_send_cursor set_cursor_shape pl) (Cursor set_cursor_shape) pl" if "pl = P_cursor_shape n" "0 \<le> n" "n \<le> 32767" for n
      unfolding sends_def using shape_message [OF that(2,3)] shape_buffer that(1)
      by (auto simp: vt_send_cursor_def send_number_of_def)
    then show ?thesis using 2 A
      by (auto simp: sendable_def vt_send_cursor_def send_position_of_def position_sends sends_number absolute_message
          split: vt_payload.splits)
  next
    case 3
    then show ?thesis using A
      by (cases c) (simp_all add: sendable_def vt_send_cursor_def sends_str fixed_messages)
  qed
qed

lemma wire_mode: "sends (vt_send_mode m) (Mode m) pl"
  by (cases m) (simp_all add: vt_send_mode_def sends_str fixed_messages)

lemma wire_screen: "sendable (Screen c) pl \<Longrightarrow> sends (vt_send_screen c pl) (Screen c) pl"
proof -
  assume A: "sendable (Screen c) pl"
  let ?counts = "{scroll_up, scroll_down, insert_characters, delete_characters, erase_characters, insert_lines, delete_lines}"
  let ?number = "{erase_in_display, erase_in_line, set_scrolling_region}"
  consider "c \<in> ?counts" | "c \<in> ?number" | "c \<notin> ?counts \<union> ?number" by blast
  then show ?thesis
  proof cases
    case 1
    then show ?thesis using A by (intro sends_counts_screen) (auto simp: sendable_def)
  next
    case 2
    have "sends (vt_send_screen set_scrolling_region pl) (Screen set_scrolling_region) pl"
      if "pl = P_scroll_region t u" "0 \<le> t" "t \<le> 32767" "0 \<le> u" "u \<le> 32767" for t u
      unfolding sends_def using region_message [OF that(2-5)] region_buffer that(1)
      by (auto simp: vt_send_screen_def)
    then show ?thesis using 2 A
      by (auto simp: sendable_def vt_send_screen_def send_number_of_def sends_number erase_message split: vt_payload.splits)
  next
    case 3
    then show ?thesis using A
      by (cases c) (simp_all add: sendable_def vt_send_screen_def sends_str fixed_messages)
  qed
qed

lemma wire_message:
  assumes "utf8_ascii utf8" and "sendable ident (m_payload msg)"
  shows "sends (vt_msg_send utf8 ident msg) ident (m_payload msg)"
proof (cases ident)
  case (Cursor c)
  then show ?thesis using wire_cursor [of c "m_payload msg"] assms(2) by (simp add: vt_msg_send_def)
next
  case (Mode m)
  then show ?thesis using wire_mode [of m "m_payload msg"] by (simp add: vt_msg_send_def)
next
  case (Screen c)
  then show ?thesis using wire_screen [of c "m_payload msg"] assms(2) by (simp add: vt_msg_send_def)
next
  case (Query k)
  then show ?thesis using assms(2) by (auto simp: vt_msg_send_def sendable_def sends_str fixed_messages)
next
  case set_window_title
  with assms(2) obtain t where t: "m_payload msg = P_title t" "t \<noteq> []" "\<forall>c \<in> set t. title_char c"
    by (auto simp: sendable_def split: vt_payload.splits)
  then show ?thesis
    unfolding sends_def using title_buffer [OF assms(1) t(2,3)] title_message [OF t(3)]
    by (auto simp: vt_msg_send_def set_window_title)
next
  case set_palette_color
  with assms(2) obtain i r g b where p: "m_payload msg = P_palette i r g b" "0 \<le> i" "i \<le> 32767" "r < 256" "g < 256" "b < 256"
    by (auto simp: sendable_def split: vt_payload.splits)
  then show ?thesis
    unfolding sends_def using palette_buffer palette_message [OF p(2-6)]
    by (auto simp: vt_msg_send_def set_palette_color)
next
  case carriage_return
  have "vo_buffer (vt_write_cell utf8 0x0D st) = vo_buffer st @ [0x0D]" for st
    using assms(1) by (simp add: out_defs utf8_ascii_def)
  then show ?thesis
    unfolding sends_def using carriage_return_message by (auto simp: vt_msg_send_def carriage_return)
next
  case reverse_index
  then show ?thesis by (simp add: vt_msg_send_def sends_str fixed_messages)
qed (use assms(2) in \<open>simp_all add: sendable_def\<close>)

section \<open>A stream of messages\<close>

definition send_all :: "(char32 \<Rightarrow> nat list) \<Rightarrow> (vt_message_id \<times> vt_message) list \<Rightarrow> vt_out \<Rightarrow> vt_out" where
  "send_all utf8 msgs st = fold (\<lambda>(ident, msg). vt_msg_send utf8 ident msg) msgs st"

definition read_back :: "vt_message_id \<times> vt_message \<Rightarrow> vt_event \<Rightarrow> bool" where
  "read_back im e \<longleftrightarrow> (\<exists>raw m. e = E_msg (fst im) raw m \<and> (has_payload (fst im) \<longrightarrow> m_payload m = m_payload (snd im)))"

lemma send_all_decodes:
  assumes "utf8_ascii utf8" and "\<forall>im \<in> set msgs. sendable (fst im) (m_payload (snd im))"
  shows "\<exists>bytes. (\<forall>st. vo_buffer (send_all utf8 msgs st) = vo_buffer st @ bytes)
    \<and> (\<forall>p. clean p \<longrightarrow> (\<exists>p' es. vt_feeds p bytes = Some (p', es) \<and> clean p' \<and> list_all2 read_back msgs es))"
  using assms(2)
proof (induction msgs)
  case Nil
  then show ?case by (intro exI [of _ "[]"]) (simp add: send_all_def)
next
  case (Cons im msgs)
  obtain ident msg where im: "im = (ident, msg)" by (cases im)
  obtain b1 where b1: "\<And>st. vo_buffer (vt_msg_send utf8 ident msg st) = vo_buffer st @ b1" "decodes ident (m_payload msg) b1"
    using wire_message [OF assms(1), of ident msg] Cons.prems unfolding sends_def im by auto
  obtain b2 where b2: "\<And>st. vo_buffer (send_all utf8 msgs st) = vo_buffer st @ b2"
    "\<And>p. clean p \<Longrightarrow> \<exists>p' es. vt_feeds p b2 = Some (p', es) \<and> clean p' \<and> list_all2 read_back msgs es"
    using Cons by auto
  have "vo_buffer (send_all utf8 (im # msgs) st) = vo_buffer st @ (b1 @ b2)" for st
    using b1(1) b2(1) by (simp add: send_all_def im)
  moreover have "\<exists>p' es. vt_feeds p (b1 @ b2) = Some (p', es) \<and> clean p' \<and> list_all2 read_back (im # msgs) es"
    if p: "clean p" for p
  proof -
    obtain p1 raw m where p1: "vt_feeds p b1 = Some (p1, [E_msg ident raw m])" "clean p1"
      "has_payload ident \<longrightarrow> m_payload m = m_payload msg"
      using b1(2) p unfolding decodes_def by blast
    obtain p2 es where p2: "vt_feeds p1 b2 = Some (p2, es)" "clean p2" "list_all2 read_back msgs es"
      using b2(2) [OF p1(2)] by blast
    have "parser_inv p" using p by (simp add: clean_def ground_parser_inv)
    from vtf.run_append [OF this] p1(1) p2(1)
    have "vt_feeds p (b1 @ b2) = Some (p2, E_msg ident raw m # es)" by simp
    then show ?thesis using p2 p1(3) by (auto simp: read_back_def im)
  qed
  ultimately show ?case by blast
qed



end
