(* ===== verification/Term_Row.thy ===== *)
theory Term_Row
  imports Roundtrip_Send
begin

text \<open>
  What a terminal does with one row: the bytes are read by the VT parser, and the messages act on the
  row's cells as the VT documentation has them. The line editor is proved against this.
\<close>

section \<open>A terminal row\<close>

text \<open>A row without a right margin: the character of every column, and the cursor's column.\<close>

record term_row =
  tr_cells :: "int \<Rightarrow> char32"
  tr_x :: int

definition row_put :: "char32 \<Rightarrow> term_row \<Rightarrow> term_row" where
  "row_put c t = t\<lparr>tr_cells := (tr_cells t)(tr_x t := c), tr_x := tr_x t + 1\<rparr>"

definition row_message :: "vt_message_id \<Rightarrow> vt_payload \<Rightarrow> term_row \<Rightarrow> term_row" where
  "row_message i pl t =
     (case (i, pl) of
        (Cursor cursor_backward, P_count n) \<Rightarrow> t\<lparr>tr_x := max 0 (tr_x t - n)\<rparr>
      | (Cursor cursor_position, P_position r c) \<Rightarrow> t\<lparr>tr_x := c - 1\<rparr>
      | (Screen delete_characters, P_count n) \<Rightarrow>
          t\<lparr>tr_cells := (\<lambda>c. if c < tr_x t then tr_cells t c else tr_cells t (c + n))\<rparr>
      | (Screen erase_in_line, P_erase_mode m) \<Rightarrow>
          if m = 0 then t\<lparr>tr_cells := (\<lambda>c. if c < tr_x t then tr_cells t c else 0x20)\<rparr> else t
      | _ \<Rightarrow> t)"

fun row_event :: "vt_event \<Rightarrow> term_row \<Rightarrow> term_row" where
  "row_event (E_char c) t = row_put c t"
| "row_event (E_msg i raw m) t = row_message i (m_payload m) t"

text \<open>Bytes that take the row from one state to another, whatever the parser has seen before.\<close>

definition draws :: "u32 \<Rightarrow> term_row \<Rightarrow> term_row \<Rightarrow> bool" where
  "draws bytes t t' \<longleftrightarrow>
     (\<forall>p. clean p \<longrightarrow> (\<exists>p' es. vt_feeds p bytes = Some (p', es) \<and> clean p' \<and> fold row_event es t = t'))"

lemma draws_Nil: "draws [] t t"
  by (simp add: draws_def)

lemma draws_append:
  assumes "draws a t u" "draws b u v"
  shows "draws (a @ b) t v"
  unfolding draws_def
proof (intro allI impI)
  fix p :: vt_parser assume p: "clean p"
  obtain p1 es where p1: "vt_feeds p a = Some (p1, es)" "clean p1" "fold row_event es t = u"
    using assms(1) p unfolding draws_def by blast
  obtain p2 fs where p2: "vt_feeds p1 b = Some (p2, fs)" "clean p2" "fold row_event fs u = v"
    using assms(2) p1(2) unfolding draws_def by blast
  have "parser_inv p" using p by (simp add: clean_def ground_parser_inv)
  from vtf.run_append [OF this] have "vt_feeds p (a @ b) = Some (p2, es @ fs)" using p1(1) p2(1) by simp
  then show "\<exists>p' es. vt_feeds p (a @ b) = Some (p', es) \<and> clean p' \<and> fold row_event es t = v"
    using p1(3) p2(2,3) by auto
qed

lemma clean_reset: "clean p \<Longrightarrow> clean (vt_reset p)"
  by (simp add: clean_def) (simp add: vt_reset_def)

lemma draws_chars:
  assumes "\<forall>c \<in> set cs. title_char c"
  shows "draws cs t (fold row_put cs t)"
  unfolding draws_def
proof (intro allI impI)
  fix p :: vt_parser assume p: "clean p"
  have cs: "\<forall>c \<in> set cs. \<not> (c \<le> 0x1F \<or> c = 0x7F)" using assms by (auto simp: title_char_def)
  show "\<exists>p' es. vt_feeds p cs = Some (p', es) \<and> clean p' \<and> fold row_event es t = fold row_put cs t"
  proof (cases "cs = []")
    case False
    have "row_event \<circ> E_char = row_put" by (simp add: fun_eq_iff)
    then show ?thesis
      using vt_feeds_printable [of p cs] cs p clean_reset [OF p] False by (simp add: clean_def fold_map)
  qed (use p in simp)
qed

lemma draws_message:
  assumes "decodes i pl bytes" "has_payload i"
  shows "draws bytes t (row_message i pl t)"
  using assms unfolding draws_def decodes_def by fastforce

lemma draws_cup:
  assumes "0 \<le> r" "r < 32767" "0 \<le> c" "c < 32767"
  shows "draws (csi_bytes False [int_chars (r + 1), int_chars (c + 1)] [] 0x48) t (t\<lparr>tr_x := c\<rparr>)"
  using draws_message [OF position_message [of "r + 1" "c + 1"]] assms by (simp add: has_payload_def row_message_def)

lemma bare_messages:
  "decodes (Cursor cursor_backward) (P_count 1) (0x1B # asc ''[D'')"
  "decodes (Screen delete_characters) (P_count 1) (0x1B # asc ''[P'')"
  "decodes (Screen erase_in_line) (P_erase_mode 0) (0x1B # asc ''[K'')"
proof -
  have b: "0x1B # asc ''[D'' = csi_bytes False [[]] [] 0x44" "0x1B # asc ''[P'' = csi_bytes False [[]] [] 0x50"
    "0x1B # asc ''[K'' = csi_bytes False [[]] [] 0x4B" by code_simp+
  show "decodes (Cursor cursor_backward) (P_count 1) (0x1B # asc ''[D'')"
    unfolding b using count_message(2) [of 1 "0x44" _ True] by (simp add: dispatch_csi_counted_def)
  show "decodes (Screen delete_characters) (P_count 1) (0x1B # asc ''[P'')"
    unfolding b using count_message(2) [of 1 "0x50" _ False] by (simp add: dispatch_csi_counted_def)
  show "decodes (Screen erase_in_line) (P_erase_mode 0) (0x1B # asc ''[K'')"
    unfolding b by (rule csi_bare_message [OF refl]) (simp_all add: csi_finals)
qed

lemma draws_bare:
  "draws (0x1B # asc ''[D'') t (t\<lparr>tr_x := max 0 (tr_x t - 1)\<rparr>)"
  "draws (0x1B # asc ''[P'') t (t\<lparr>tr_cells := (\<lambda>c. if c < tr_x t then tr_cells t c else tr_cells t (c + 1))\<rparr>)"
  "draws (0x1B # asc ''[K'') t (t\<lparr>tr_cells := (\<lambda>c. if c < tr_x t then tr_cells t c else 0x20)\<rparr>)"
  using bare_messages [THEN draws_message] by (simp_all add: has_payload_def row_message_def)

lemma fold_row_put:
  "fold row_put cs t = t\<lparr>tr_x := tr_x t + int (length cs),
     tr_cells := (\<lambda>c. if tr_x t \<le> c \<and> c < tr_x t + int (length cs) then cs ! nat (c - tr_x t) else tr_cells t c)\<rparr>"
proof (induction cs arbitrary: t)
  case Nil
  have "(\<lambda>c. if tr_x t \<le> c \<and> c < tr_x t then [] ! nat (c - tr_x t) else tr_cells t c) = tr_cells t" by auto
  then show ?case by simp
next
  case (Cons a cs)
  let ?x = "tr_x t" and ?n = "int (length cs)"
  have cells: "(\<lambda>c. if ?x + 1 \<le> c \<and> c < ?x + 1 + ?n then cs ! nat (c - (?x + 1)) else ((tr_cells t)(?x := a)) c)
     = (\<lambda>c. if ?x \<le> c \<and> c < ?x + int (length (a # cs)) then (a # cs) ! nat (c - ?x) else tr_cells t c)"
  proof (rule ext)
    fix c
    show "(if ?x + 1 \<le> c \<and> c < ?x + 1 + ?n then cs ! nat (c - (?x + 1)) else ((tr_cells t)(?x := a)) c)
     = (if ?x \<le> c \<and> c < ?x + int (length (a # cs)) then (a # cs) ! nat (c - ?x) else tr_cells t c)"
    proof (cases "?x < c")
      case True
      then have "nat (c - ?x) = Suc (nat (c - (?x + 1)))" by linarith
      then show ?thesis using True by auto
    qed auto
  qed
  have put: "tr_x (row_put a t) = ?x + 1" "tr_cells (row_put a t) = (tr_cells t)(?x := a)" by (simp_all add: row_put_def)
  show ?case unfolding fold_simps Cons.IH put cells by (simp add: row_put_def)
qed

end
