(* ===== verification/Line_Display.thy ===== *)
theory Line_Display
  imports Line_Edit Term_Row
begin

text \<open>
  The line editor against the terminal: after every key the row shows the line, from the column of the
  prompt on, and the terminal's cursor is at the insertion point. Lines are of printable ASCII here, one
  column and one byte each, and fit the row.
\<close>

section \<open>The bytes of an operation\<close>

definition written :: "line_edit \<Rightarrow> nat list" where
  "written s = le_written s @ vo_buffer (le_out s)"

lemma flush_frame [simp]:
  "le_cooked (vt_flush s) = le_cooked s" "le_cursor (vt_flush s) = le_cursor s" "le_term (vt_flush s) = le_term s"
  "le_history (vt_flush s) = le_history s" "le_output_valid (vt_flush s) = le_output_valid s" "le_pending (vt_flush s) = le_pending s"
  by (simp_all add: vt_flush_def out_flush_def split: prod.split)

lemma cup_to_frame [simp]:
  "le_cooked (cup_to r c s) = le_cooked s" "le_cursor (cup_to r c s) = le_cursor s" "le_term (cup_to r c s) = le_term s"
  "le_history (cup_to r c s) = le_history s" "le_output_valid (cup_to r c s) = le_output_valid s" "le_pending (cup_to r c s) = le_pending s"
  by (simp_all add: cup_to_def)

lemma write_cells_frame [simp]:
  "le_cooked (write_cells u cs s) = le_cooked s" "le_cursor (write_cells u cs s) = le_cursor s" "le_term (write_cells u cs s) = le_term s"
  "le_history (write_cells u cs s) = le_history s" "le_output_valid (write_cells u cs s) = le_output_valid s"
  "le_pending (write_cells u cs s) = le_pending s" "le_written (write_cells u cs s) = le_written s"
  by (induction cs arbitrary: s) (simp_all add: write_cells_def)

lemma written_flush [simp]: "le_output_valid s \<Longrightarrow> written (vt_flush s) = written s"
  by (simp add: written_def vt_flush_def out_flush_def)

lemma written_term [simp]:
  "written (s\<lparr>le_term := x\<rparr>) = written s" "written (s\<lparr>le_history := h\<rparr>) = written s" "written (s\<lparr>le_cooked := l\<rparr>) = written s"
  "written (s\<lparr>le_cursor := n\<rparr>) = written s"
  by (simp_all add: written_def)

lemma written_str: "written (on_out (vt_append_str b) s) = written s @ b" "written (on_out (vt_append_char c) s) = written s @ [c]"
  by (simp_all add: written_def out_defs)

lemma written_cup: "le_output_valid s \<Longrightarrow> written (cup_to r c s) = written s @ csi_bytes False [int_chars (r + 1), int_chars (c + 1)] [] 0x48"
  unfolding cup_to_def by (simp add: send_buffers(4)) (simp add: written_def send_buffers(4))

lemma written_cell:
  assumes "utf8_ascii u" "title_char c"
  shows "written (on_out (vt_write_cell u c) s) = written s @ [c]"
  using assms by (simp add: written_def out_defs utf8_ascii_def title_char_def)

lemma written_cells:
  assumes "utf8_ascii u" "\<forall>c \<in> set cs. title_char c"
  shows "written (write_cells u cs s) = written s @ cs"
  using assms(2)
proof (induction cs arbitrary: s)
  case (Cons c cs)
  have "write_cells u (c # cs) s = write_cells u cs (on_out (vt_write_cell u c) s)" by (simp add: write_cells_def)
  then show ?case using Cons written_cell [OF assms(1), of c s] by simp
qed (simp add: write_cells_def)

section \<open>Line and row\<close>

definition pad :: "u32 \<Rightarrow> nat \<Rightarrow> char32" where
  "pad cs i = (if i < length cs then cs ! i else 0x20)"

abbreviation prompt_end :: "line_edit \<Rightarrow> int" where
  "prompt_end s \<equiv> tc_input_column_start (le_term s)"

definition shows_line :: "line_edit \<Rightarrow> term_row \<Rightarrow> bool" where
  "shows_line s t \<longleftrightarrow> tr_x t = prompt_end s + int (le_cursor s)
     \<and> (\<forall>i. tr_cells t (prompt_end s + int i) = pad (le_cooked s) i)"

text \<open>The editor's own book-keeping is right, and the line fits columns a CUP can name.\<close>

definition tracks :: "line_edit \<Rightarrow> bool" where
  "tracks s \<longleftrightarrow> tc_cursor_valid (le_term s) \<and> le_output_valid s \<and> le_cursor s \<le> length (le_cooked s)
     \<and> 0 \<le> prompt_end s \<and> prompt_end s + int (length (le_cooked s)) < 32767
     \<and> tc_input_column_end (le_term s) = prompt_end s + int (length (le_cooked s))
     \<and> cX (tc_cursor (le_term s)) = prompt_end s + int (le_cursor s)
     \<and> 0 \<le> cY (tc_cursor (le_term s)) \<and> cY (tc_cursor (le_term s)) < 32767"

definition renders :: "line_edit \<Rightarrow> line_edit \<Rightarrow> bool" where
  "renders s s' \<longleftrightarrow> prompt_end s' = prompt_end s \<and> tracks s'
     \<and> (\<exists>bytes. written s' = written s @ bytes \<and>
          (\<forall>t. shows_line s t \<longrightarrow>
             (\<exists>t'. draws bytes t t' \<and> shows_line s' t' \<and> (\<forall>c < prompt_end s. tr_cells t' c = tr_cells t c))))"

lemma renders_same:
  assumes "tracks s'" "le_cooked s' = le_cooked s" "le_cursor s' = le_cursor s" "le_term s' = le_term s" "written s' = written s"
  shows "renders s s'"
  unfolding renders_def using assms draws_Nil by (auto simp: shows_line_def)

text \<open>Printing from the insertion point on, and deleting there.\<close>

lemma reprint_shows:
  assumes "\<forall>i. tr_cells t (x + int i) = pad old i" "tr_x t = x + int k" "k \<le> length old" "length old \<le> k + length sfx"
  shows "tr_cells (fold row_put sfx t) (x + int i) = pad (take k old @ sfx) i"
    "c < x \<Longrightarrow> tr_cells (fold row_put sfx t) c = tr_cells t c"
    "tr_x (fold row_put sfx t) = x + int k + int (length sfx)"
proof -
  have "nat (int i - int k) = i - k" by simp
  then show "tr_cells (fold row_put sfx t) (x + int i) = pad (take k old @ sfx) i"
    using assms by (auto simp: fold_row_put pad_def nth_append)
qed (use assms(2) in \<open>simp_all add: fold_row_put\<close>)

lemma delete_shows:
  assumes "\<forall>i. tr_cells t (x + int i) = pad old i" "tr_x t = x + int k" "k < length old"
  shows "(if x + int i < tr_x t then tr_cells t (x + int i) else tr_cells t (x + int i + 1)) = pad (take k old @ drop (k + 1) old) i"
proof -
  have "x + int i + 1 = x + int (i + 1)" by simp
  then have "tr_cells t (x + int i + 1) = pad old (i + 1)" using assms(1) by metis
  then show ?thesis using assms by (auto simp: pad_def nth_append)
qed

section \<open>Inserting\<close>

lemma cooked_append_fields [simp]:
  "le_cooked (cooked_append c s) = take (le_cursor s) (le_cooked s) @ [c] @ drop (le_cursor s) (le_cooked s)"
  "le_cursor (cooked_append c s) = le_cursor s + 1" "le_term (cooked_append c s) = le_term s"
  "le_output_valid (cooked_append c s) = le_output_valid s" "written (cooked_append c s) = written s"
  by (simp_all add: cooked_append_def written_def)

text \<open>What is drawn for an inserted character: the character, and behind the end of the line the rest of it.\<close>

lemma insert_draws:
  assumes "tracks s" "title_char c" "\<forall>c \<in> set (le_cooked s). title_char c"
    and s': "prompt_end s' = prompt_end s" "tracks s'" "le_cursor s' = le_cursor s + 1"
      "le_cooked s' = take (le_cursor s) (le_cooked s) @ [c] @ drop (le_cursor s) (le_cooked s)"
    and w: "if le_cursor s = length (le_cooked s) then written s' = written s @ [c]
      else written s' = written s @ (c # drop (le_cursor s) (le_cooked s))
        @ csi_bytes False [int_chars (cY (tc_cursor (le_term s)) + 1), int_chars (cX (tc_cursor (le_term s)) + 1 + 1)] [] 0x48"
  shows "renders s s'"
proof -
  let ?k = "le_cursor s" and ?old = "le_cooked s" and ?x = "prompt_end s"
  let ?sfx = "c # drop ?k ?old"
  have k: "?k \<le> length ?old" "0 \<le> ?x" "?x + int (length ?old) < 32767" using assms(1) by (simp_all add: tracks_def)
  have room: "?x + int ?k + 1 < 32767" using s'(1-3) s'(4) by (auto simp: tracks_def)
  have sfx: "\<forall>c \<in> set ?sfx. title_char c" using assms(2,3) by (auto dest: in_set_dropD)
  define cup where "cup = csi_bytes False [int_chars (cY (tc_cursor (le_term s)) + 1), int_chars (cX (tc_cursor (le_term s)) + 1 + 1)] [] 0x48"
  have row: "\<exists>t'. draws (if ?k = length ?old then [c] else ?sfx @ cup) t t' \<and> shows_line s' t' \<and> (\<forall>c < ?x. tr_cells t' c = tr_cells t c)"
    if "shows_line s t" for t
  proof -
    have t: "\<forall>i. tr_cells t (?x + int i) = pad ?old i" "tr_x t = ?x + int ?k" using that by (simp_all add: shows_line_def)
    have len: "length ?old \<le> ?k + length ?sfx" by simp
    let ?t' = "(fold row_put ?sfx t)\<lparr>tr_x := ?x + int ?k + 1\<rparr>"
    note r = reprint_shows [OF t k(1) len]
    have "shows_line s' ?t'" "\<forall>c < ?x. tr_cells ?t' c = tr_cells t c" using r s' by (simp_all add: shows_line_def)
    moreover have "draws (if ?k = length ?old then [c] else ?sfx @ cup) t ?t'"
    proof (cases "?k = length ?old")
      case True
      then have "fold row_put [c] t = ?t'" using t(2) by (simp add: row_put_def)
      then show ?thesis using draws_chars [of "[c]" t] True assms(2) by simp
    next
      case False
      have "draws cup (fold row_put ?sfx t) ?t'"
        using draws_cup [of "cY (tc_cursor (le_term s))" "?x + int ?k + 1" "fold row_put ?sfx t"] assms(1) k(2) room
        by (simp add: cup_def tracks_def)
      then show ?thesis using draws_append [OF draws_chars [OF sfx]] False by simp
    qed
    ultimately show ?thesis by blast
  qed
  have "written s' = written s @ (if ?k = length ?old then [c] else ?sfx @ cup)" using w by (simp add: cup_def)
  then show ?thesis unfolding renders_def using s'(1,2) row by blast
qed

lemma tracks_insert:
  assumes "tracks s" "prompt_end s + int (length (le_cooked s)) + 1 < 32767"
  shows "tc_input_column_end (le_term s) + 1 < 32767" "to_short (tc_input_column_end (le_term s) + 1) = tc_input_column_end (le_term s) + 1"
    "to_short (cX (tc_cursor (le_term s)) + 1) = cX (tc_cursor (le_term s)) + 1"
  using assms by (simp_all add: tracks_def to_short_id)

abbreviation term_inserted :: "line_edit \<Rightarrow> terminal_cursor_state" where
  "term_inserted s \<equiv> tc_set_x (cX (tc_cursor (le_term s)) + 1)
     ((le_term s)\<lparr>tc_input_column_end := tc_input_column_end (le_term s) + 1\<rparr>)"

lemma insert_renders:
  assumes s: "tracks s" and room: "prompt_end s + int (length (le_cooked s)) + 1 < 32767"
    and c: "title_char c" "\<forall>c \<in> set (le_cooked s). title_char c"
    and s': "le_term s' = term_inserted s" "le_output_valid s'" "le_cursor s' = le_cursor s + 1"
      "le_cooked s' = take (le_cursor s) (le_cooked s) @ [c] @ drop (le_cursor s) (le_cooked s)"
    and w: "if le_cursor s = length (le_cooked s) then written s' = written s @ [c]
      else written s' = written s @ (c # drop (le_cursor s) (le_cooked s))
        @ csi_bytes False [int_chars (cY (tc_cursor (le_term s)) + 1), int_chars (cX (tc_cursor (le_term s)) + 1 + 1)] [] 0x48"
  shows "renders s s'"
proof (rule insert_draws [OF s c _ _ s'(3,4) w])
  show "prompt_end s' = prompt_end s" by (simp add: s'(1))
  show "tracks s'" using s s' room by (simp add: tracks_def)
qed

lemma insert_term:
  assumes s: "tracks s" and room: "prompt_end s + int (length (le_cooked s)) + 1 < 32767"
  shows "tc_advance (tc_extend_bounds (le_term s)) = term_inserted s"
    "tc_set_cursor_x (cX (tc_cursor (le_term s)) + 1) (tc_extend_bounds (le_term s)) = term_inserted s"
    "tc_set_cursor_x (cX (tc_cursor (le_term s)) + 1) (term_inserted s) = term_inserted s"
    "tc_cursor_valid (tc_extend_bounds (le_term s))" "tc_cursor (tc_extend_bounds (le_term s)) = tc_cursor (le_term s)"
  using s tracks_insert [OF s room] by (simp_all add: tc_defs tracks_def Let_def)

lemma insert_char_renders:
  assumes u: "utf8_ascii u" and s: "tracks s" and room: "prompt_end s + int (length (le_cooked s)) + 1 < 32767"
    and c: "title_char c" "\<forall>c \<in> set (le_cooked s). title_char c"
  shows "renders s (edit_insert_char u c c s)" "renders s (edit_insert_codepoint u c s)"
proof -
  have v: "tc_cursor_valid (le_term s)" "le_output_valid s" "le_cursor s \<le> length (le_cooked s)"
    using s by (simp_all add: tracks_def)
  note I = insert_term [OF s room] tracks_insert(3) [OF s room]
  define s1 where "s1 = on_term tc_extend_bounds (cooked_append c (on_history h_break_browse s))"
  have s1: "le_cooked s1 = take (le_cursor s) (le_cooked s) @ [c] @ drop (le_cursor s) (le_cooked s)" "le_cursor s1 = le_cursor s + 1"
    "le_term s1 = tc_extend_bounds (le_term s)" "le_output_valid s1" "written s1 = written s"
    using v(2) by (simp_all add: s1_def)
  have at_end: "cooked_at_end s1 \<longleftrightarrow> le_cursor s = length (le_cooked s)"
    using v(3) by (auto simp: cooked_at_end_def s1)
  note rest = min_absorb2 [OF v(3)]
  have sfx: "\<forall>c \<in> set (drop (le_cursor s) (le_cooked s)). title_char c" using c(2) by (auto dest: in_set_dropD)
  have e: "edit_insert_char u c c s = (if cooked_at_end s1 then on_term tc_advance (echo_byte c s1)
      else on_term (tc_set_cursor_x (to_short (cX (tc_cursor (le_term s)) + 1)))
        (cup_to (cY (tc_cursor (le_term s))) (to_short (cX (tc_cursor (le_term s)) + 1)) (repaint_suffix u (echo_byte c s1))))"
    "edit_insert_codepoint u c s = (if cooked_at_end s1 then on_term tc_advance (on_out (vt_write_cell u c) s1)
      else on_term (tc_set_cursor_x (to_short (cX (tc_cursor (le_term s)) + 1)))
        (cup_to (cY (tc_cursor (le_term s))) (to_short (cX (tc_cursor (le_term s)) + 1))
          (repaint_suffix u (on_term tc_advance (on_out (vt_write_cell u c) s1)))))"
    unfolding edit_insert_char_def edit_insert_codepoint_def s1_def [symmetric] Let_def using I(4,5) s1(3) by simp_all
  show "renders s (edit_insert_char u c c s)"
    by (rule insert_renders [OF s room c])
      (simp_all add: e at_end s1 I rest sfx repaint_suffix_def echo_byte_def written_str written_cells [OF u] written_cup)
  show "renders s (edit_insert_codepoint u c s)"
    by (rule insert_renders [OF s room c])
      (simp_all add: e at_end s1 I rest sfx repaint_suffix_def written_cell [OF u c(1)] written_cells [OF u] written_cup tc_set_cursor_x_def v(1))
qed

section \<open>Moving\<close>

lemma cup_and_track_renders:
  assumes "tracks s" and "n \<le> length (le_cooked s)" and "x = prompt_end s + int n"
  shows "renders s (cup_and_track x (cooked_set_pos n s))"
proof -
  let ?s' = "cup_and_track x (cooked_set_pos n s)"
  let ?cup = "csi_bytes False [int_chars (cY (tc_cursor (le_term s)) + 1), int_chars (x + 1)] [] 0x48"
  have v: "tc_cursor_valid (le_term s)" "le_output_valid s" using assms(1) by (simp_all add: tracks_def)
  have w: "written ?s' = written s @ ?cup" by (simp add: cup_and_track_def cooked_set_pos_def v written_cup)
  have f: "le_cooked ?s' = le_cooked s" "le_cursor ?s' = n" "le_term ?s' = tc_set_x x (le_term s)" "le_output_valid ?s'"
    by (simp_all add: cup_and_track_def cooked_set_pos_def v tc_set_cursor_x_def)
  have "tracks ?s'" using assms f by (simp add: tracks_def)
  moreover have "draws ?cup t (t\<lparr>tr_x := x\<rparr>)" for t
    using assms by (intro draws_cup) (simp_all add: tracks_def)
  ultimately show ?thesis
    unfolding renders_def using w f assms(3) by (fastforce simp: shows_line_def)
qed

lemma move_renders:
  assumes "tracks s"
  shows "renders s (edit_move_left s)" "renders s (edit_move_right s)" "renders s (edit_home s)" "renders s (edit_end s)"
proof -
  have k: "le_cursor s \<le> length (le_cooked s)" "0 \<le> prompt_end s" "prompt_end s + int (length (le_cooked s)) < 32767"
    "tc_input_column_end (le_term s) = prompt_end s + int (length (le_cooked s))"
    using assms by (simp_all add: tracks_def)
  have col: "term_cursor_col (cooked_set_pos n s) = prompt_end s + int n" if "n \<le> length (le_cooked s)" for n
    using that k by (simp add: term_cursor_col_def tc_column_for_offset_def cooked_set_pos_def to_short_id)
  have same: "renders s s" using assms by (intro renders_same) simp_all
  show "renders s (edit_move_left s)"
  proof (cases "le_cursor s")
    case (Suc m)
    then show ?thesis using cup_and_track_renders [OF assms, of m] col [of m] k by (simp add: edit_move_left_def Let_def)
  qed (use same in \<open>simp add: edit_move_left_def\<close>)
  show "renders s (edit_move_right s)"
    using cup_and_track_renders [OF assms, of "le_cursor s + 1"] col [of "le_cursor s + 1"] k same
    by (simp add: edit_move_right_def Let_def)
  show "renders s (edit_home s)"
    using cup_and_track_renders [OF assms, of 0] by (simp add: edit_home_def Let_def cooked_set_pos_def)
  show "renders s (edit_end s)"
    using cup_and_track_renders [OF assms, of "length (le_cooked s)"] k(4) by (simp add: edit_end_def Let_def cooked_set_pos_def)
qed

section \<open>Deleting\<close>

lemma drawn_delete:
  assumes "\<forall>i. tr_cells t (x + int i) = pad old i" "tr_x t = x + int k" "k < length old"
  shows "\<exists>t'. draws (0x1B # asc ''[P'') t t' \<and> tr_x t' = x + int k
    \<and> (\<forall>i. tr_cells t' (x + int i) = pad (take k old @ drop (k + 1) old) i) \<and> (\<forall>c < x. tr_cells t' c = tr_cells t c)"
proof -
  let ?t' = "t\<lparr>tr_cells := (\<lambda>c. if c < tr_x t then tr_cells t c else tr_cells t (c + 1))\<rparr>"
  have "draws (0x1B # asc ''[P'') t ?t'" by (rule draws_bare)
  moreover have "\<forall>i. tr_cells ?t' (x + int i) = pad (take k old @ drop (k + 1) old) i"
    using delete_shows [OF assms] by simp
  ultimately show ?thesis using assms(2) by (intro exI [of _ ?t']) auto
qed

lemma delete_renders:
  assumes "tracks s"
  shows "renders s (edit_delete s)"
proof (cases "le_cursor s < length (le_cooked s)")
  case False
  then show ?thesis
    using assms by (intro renders_same) (simp_all add: edit_delete_def Let_def tracks_def)
next
  case True
  let ?s' = "edit_delete s"
  have v: "le_output_valid s" "0 \<le> prompt_end s" "prompt_end s + int (length (le_cooked s)) < 32767"
    "tc_input_column_end (le_term s) = prompt_end s + int (length (le_cooked s))"
    using assms by (simp_all add: tracks_def)
  have f: "le_cooked ?s' = take (le_cursor s) (le_cooked s) @ drop (le_cursor s + 1) (le_cooked s)" "le_cursor ?s' = le_cursor s"
    "le_term ?s' = tc_retract_bounds (le_term s)" "le_output_valid ?s'"
    using True v(1) by (simp_all add: edit_delete_def cooked_pop_at_def Let_def)
  have w: "written ?s' = written s @ 0x1B # asc ''[P''"
    using True v(1) by (simp add: edit_delete_def cooked_pop_at_def Let_def) (simp add: written_def out_defs)
  have t: "tc_retract_bounds (le_term s) = (le_term s)\<lparr>tc_input_column_end := tc_input_column_end (le_term s) - 1\<rparr>"
  proof -
    have "le_cooked s \<noteq> []" using True by auto
    then show ?thesis using v by (simp add: tc_retract_bounds_def to_short_id)
  qed
  have "tracks ?s'" using assms True f(1-4) unfolding t by (simp add: tracks_def)
  moreover have "\<exists>t'. draws (0x1B # asc ''[P'') t t' \<and> shows_line ?s' t' \<and> (\<forall>c < prompt_end s. tr_cells t' c = tr_cells t c)"
    if "shows_line s t" for t
    using drawn_delete [of t "prompt_end s" "le_cooked s" "le_cursor s"] that True f(1-3) by (simp add: shows_line_def t)
  ultimately show ?thesis unfolding renders_def using f(3) w by (auto simp: t)
qed

lemma drawn_left:
  assumes "shows_line s t" "0 < le_cursor s" "0 \<le> prompt_end s"
  shows "draws (0x1B # asc ''[D'') t (t\<lparr>tr_x := prompt_end s + int (le_cursor s - 1)\<rparr>)"
proof -
  have "max 0 (tr_x t - 1) = prompt_end s + int (le_cursor s - 1)" using assms by (simp add: shows_line_def of_nat_diff)
  then show ?thesis using draws_bare(1) [of t] by simp
qed

lemma backspace_renders:
  assumes u: "utf8_ascii u" and s: "tracks s" and c: "\<forall>c \<in> set (le_cooked s). title_char c"
  shows "renders s (edit_backspace u s)"
proof (cases "le_cursor s")
  case 0
  then show ?thesis using s by (intro renders_same) (simp_all add: edit_backspace_def Let_def tracks_def)
next
  case (Suc k)
  let ?s' = "edit_backspace u s" and ?x = "prompt_end s"
  define new where "new = take k (le_cooked s) @ drop (Suc k) (le_cooked s)"
  define d where "d = 0x1B # asc ''[D'' @ 0x1B # asc ''[P''"
  define cup where "cup = csi_bytes False [int_chars (cY (tc_cursor (le_term s)) + 1), int_chars (?x + int k + 1)] [] 0x48"
  have v: "tc_cursor_valid (le_term s)" "le_output_valid s" "Suc k \<le> length (le_cooked s)" "0 \<le> ?x"
    "?x + int (length (le_cooked s)) < 32767" "tc_input_column_end (le_term s) = ?x + int (length (le_cooked s))"
    "cX (tc_cursor (le_term s)) = ?x + int (Suc k)"
    using s Suc by (simp_all add: tracks_def)
  have new: "length new = length (le_cooked s) - 1" "k \<le> length new" "drop k new = drop (Suc k) (le_cooked s)" "take k new @ drop k new = new"
    "\<forall>c \<in> set (drop k new). title_char c"
    using v(3) c by (auto simp: new_def dest: in_set_dropD in_set_takeD)
  define t1 where "t1 = (le_term s)\<lparr>tc_input_column_end := tc_input_column_end (le_term s) - 1, tc_cursor := (tc_cursor (le_term s))\<lparr>cX := ?x + int k\<rparr>\<rparr>"
  have ne: "le_cooked s \<noteq> []" using v(3) by auto
  have t: "tc_retreat (tc_retract_bounds (le_term s)) = t1"
    using v ne by (simp add: tc_retract_bounds_def tc_retreat_def t1_def to_short_id)
  have vt: "tc_cursor_valid (tc_retract_bounds (le_term s))" using v(1) by (simp add: tc_retract_bounds_def)
  have f: "le_cooked ?s' = new" "le_cursor ?s' = k" "le_term ?s' = t1" "le_output_valid ?s'"
    using Suc v(1,2) vt t by (simp_all add: edit_backspace_def cooked_pop_before_def Let_def new_def repaint_suffix_def)
  define s2 where "s2 = on_term tc_retreat (vt_flush (on_out (vt_append_str d)
      (on_term tc_retract_bounds (cooked_pop_before (on_history h_break_browse s)))))"
  have s2: "le_cooked s2 = new" "le_cursor s2 = k" "le_term s2 = t1" "le_output_valid s2"
    using Suc v(2) t by (simp_all add: s2_def cooked_pop_before_def new_def)
  have "written s2 = written s @ d"
    using Suc v(2) by (simp add: s2_def cooked_pop_before_def) (simp add: written_def out_defs)
  moreover have "?s' = (if \<not> cooked_at_end s2 then cup_to (cY (tc_cursor t1)) (cX (tc_cursor t1)) (repaint_suffix u s2) else s2)"
    using Suc vt s2(3) by (simp add: edit_backspace_def Let_def s2_def d_def cooked_pop_before_def)
  ultimately have w: "written ?s' = written s @ d @ (if length new \<le> k then [] else drop k new @ cup)"
    by (simp add: cooked_at_end_def s2 repaint_suffix_def written_cup written_cells [OF u new(5)] cup_def t1_def)
  have "tracks ?s'" using s f Suc new(1,2) ne by (simp add: tracks_def t1_def)
  moreover have "\<exists>t'. draws (d @ (if length new \<le> k then [] else drop k new @ cup)) t t' \<and> shows_line ?s' t'
      \<and> (\<forall>c < ?x. tr_cells t' c = tr_cells t c)" if sh: "shows_line s t" for t
  proof -
    let ?a = "t\<lparr>tr_x := ?x + int k\<rparr>"
    have a: "draws (0x1B # asc ''[D'') t ?a" using drawn_left [OF sh] Suc v(4) by simp
    have "\<forall>i. tr_cells ?a (?x + int i) = pad (le_cooked s) i" using sh by (simp add: shows_line_def)
    then obtain b where b: "draws (0x1B # asc ''[P'') ?a b" "tr_x b = ?x + int k" "\<forall>i. tr_cells b (?x + int i) = pad new i"
      "\<forall>c < ?x. tr_cells b c = tr_cells t c"
      using drawn_delete [of ?a ?x "le_cooked s" k] v(3) by (auto simp: new_def)
    have ab: "draws d t b" unfolding d_def using draws_append [OF a b(1)] by simp
    show ?thesis
    proof (cases "length new \<le> k")
      case True
      then show ?thesis using ab b(2-4) f(1-3) by (intro exI [of _ b]) (simp add: shows_line_def t1_def)
    next
      case False
      let ?c = "(fold row_put (drop k new) b)\<lparr>tr_x := ?x + int k\<rparr>"
      note r = reprint_shows [OF b(3,2) new(2), of "drop k new", unfolded new(4)]
      have "draws cup (fold row_put (drop k new) b) ?c"
        unfolding cup_def using s v(4,5) new(1,2) ne by (intro draws_cup) (simp_all add: tracks_def)
      then have "draws (d @ drop k new @ cup) t ?c"
        using draws_append [OF ab draws_append [OF draws_chars [OF new(5)]]] by blast
      moreover have "shows_line ?s' ?c" "\<forall>c < ?x. tr_cells ?c c = tr_cells t c"
        using r b(4) f(1-3) by (simp_all add: shows_line_def t1_def)
      ultimately show ?thesis using False by (intro exI [of _ ?c]) simp
    qed
  qed
  ultimately show ?thesis unfolding renders_def using f(3) w by (auto simp: t1_def)
qed

section \<open>Replacing the line\<close>

lemma load_renders:
  assumes u: "utf8_ascii u" and s: "tracks s" and l: "\<forall>c \<in> set l. title_char c" "prompt_end s + int (length l) < 32767"
  shows "renders s (load_history_line u (s\<lparr>le_history := h, le_cooked := l\<rparr>))"
proof -
  let ?s' = "load_history_line u (s\<lparr>le_history := h, le_cooked := l\<rparr>)" and ?x = "prompt_end s"
  define cup where "cup = csi_bytes False [int_chars (cY (tc_cursor (le_term s)) + 1), int_chars (?x + 1)] [] 0x48"
  define t1 where "t1 = tc_set_x (?x + int (length l)) ((le_term s)\<lparr>tc_input_column_end := ?x + int (length l)\<rparr>)"
  have v: "tc_cursor_valid (le_term s)" "le_output_valid s" "0 \<le> ?x" using s by (simp_all add: tracks_def)
  have e: "to_short (?x + int (length l)) = ?x + int (length l)" using v(3) l(2) by (simp add: to_short_id)
  note defs = load_history_line_def repaint_full_line_def Let_def cooked_set_pos_def tc_set_bounds_end_for_length_def
  have f: "le_cooked ?s' = l" "le_cursor ?s' = length l" "le_term ?s' = t1" "le_output_valid ?s'"
    using v by (simp_all add: defs e t1_def tc_set_cursor_x_def)
  have w: "written ?s' = written s @ cup @ 0x1B # asc ''[K'' @ l"
    using v by (simp add: defs written_cells [OF u l(1)] written_str written_cup cup_def)
  have "tracks ?s'" using s f l(2) by (simp add: tracks_def t1_def)
  moreover have "\<exists>t'. draws (cup @ 0x1B # asc ''[K'' @ l) t t' \<and> shows_line ?s' t' \<and> (\<forall>c < ?x. tr_cells t' c = tr_cells t c)" for t
  proof -
    let ?a = "t\<lparr>tr_x := ?x\<rparr>"
    let ?b = "?a\<lparr>tr_cells := (\<lambda>c. if c < tr_x ?a then tr_cells ?a c else 0x20)\<rparr>"
    let ?c = "fold row_put l ?b"
    have a: "draws cup t ?a" unfolding cup_def using s l(2) by (intro draws_cup) (simp_all add: tracks_def)
    have "draws (cup @ (0x1B # asc ''[K'') @ l) t ?c" by (rule draws_append [OF a draws_append [OF draws_bare(3) draws_chars [OF l(1)]]])
    moreover have "shows_line ?s' ?c" "\<forall>c < ?x. tr_cells ?c c = tr_cells t c"
      using reprint_shows [of ?b ?x "[]" 0 l] f(1-3) by (simp_all add: shows_line_def t1_def pad_def)
    ultimately show ?thesis by auto
  qed
  ultimately show ?thesis unfolding renders_def using f(3) w by (auto simp: t1_def)
qed

section \<open>Keys\<close>

datatype edit_key =
    K_char char32 | K_codepoint char32 | K_backspace | K_delete | K_left | K_right | K_home | K_end | K_up | K_down

fun press :: "(char32 \<Rightarrow> nat list) \<Rightarrow> edit_key \<Rightarrow> line_edit \<Rightarrow> line_edit" where
  "press u (K_char c) s = edit_insert_char u c c s"
| "press u (K_codepoint c) s = edit_insert_codepoint u c s"
| "press u K_backspace s = edit_backspace u s"
| "press u K_delete s = edit_delete s"
| "press u K_left s = edit_move_left s"
| "press u K_right s = edit_move_right s"
| "press u K_home s = edit_home s"
| "press u K_end s = edit_end s"
| "press u K_up s = history_up u s"
| "press u K_down s = history_down u s"

fun key_ok :: "edit_key \<Rightarrow> bool" where
  "key_ok (K_char c) = title_char c"
| "key_ok (K_codepoint c) = title_char c"
| "key_ok _ = True"

text \<open>The lines that a key can bring on; all are printable ASCII and have room for \<open>m\<close> more characters.\<close>

definition lines :: "line_edit \<Rightarrow> u32 set" where
  "lines s = insert (le_cooked s) (insert (h_saved_input (le_history s)) (set (h_commands (le_history s))))"

definition line_ready :: "nat \<Rightarrow> line_edit \<Rightarrow> bool" where
  "line_ready m s \<longleftrightarrow> tracks s \<and> history_inv (le_history s)
     \<and> (\<forall>l \<in> lines s. (\<forall>c \<in> set l. title_char c) \<and> prompt_end s + int (length l) + int m < 32767)"

lemma edit_fields:
  "le_cooked (edit_insert_char u c r s) = take (le_cursor s) (le_cooked s) @ [c] @ drop (le_cursor s) (le_cooked s)"
  "le_cooked (edit_insert_codepoint u c s) = take (le_cursor s) (le_cooked s) @ [c] @ drop (le_cursor s) (le_cooked s)"
  "le_cooked (edit_move_left s) = le_cooked s" "le_cooked (edit_move_right s) = le_cooked s"
  "le_cooked (edit_home s) = le_cooked s" "le_cooked (edit_end s) = le_cooked s"
  "le_history (edit_insert_char u c r s) = h_break_browse (le_history s)" "le_history (edit_insert_codepoint u c s) = h_break_browse (le_history s)"
  "le_history (edit_backspace u s) = h_break_browse (le_history s)" "le_history (edit_delete s) = h_break_browse (le_history s)"
  "le_history (edit_move_left s) = le_history s" "le_history (edit_move_right s) = le_history s"
  "le_history (edit_home s) = le_history s" "le_history (edit_end s) = le_history s"
  "le_cooked (load_history_line u s) = le_cooked s" "le_history (load_history_line u s) = le_history s"
  by (simp_all add: edit_insert_char_def edit_insert_codepoint_def edit_backspace_def edit_delete_def edit_move_left_def
      edit_move_right_def edit_home_def edit_end_def cup_and_track_def cooked_set_pos_def cooked_append_def cooked_pop_before_def
      cooked_pop_at_def repaint_suffix_def echo_byte_def load_history_line_def repaint_full_line_def Let_def)

lemma browse_lines:
  assumes "history_inv h"
  shows "h_browse_up line h = Some (h', l) \<Longrightarrow> l \<in> set (h_commands h) \<and> h_commands h' = h_commands h \<and> h_saved_input h' \<in> {line, h_saved_input h}"
    "h_browse_down h = Some (h', l) \<Longrightarrow> l \<in> insert (h_saved_input h) (set (h_commands h)) \<and> h_commands h' = h_commands h
      \<and> h_saved_input h' \<in> {[], h_saved_input h}"
  using assms
  by (auto simp: h_browse_up_def h_browse_down_def h_reset_browse_def history_inv_def Let_def split: if_splits option.splits)

lemma break_lines: "h_commands (h_break_browse h) = h_commands h" "h_saved_input (h_break_browse h) \<in> {[], h_saved_input h}"
  by (simp_all add: h_break_browse_def h_reset_browse_def)

lemma backspace_line:
  "length (le_cooked (edit_backspace u s)) \<le> length (le_cooked s) \<and> set (le_cooked (edit_backspace u s)) \<subseteq> set (le_cooked s)"
  "length (le_cooked (edit_delete s)) \<le> length (le_cooked s) \<and> set (le_cooked (edit_delete s)) \<subseteq> set (le_cooked s)"
  by (auto simp: edit_backspace_def edit_delete_def cooked_pop_before_def cooked_pop_at_def repaint_suffix_def Let_def
      dest: in_set_takeD in_set_dropD)

lemma renders_trans: "renders s s' \<Longrightarrow> renders s' s'' \<Longrightarrow> renders s s''"
proof -
  assume a: "renders s s'" and b: "renders s' s''"
  obtain x where x: "written s' = written s @ x" "\<And>t. shows_line s t \<Longrightarrow> \<exists>t'. draws x t t' \<and> shows_line s' t' \<and> (\<forall>c < prompt_end s. tr_cells t' c = tr_cells t c)"
    using a unfolding renders_def by blast
  obtain y where y: "written s'' = written s' @ y" "\<And>t. shows_line s' t \<Longrightarrow> \<exists>t'. draws y t t' \<and> shows_line s'' t' \<and> (\<forall>c < prompt_end s. tr_cells t' c = tr_cells t c)"
    using a b unfolding renders_def by auto
  have "\<exists>t'. draws (x @ y) t t' \<and> shows_line s'' t' \<and> (\<forall>c < prompt_end s. tr_cells t' c = tr_cells t c)" if t: "shows_line s t" for t
    using x(2) [OF t] y(2) draws_append by metis
  then show "renders s s''" using a b x(1) y(1) unfolding renders_def by auto
qed

lemma press_renders:
  assumes u: "utf8_ascii u" and s: "line_ready (Suc m) s" and k: "key_ok k"
  shows "renders s (press u k s)"
proof -
  have t: "tracks s" and h: "history_inv (le_history s)"
    and l: "\<And>l. l \<in> lines s \<Longrightarrow> (\<forall>c \<in> set l. title_char c) \<and> prompt_end s + int (length l) + int (Suc m) < 32767"
    using s by (simp_all add: line_ready_def)
  have c: "\<forall>c \<in> set (le_cooked s). title_char c" "prompt_end s + int (length (le_cooked s)) + 1 < 32767"
    using l [of "le_cooked s"] by (simp_all add: lines_def)
  have same: "renders s s" using t by (intro renders_same) simp_all
  have load: "renders s (load_history_line u (s\<lparr>le_history := h', le_cooked := line\<rparr>))" if "line \<in> lines s" for h' line
    using load_renders [OF u t] l [OF that] by simp
  show ?thesis
  proof (cases k)
    case K_up
    show ?thesis
    proof (cases "h_browse_up (le_cooked s) (le_history s)")
      case (Some r)
      then obtain h' line where r: "h_browse_up (le_cooked s) (le_history s) = Some (h', line)" by (cases r) simp
      then have "line \<in> lines s" using browse_lines(1) [OF h, of "le_cooked s" h' line] by (auto simp: lines_def)
      then show ?thesis using r load K_up by (simp add: history_up_def)
    qed (use same K_up in \<open>simp add: history_up_def\<close>)
  next
    case K_down
    show ?thesis
    proof (cases "h_browse_down (le_history s)")
      case (Some r)
      then obtain h' line where r: "h_browse_down (le_history s) = Some (h', line)" by (cases r) simp
      then have "line \<in> lines s" using browse_lines(2) [OF h, of h' line] by (auto simp: lines_def)
      then show ?thesis using r load K_down by (simp add: history_down_def)
    qed (use same K_down in \<open>simp add: history_down_def\<close>)
  next
    case (K_char ch)
    then show ?thesis using insert_char_renders(1) [OF u t c(2) _ c(1), of ch] k by simp
  next
    case (K_codepoint ch)
    then show ?thesis using insert_char_renders(2) [OF u t c(2) _ c(1), of ch] k by simp
  qed (simp_all add: move_renders [OF t] backspace_renders [OF u t c(1)] delete_renders [OF t])
qed

lemma press_lines:
  assumes "line_ready (Suc m) s" "key_ok k" and "l' \<in> lines (press u k s)"
  shows "\<exists>l \<in> lines s. length l' \<le> length l + 1 \<and> (\<forall>c \<in> set l'. title_char c)"
proof -
  have h: "history_inv (le_history s)" and l: "\<And>l. l \<in> lines s \<Longrightarrow> \<forall>c \<in> set l. title_char c"
    using assms(1) by (simp_all add: line_ready_def)
  have old: ?thesis if "l' \<in> insert [] (lines s)"
  proof (cases "l' = []")
    case False
    then have "l' \<in> lines s" using that by simp
    then show ?thesis using l by (intro bexI [of _ l']) simp_all
  qed (auto simp: lines_def)
  have cooked: "le_cooked s \<in> lines s" by (simp add: lines_def)
  have saved: "h_saved_input (h_break_browse (le_history s)) \<in> insert [] (lines s)"
    using break_lines(2) [of "le_history s"] by (auto simp: lines_def)
  have inserted: ?thesis if "title_char c" "l' = take (le_cursor s) (le_cooked s) @ [c] @ drop (le_cursor s) (le_cooked s)" for c
    using that l [OF cooked] by (intro bexI [OF _ cooked]) (auto dest: in_set_takeD in_set_dropD)
  have shorter: ?thesis if "length l' \<le> length (le_cooked s)" "set l' \<subseteq> set (le_cooked s)"
    using that l [OF cooked] by (intro bexI [OF _ cooked]) auto
  have up: "lines (history_up u s) \<subseteq> lines s"
  proof (cases "h_browse_up (le_cooked s) (le_history s)")
    case (Some r)
    then obtain h' line where r: "h_browse_up (le_cooked s) (le_history s) = Some (h', line)" by (cases r) simp
    then show ?thesis using browse_lines(1) [OF h r] by (auto simp: history_up_def lines_def edit_fields)
  qed (auto simp: history_up_def)
  have down: "lines (history_down u s) \<subseteq> insert [] (lines s)"
  proof (cases "h_browse_down (le_history s)")
    case (Some r)
    then obtain h' line where r: "h_browse_down (le_history s) = Some (h', line)" by (cases r) simp
    then show ?thesis using browse_lines(2) [OF h r] by (auto simp: history_down_def lines_def edit_fields)
  qed (auto simp: history_down_def)
  show ?thesis
  proof (cases k)
    case K_up
    then show ?thesis using up old assms(3) by auto
  next
    case K_down
    then show ?thesis using down old assms(3) by auto
  next
    case (K_char c)
    then have "l' \<in> insert (take (le_cursor s) (le_cooked s) @ [c] @ drop (le_cursor s) (le_cooked s)) (insert [] (lines s))"
      using assms(3) saved by (auto simp: lines_def edit_fields break_lines)
    then show ?thesis using old inserted [of c] assms(2) K_char by auto
  next
    case (K_codepoint c)
    then have "l' \<in> insert (take (le_cursor s) (le_cooked s) @ [c] @ drop (le_cursor s) (le_cooked s)) (insert [] (lines s))"
      using assms(3) saved by (auto simp: lines_def edit_fields break_lines)
    then show ?thesis using old inserted [of c] assms(2) K_codepoint by auto
  next
    case K_backspace
    then have "l' \<in> insert (le_cooked (edit_backspace u s)) (insert [] (lines s))"
      using assms(3) saved by (auto simp: lines_def edit_fields break_lines)
    then show ?thesis using old shorter backspace_line(1) [of u s] by blast
  next
    case K_delete
    then have "l' \<in> insert (le_cooked (edit_delete s)) (insert [] (lines s))"
      using assms(3) saved by (auto simp: lines_def edit_fields break_lines)
    then show ?thesis using old shorter backspace_line(2) [of s] by blast
  qed (use old assms(3) in \<open>auto simp: lines_def edit_fields\<close>)
qed

lemma press_history_inv:
  assumes "history_inv (le_history s)"
  shows "history_inv (le_history (press u k s))"
  using history_inv_keeps(4,6,7) [OF assms] assms
  by (cases k) (auto simp: edit_fields history_up_def history_down_def split: option.split)

lemma press_ready:
  assumes "utf8_ascii u" "line_ready (Suc m) s" "key_ok k"
  shows "line_ready m (press u k s)"
proof -
  have r: "renders s (press u k s)" by (rule press_renders [OF assms])
  have "(\<forall>c \<in> set l'. title_char c) \<and> prompt_end (press u k s) + int (length l') + int m < 32767"
    if l': "l' \<in> lines (press u k s)" for l'
  proof -
    obtain l where "l \<in> lines s" "length l' \<le> length l + 1" "\<forall>c \<in> set l'. title_char c"
      using press_lines [OF assms(2,3) l'] by blast
    then show ?thesis using assms(2) r by (force simp: line_ready_def renders_def)
  qed
  then show ?thesis
    using r press_history_inv [of s u k] assms(2) unfolding line_ready_def renders_def by blast
qed

lemma presses_render:
  "utf8_ascii u \<Longrightarrow> line_ready (length ks) s \<Longrightarrow> \<forall>k \<in> set ks. key_ok k \<Longrightarrow> renders s (fold (press u) ks s)"
proof (induction ks arbitrary: s)
  case Nil
  then show ?case by (intro renders_same) (simp_all add: line_ready_def)
next
  case (Cons k ks)
  have "renders s (press u k s)" by (rule press_renders) (use Cons.prems in simp_all)
  moreover have "renders (press u k s) (fold (press u) ks (press u k s))"
    by (rule Cons.IH) (use Cons.prems press_ready [of u "length ks" s k] in simp_all)
  ultimately show ?case by (simp add: renders_trans)
qed


text \<open>A new line after a prompt of two columns.\<close>

definition new_line :: line_edit where
  "new_line = \<lparr>le_cooked = [], le_cursor = 0,
     le_term = tc_finish_inherit_cursor (coord 2 0) terminal_cursor_init, le_history = history_init,
     le_out = vt_out_init, le_output_valid = True, le_written = [], le_line_found = False,
     le_pending = begin_console_read 1 True pending_init, le_aliases = (\<lambda>_. None), le_position = coord 2 0,
     le_read_total = 0, le_read_aborted = False, le_completed = []\<rparr>"


end
