(* ===== verification/Text_Codec.thy ===== *)
theory Text_Codec
  imports Prelude
begin

text \<open>
  The conversions between encodings (\<open>libcorehost/char_convert.hpp\<close>) that are the program's own: sizes, the
  longest prefix of a text that fits a client's buffer, and the unfinished character at the end of a write. The
  encoders of libunicode and the code page conversions of Windows are parameters. An \<open>assert\<close>
  that fails, or a buffer that is too small, is \<open>None\<close>.
\<close>

section \<open>Sizes\<close>

definition utf16_to_u32_max_units :: "nat \<Rightarrow> nat" where "utf16_to_u32_max_units n = n"
definition utf8_to_u32_max_units :: "nat \<Rightarrow> nat" where "utf8_to_u32_max_units n = n"
definition u32_to_wide_max_units :: "nat \<Rightarrow> nat" where "u32_to_wide_max_units n = n * 2"
definition u32_to_utf8_max_bytes :: "nat \<Rightarrow> nat" where "u32_to_utf8_max_bytes n = n * 4"
definition utf8_to_wide_max_units :: "nat \<Rightarrow> nat" where "utf8_to_wide_max_units n = n"
definition wide_to_utf8_max_bytes :: "nat \<Rightarrow> nat" where "wide_to_utf8_max_bytes n = n * 3"

definition cp_utf8 :: nat where "cp_utf8 = 65001"
definition cp_acp :: nat where "cp_acp = 0"

definition wide_to_ansi_max_bytes :: "nat \<Rightarrow> nat \<Rightarrow> nat" where
  "wide_to_ansi_max_bytes wlen cp = (if cp = cp_utf8 then wlen * 3 else wlen * 2)"

text \<open>A character above the basic plane takes two UTF-16 units.\<close>

definition wide_units :: "char32 \<Rightarrow> nat" where
  "wide_units cp = (if cp > 0xFFFF then 2 else 1)"

definition utf8_units :: "char32 \<Rightarrow> nat" where
  "utf8_units ch = (if ch \<le> 0x7F then 1 else if ch \<le> 0x7FF then 2 else if ch \<le> 0xFFFF then 3 else 4)"

definition u32_to_wide_exact_len :: "u32 \<Rightarrow> nat" where
  "u32_to_wide_exact_len t = sum_list (map wide_units t)"

definition u32_to_utf8_exact_len :: "u32 \<Rightarrow> nat" where
  "u32_to_utf8_exact_len t = sum_list (map utf8_units t)"

lemma exact_le_max:
  "u32_to_wide_exact_len t \<le> u32_to_wide_max_units (length t)" "u32_to_utf8_exact_len t \<le> u32_to_utf8_max_bytes (length t)"
  by (induction t) (auto simp: u32_to_wide_exact_len_def u32_to_wide_max_units_def wide_units_def u32_to_utf8_exact_len_def
      u32_to_utf8_max_bytes_def utf8_units_def)

section \<open>The longest prefix that fits\<close>

fun prefix_scan :: "nat \<Rightarrow> nat \<Rightarrow> u32 \<Rightarrow> nat" where
  "prefix_scan max_units units [] = 0"
| "prefix_scan max_units units (cp # t) =
     (if units + wide_units cp > max_units then 0 else Suc (prefix_scan max_units (units + wide_units cp) t))"

definition u32_prefix_for_wide_units :: "u32 \<Rightarrow> nat \<Rightarrow> nat" where
  "u32_prefix_for_wide_units t max_units = prefix_scan max_units 0 t"

definition convert_u32_to_wide_raw :: "(char32 \<Rightarrow> nat list) \<Rightarrow> u32 \<Rightarrow> nat \<Rightarrow> nat list option" where
  "convert_u32_to_wide_raw utf16 t out_cap =
     (if u32_to_wide_exact_len t \<le> out_cap then Some (concat (map utf16 t)) else None)"

definition append_ascii_raw :: "nat \<Rightarrow> nat \<Rightarrow> nat list \<Rightarrow> nat list" where
  "append_ascii_raw ch out_cap out = (if length out < out_cap then out @ [ch] else out)"

text \<open>The conversion to a code page other than UTF-8 goes through UTF-16 and \<open>WideCharToMultiByte\<close>, here \<open>multi\<close>.\<close>

definition u32_to_ansi_exact_len :: "(nat \<Rightarrow> nat list \<Rightarrow> nat list) \<Rightarrow> (char32 \<Rightarrow> nat list) \<Rightarrow> u32 \<Rightarrow> nat \<Rightarrow> nat" where
  "u32_to_ansi_exact_len multi utf16 t code_page =
     (if t = [] then 0
      else let cp = (if code_page \<noteq> 0 then code_page else cp_acp)
           in if cp = cp_utf8 then u32_to_utf8_exact_len t else length (multi cp (concat (map utf16 t))))"

definition convert_u32_to_ansi_raw ::
    "(nat \<Rightarrow> nat list \<Rightarrow> nat list) \<Rightarrow> (char32 \<Rightarrow> nat list) \<Rightarrow> (char32 \<Rightarrow> nat list) \<Rightarrow> u32 \<Rightarrow> nat \<Rightarrow> nat \<Rightarrow> nat list option" where
  "convert_u32_to_ansi_raw multi utf16 utf8 t code_page out_cap =
     (if t = [] then Some []
      else
        let cp = (if code_page \<noteq> 0 then code_page else cp_acp);
            bytes = (if cp = cp_utf8 then concat (map utf8 t) else multi cp (concat (map utf16 t)))
        in if length bytes \<le> out_cap then Some bytes else None)"

text \<open>The binary search of \<open>u32_prefix_for_ansi_bytes\<close>; \<open>fits n\<close> says whether the first \<open>n\<close> characters do.\<close>

function ansi_prefix_loop :: "(nat \<Rightarrow> bool) \<Rightarrow> nat \<Rightarrow> nat \<Rightarrow> nat" where
  "ansi_prefix_loop fits lo hi =
     (if lo < hi
      then let mid = lo + (hi - lo + 1) div 2
           in if fits mid then ansi_prefix_loop fits mid hi else ansi_prefix_loop fits lo (mid - 1)
      else lo)"
  by pat_completeness auto
termination
  by (relation "measure (\<lambda>(fits, lo, hi). hi - lo)") auto

declare ansi_prefix_loop.simps [simp del]

definition u32_prefix_for_ansi_bytes :: "(nat \<Rightarrow> nat list \<Rightarrow> nat list) \<Rightarrow> (char32 \<Rightarrow> nat list) \<Rightarrow> u32 \<Rightarrow> nat \<Rightarrow> nat \<Rightarrow> nat" where
  "u32_prefix_for_ansi_bytes multi utf16 t code_page max_bytes =
     ansi_prefix_loop (\<lambda>n. u32_to_ansi_exact_len multi utf16 (take n t) code_page \<le> max_bytes) 0 (length t)"

text \<open>The largest number up to \<open>bound\<close> of what still fits.\<close>

definition longest :: "(nat \<Rightarrow> nat) \<Rightarrow> nat \<Rightarrow> nat \<Rightarrow> nat \<Rightarrow> bool" where
  "longest size_of limit bound n \<longleftrightarrow> n \<le> bound \<and> (\<forall>m \<le> bound. size_of m \<le> limit \<longleftrightarrow> m \<le> n)"

lemma longest_unique: "longest f l b n \<Longrightarrow> longest f l b m \<Longrightarrow> n = m"
  unfolding longest_def by (meson eq_iff order_refl)

text \<open>
  The contract of a prefix search: the size of a prefix grows with its length and the empty one fits. What it
  promises is the longest prefix that fits.
\<close>

locale prefix_search =
  fixes size_of :: "nat \<Rightarrow> nat" and limit :: nat
  assumes size_mono: "i \<le> j \<Longrightarrow> size_of i \<le> size_of j"
    and size_0: "size_of 0 \<le> limit"
begin

lemma search_longest:
  assumes "lo \<le> hi" "size_of lo \<le> limit" "hi \<le> bound" "\<forall>m. hi < m \<longrightarrow> m \<le> bound \<longrightarrow> limit < size_of m"
  shows "longest size_of limit bound (ansi_prefix_loop (\<lambda>n. size_of n \<le> limit) lo hi)"
  using assms
proof (induction "\<lambda>n. size_of n \<le> limit" lo hi rule: ansi_prefix_loop.induct)
  case (1 lo hi)
  let ?mid = "lo + (hi - lo + 1) div 2"
  show ?case
  proof (cases "lo < hi")
    case False
    then have "lo = hi" using 1(3) by simp
    moreover have "longest size_of limit bound hi"
      unfolding longest_def using 1(4-6) calculation by (metis linorder_not_le size_mono le_trans)
    ultimately show ?thesis by (simp add: ansi_prefix_loop.simps [of _ hi hi])
  next
    case True
    have mid: "lo < ?mid" "?mid \<le> hi" using True by auto
    show ?thesis
    proof (cases "size_of ?mid \<le> limit")
      case fits: True
      have "ansi_prefix_loop (\<lambda>n. size_of n \<le> limit) lo hi = ansi_prefix_loop (\<lambda>n. size_of n \<le> limit) ?mid hi"
        by (subst ansi_prefix_loop.simps) (simp only: Let_def True fits if_True)
      then show ?thesis using 1(1) [OF True refl fits] 1(5,6) fits mid by simp
    next
      case over: False
      have "limit < size_of m" if "?mid - 1 < m" for m
      proof -
        have "?mid \<le> m" using that by linarith
        then show ?thesis using over size_mono [of ?mid m] by linarith
      qed
      moreover have "ansi_prefix_loop (\<lambda>n. size_of n \<le> limit) lo hi = ansi_prefix_loop (\<lambda>n. size_of n \<le> limit) lo (?mid - 1)"
        by (subst ansi_prefix_loop.simps) (simp only: Let_def True over if_True if_False)
      moreover have "lo \<le> ?mid - 1" "?mid - 1 \<le> bound" using mid 1(5) by linarith+
      ultimately show ?thesis using 1(2) [OF True refl over] 1(4) by simp
    qed
  qed
qed

lemma prefix_longest: "longest size_of limit bound (ansi_prefix_loop (\<lambda>n. size_of n \<le> limit) 0 bound)"
  by (rule search_longest) (simp_all add: size_0)

end

lemma sum_take_mono: "i \<le> j \<Longrightarrow> sum_list (map (f :: 'a \<Rightarrow> nat) (take i t)) \<le> sum_list (map f (take j t))"
  by (metis le_add1 le_add_diff_inverse map_append sum_list_append take_add)

interpretation utf8_prefix: prefix_search "\<lambda>n. u32_to_utf8_exact_len (take n t)" limit for t limit
  by unfold_locales (simp_all add: u32_to_utf8_exact_len_def sum_take_mono)

interpretation wide_prefix: prefix_search "\<lambda>n. u32_to_wide_exact_len (take n t)" limit for t limit
  by unfold_locales (simp_all add: u32_to_wide_exact_len_def sum_take_mono)

lemma wide_scan_longest:
  "units \<le> limit \<Longrightarrow> prefix_scan limit units t \<le> length t
    \<and> (\<forall>m \<le> length t. units + u32_to_wide_exact_len (take m t) \<le> limit \<longleftrightarrow> m \<le> prefix_scan limit units t)"
proof (induction t arbitrary: units)
  case (Cons cp t)
  have part: "u32_to_wide_exact_len (take (Suc m) (cp # t)) = wide_units cp + u32_to_wide_exact_len (take m t)" for m
    by (simp add: u32_to_wide_exact_len_def)
  show ?case
  proof (cases "units + wide_units cp > limit")
    case True
    have "\<not> units + u32_to_wide_exact_len (take m (cp # t)) \<le> limit" if "0 < m" for m
      using True part [of "m - 1"] that by simp
    then show ?thesis using True Cons.prems by (auto simp: u32_to_wide_exact_len_def)
  next
    case False
    then have "units + u32_to_wide_exact_len (take m (cp # t)) \<le> limit \<longleftrightarrow> m \<le> Suc (prefix_scan limit (units + wide_units cp) t)"
      if "m \<le> Suc (length t)" for m
      using Cons.IH [of "units + wide_units cp"] Cons.prems part [of "m - 1"] that
      by (cases m) (simp_all add: u32_to_wide_exact_len_def add.assoc)
    then show ?thesis using False Cons.IH [of "units + wide_units cp"] by simp
  qed
qed (simp add: u32_to_wide_exact_len_def)

lemma wide_scan_is_search: "u32_prefix_for_wide_units t limit
    = ansi_prefix_loop (\<lambda>n. u32_to_wide_exact_len (take n t) \<le> limit) 0 (length t)"
proof -
  have "longest (\<lambda>n. u32_to_wide_exact_len (take n t)) limit (length t) (prefix_scan limit 0 t)"
    using wide_scan_longest [of 0 limit t] by (simp add: longest_def)
  then show ?thesis
    unfolding u32_prefix_for_wide_units_def by (rule longest_unique [OF _ wide_prefix.prefix_longest])
qed

section \<open>Characters cut by a write\<close>

text \<open>How many units of a UTF-16 text to keep so that no surrogate pair is cut.\<close>

definition utf16_prefix_units :: "nat list \<Rightarrow> nat \<Rightarrow> nat" where
  "utf16_prefix_units t max_units =
     (let count = min (length t) max_units
      in if count > 0 \<and> count < length t
            \<and> (let lead = t ! (count - 1); follow = t ! count
               in lead \<ge> 0xD800 \<and> lead \<le> 0xDBFF \<and> follow \<ge> 0xDC00 \<and> follow \<le> 0xDFFF)
         then count - 1 else count)"

text \<open>The scan from the last byte back, over at most three continuation bytes.\<close>

definition utf8_lead_length :: "nat \<Rightarrow> nat" where
  "utf8_lead_length b = (if b \<ge> 0xF0 then 4 else if b \<ge> 0xE0 then 3 else if b \<ge> 0xC0 then 2 else 1)"

fun tail_scan :: "nat list \<Rightarrow> nat \<Rightarrow> nat" where
  "tail_scan [] continuation = 0"
| "tail_scan (b # bs) continuation =
     (if continuation < 3
      then if b AND 0xC0 = 0x80 then tail_scan bs (continuation + 1)
           else if continuation + 1 < utf8_lead_length b then continuation + 1 else 0
      else 0)"

definition utf8_incomplete_tail_length :: "nat list \<Rightarrow> nat" where
  "utf8_incomplete_tail_length utf8 = tail_scan (rev utf8) 0"

text \<open>\<open>pipe_bridge::join_utf8_writes\<close>: the state is the unfinished tail, the result what is passed on.\<close>

definition join_utf8_writes :: "nat list \<Rightarrow> nat list \<Rightarrow> nat list \<times> nat list" where
  "join_utf8_writes tail bytes =
     (let bytes = (if tail \<noteq> [] then tail @ bytes else bytes);
          keep = utf8_incomplete_tail_length bytes
      in (drop (length bytes - keep) bytes, take (length bytes - keep) bytes))"

text \<open>A character of UTF-8: a byte that is no continuation byte, and as many of those as it announces.\<close>

definition continuation :: "nat \<Rightarrow> bool" where
  "continuation b \<longleftrightarrow> b AND 0xC0 = 0x80"

definition utf8_char :: "nat list \<Rightarrow> bool" where
  "utf8_char bs \<longleftrightarrow> bs \<noteq> [] \<and> \<not> continuation (hd bs) \<and> (\<forall>b \<in> set (tl bs). continuation b)
     \<and> length bs = utf8_lead_length (hd bs)"

lemma tail_scan_continuation:
  "\<forall>b \<in> set cs. continuation b \<Longrightarrow> n + length cs \<le> 3 \<Longrightarrow> tail_scan (cs @ bs) n = tail_scan bs (n + length cs)"
  by (induction cs arbitrary: n) (auto simp: continuation_def)

lemma lead_length_le: "utf8_lead_length b \<le> 4"
  by (simp add: utf8_lead_length_def)

text \<open>Behind whole characters the scan finds exactly the unfinished one.\<close>

lemma tail_of_part:
  assumes "utf8_char (t @ rest)" "rest \<noteq> []"
  shows "utf8_incomplete_tail_length (p @ t) = (if t = [] then utf8_incomplete_tail_length p else length t)"
proof (cases t)
  case (Cons b cs)
  have "0 < length rest" using assms(2) by simp
  then have c: "\<forall>c \<in> set (rev cs). continuation c" "\<not> continuation b" "length cs + 1 < utf8_lead_length b"
    using assms(1) Cons by (simp_all add: utf8_char_def del: length_greater_0_conv)
  then have "length (rev cs) \<le> 3" "length (rev cs) < 3" using lead_length_le [of b] by simp_all
  then have "tail_scan (rev cs @ b # rev p) 0 = length t"
    using tail_scan_continuation [OF c(1), of 0] c(2,3) Cons by (simp add: continuation_def)
  then show ?thesis using Cons by (simp add: utf8_incomplete_tail_length_def)
qed simp

lemma tail_of_whole:
  assumes "utf8_char c"
  shows "utf8_incomplete_tail_length (p @ c) = 0"
proof -
  obtain b cs where c: "c = b # cs" using assms by (cases c) (auto simp: utf8_char_def)
  have k: "\<forall>c \<in> set (rev cs). continuation c" "\<not> continuation b" "Suc (length cs) = utf8_lead_length b"
    using assms c by (auto simp: utf8_char_def)
  then have "length (rev cs) \<le> 3" using lead_length_le [of b] by simp
  then have "tail_scan (rev cs @ b # rev p) 0 = 0"
    using tail_scan_continuation [OF k(1), of 0] k(2,3) by (simp add: continuation_def)
  then show ?thesis using c by (simp add: utf8_incomplete_tail_length_def)
qed

text \<open>Part of the first of the characters to come.\<close>

definition partial :: "nat list \<Rightarrow> nat list list \<Rightarrow> bool" where
  "partial t cs \<longleftrightarrow> t = [] \<or> (\<exists>c cs' r. cs = c # cs' \<and> c = t @ r \<and> r \<noteq> [])"

lemma split_stream:
  "p @ rest = concat cs \<Longrightarrow> \<exists>cs1 cs2 t. cs = cs1 @ cs2 \<and> p = concat cs1 @ t \<and> t @ rest = concat cs2 \<and> partial t cs2"
proof (induction cs arbitrary: p)
  case Nil
  then show ?case by (auto simp: partial_def)
next
  case (Cons c cs)
  show ?case
  proof (cases "length p < length c")
    case True
    then obtain r where "c = p @ r" "r \<noteq> []"
      using Cons.prems by (auto simp: append_eq_append_conv2)
    then have "partial p (c # cs)" by (auto simp: partial_def)
    then show ?thesis using Cons.prems by (intro exI [of _ "[]"] exI [of _ "c # cs"] exI [of _ p]) simp
  next
    case False
    then obtain p' where "p = c @ p'" "p' @ rest = concat cs"
      using Cons.prems by (auto simp: append_eq_append_conv2)
    then obtain cs1 cs2 t where "cs = cs1 @ cs2" "p' = concat cs1 @ t" "t @ rest = concat cs2" "partial t cs2"
      using Cons.IH by blast
    then show ?thesis using \<open>p = c @ p'\<close>
      by (intro exI [of _ "c # cs1"] exI [of _ cs2] exI [of _ t]) simp
  qed
qed

lemma tail_length:
  assumes "\<forall>c \<in> set (cs1 @ cs2). utf8_char c" "partial t cs2"
  shows "utf8_incomplete_tail_length (concat cs1 @ t) = length t"
proof (cases "t = []")
  case True
  show ?thesis
  proof (cases cs1 rule: rev_cases)
    case Nil
    then show ?thesis using True by (simp add: utf8_incomplete_tail_length_def)
  next
    case (snoc cs c)
    then show ?thesis using assms(1) True tail_of_whole [of c "concat cs"] by simp
  qed
next
  case False
  then show ?thesis using assms tail_of_part [of t _ "concat cs1"] by (auto simp: partial_def)
qed

lemma join_step:
  assumes "\<forall>c \<in> set cs. utf8_char c" "t @ w @ rest = concat cs"
  obtains cs1 cs2 t' where "cs = cs1 @ cs2" "join_utf8_writes t w = (t', concat cs1)" "t' @ rest = concat cs2" "partial t' cs2"
proof -
  obtain cs1 cs2 t' where s: "cs = cs1 @ cs2" "t @ w = concat cs1 @ t'" "t' @ rest = concat cs2" "partial t' cs2"
    using split_stream [of "t @ w" rest cs] assms(2) by auto
  have whole: "(if t \<noteq> [] then t @ w else w) = concat cs1 @ t'" using s(2) by auto
  have "join_utf8_writes t w = (t', concat cs1)"
    unfolding join_utf8_writes_def whole Let_def using tail_length [of cs1 cs2 t'] assms(1) s(1,4) by simp
  then show ?thesis using s that by blast
qed

fun join_writes :: "nat list \<Rightarrow> nat list list \<Rightarrow> nat list \<times> nat list list" where
  "join_writes tail [] = (tail, [])"
| "join_writes tail (w # ws) =
     (let (tail', out) = join_utf8_writes tail w; (tail'', outs) = join_writes tail' ws in (tail'', out # outs))"

lemma join_writes_whole:
  assumes "\<forall>c \<in> set cs. utf8_char c" "t @ concat ws @ rest = concat cs" "partial t cs"
  shows "\<exists>t' css cs'. join_writes t ws = (t', map concat css) \<and> cs = concat css @ cs' \<and> t' @ rest = concat cs' \<and> partial t' cs'"
  using assms
proof (induction ws arbitrary: t cs)
  case Nil
  then show ?case by (intro exI [of _ t] exI [of _ "[]"] exI [of _ cs]) simp
next
  case (Cons w ws)
  obtain cs1 cs2 t1 where j: "cs = cs1 @ cs2" "join_utf8_writes t w = (t1, concat cs1)" "t1 @ concat ws @ rest = concat cs2"
    "partial t1 cs2"
    using join_step [of cs t w "concat ws @ rest"] Cons.prems by auto
  obtain t' css cs' where "join_writes t1 ws = (t', map concat css)" "cs2 = concat css @ cs'" "t' @ rest = concat cs'" "partial t' cs'"
    using Cons.IH [of cs2 t1] Cons.prems(1) j by auto
  then show ?case using j by (intro exI [of _ t'] exI [of _ "cs1 # css"] exI [of _ cs']) simp
qed

text \<open>C36: A character of UTF-8 that a program cuts in two with its writes is put together again: however a stream of
  characters is cut into writes, and at whatever byte it stops, each write passes on whole characters, all
  of them together in order, and what is kept back is less than one character; nothing is kept back when
  the stream stops between two characters.\<close>
theorem utf8_writes_whole:
  assumes "\<forall>c \<in> set cs. utf8_char c" and "concat ws @ rest = concat cs"
  shows "\<exists>t css cs'. join_writes [] ws = (t, map concat css) \<and> cs = concat css @ cs' \<and> t @ rest = concat cs'
    \<and> partial t cs' \<and> (rest = [] \<longrightarrow> t = [] \<and> cs' = [])"
proof -
  obtain t css cs' where j: "join_writes [] ws = (t, map concat css)" "cs = concat css @ cs'" "t @ rest = concat cs'" "partial t cs'"
    using join_writes_whole [of cs "[]" ws rest] assms by (auto simp: partial_def)
  have "t = [] \<and> cs' = []" if "rest = []"
  proof -
    have "t = []" using j(3,4) that by (auto simp: partial_def)
    then show ?thesis using j(2,3) that assms(1) by (cases cs') (auto simp: utf8_char_def)
  qed
  then show ?thesis using j by blast
qed

theorem utf8_writes_whole_witness:
  "\<exists>t css. join_writes [] [[0x61, 0xE4], [0xBD], [0xA0, 0xC3]] = (t, map concat css) \<and> t @ [0xA9] = [0xC3, 0xA9]"
proof -
  have c: "\<forall>c \<in> set [[0x61], [0xE4, 0xBD, 0xA0], [0xC3, 0xA9]]. utf8_char c" by code_simp
  obtain t css cs' where j: "join_writes [] [[0x61, 0xE4], [0xBD], [0xA0, 0xC3]] = (t, map concat css)"
    "[[0x61], [0xE4, 0xBD, 0xA0], [0xC3, 0xA9]] = concat css @ cs'" "t @ [0xA9] = concat cs'"
    using utf8_writes_whole [OF c, of "[[0x61, 0xE4], [0xBD], [0xA0, 0xC3]]" "[0xA9]"] by auto
  have "fst (join_writes [] [[0x61, 0xE4], [0xBD], [0xA0, 0xC3]]) = [0xC3]" by code_simp
  then show ?thesis using j(1) by auto
qed

end
