(* ===== verification/Read_Completion.thy ===== *)
theory Read_Completion
  imports Line_Edit Text_Codec
begin

text \<open>
  How a read ends (\<open>pipe_bridge\<close>, \<open>libcorehost/pipe_bridge.hpp\<close>): the bytes a completed \<open>ReadConsole\<close> or raw read
  returns within the client's buffer, and the records of the input queue that complete a pending
  \<open>ReadConsole\<close>.
\<close>

section \<open>The client's buffer\<close>

text \<open>The sizes of \<open>CONSOLE_READCONSOLE_MSG\<close>, \<open>CONSOLE_MSG_HEADER\<close> and of the body of a message (\<open>condrv_io.hpp\<close>).\<close>

definition sizeof_readconsole_msg :: nat where "sizeof_readconsole_msg = 20"
definition sizeof_msg_header :: nat where "sizeof_msg_header = 8"
definition sizeof_body :: nat where "sizeof_body = 4096"

definition raw_read_capacity :: "nat \<Rightarrow> nat" where
  "raw_read_capacity output_size = min output_size sizeof_body"

definition console_read_data_capacity :: "nat \<Rightarrow> nat" where
  "console_read_data_capacity output_size =
     (if output_size \<le> sizeof_readconsole_msg then 0
      else min (output_size - sizeof_readconsole_msg) (sizeof_body - sizeof_msg_header - sizeof_readconsole_msg))"

section \<open>Completion data\<close>

text \<open>\<open>prepare_raw_read_completion\<close>; \<open>buf\<close> are the bytes read so far.\<close>

definition raw_read_data :: "bool \<Rightarrow> nat list \<Rightarrow> nat \<Rightarrow> nat list" where
  "raw_read_data vt_eof buf capacity =
     (let data_bytes = min (length buf) capacity;
          data = take data_bytes buf;
          result =
            (if data_bytes \<ge> 1 \<and> data ! (data_bytes - 1) = 0x0D
             then if data_bytes < capacity then data @ [0x0A] else data
             else if data_bytes \<ge> 1 \<and> data ! (data_bytes - 1) = 0x0A
             then if data_bytes < 2 \<or> data ! (data_bytes - 2) \<noteq> 0x0D
                  then if data_bytes < capacity then take (data_bytes - 1) data @ [0x0D, 0x0A] else data
                  else data
             else data)
      in if vt_eof \<and> buf = [] then [] else result)"

text \<open>
  The two encodings of \<open>prepare_console_read_completion\<close>: \<open>maxd\<close> is the capacity in bytes, the result 16-bit units for a
  Unicode read, bytes for the other.
\<close>

definition console_read_wide :: "(char32 \<Rightarrow> nat list) \<Rightarrow> u32 \<Rightarrow> nat \<Rightarrow> nat list option" where
  "console_read_wide utf16 line maxd =
     (let max_chars = maxd div 2;
          copied = take (u32_prefix_for_wide_units line max_chars) line
      in map_option (\<lambda>out. append_ascii_raw 0x0A max_chars (append_ascii_raw 0x0D max_chars out))
           (convert_u32_to_wide_raw utf16 copied max_chars))"

definition console_read_ansi ::
    "(nat \<Rightarrow> nat list \<Rightarrow> nat list) \<Rightarrow> (char32 \<Rightarrow> nat list) \<Rightarrow> (char32 \<Rightarrow> nat list) \<Rightarrow> u32 \<Rightarrow> nat \<Rightarrow> nat \<Rightarrow> nat list option" where
  "console_read_ansi multi utf16 utf8 line code_page maxd =
     (let text_capacity = (if maxd \<ge> 2 then maxd - 2 else 0);
          copied = take (u32_prefix_for_ansi_bytes multi utf16 line code_page text_capacity) line
      in map_option (\<lambda>out. append_ascii_raw 0x0A maxd (append_ascii_raw 0x0D maxd out))
           (convert_u32_to_ansi_raw multi utf16 utf8 copied code_page text_capacity))"

lemma append_crlf:
  "length out \<le> cap \<Longrightarrow> append_ascii_raw 0x0A cap (append_ascii_raw 0x0D cap out) = out @ take (cap - length out) [0x0D, 0x0A]"
  by (auto simp: append_ascii_raw_def take_Cons split: nat.split)

lemma encoded_length:
  "\<forall>c. length (enc c) = wide_units c \<Longrightarrow> length (concat (map enc t)) = u32_to_wide_exact_len t"
  "\<forall>c. length (enc c) = utf8_units c \<Longrightarrow> length (concat (map enc t)) = u32_to_utf8_exact_len t"
  by (simp_all add: length_concat comp_def u32_to_wide_exact_len_def u32_to_utf8_exact_len_def)

lemma ansi_prefix_utf8:
  "u32_prefix_for_ansi_bytes multi utf16 t cp_utf8 cap = ansi_prefix_loop (\<lambda>n. u32_to_utf8_exact_len (take n t) \<le> cap) 0 (length t)"
proof -
  have "u32_to_ansi_exact_len multi utf16 u cp_utf8 = u32_to_utf8_exact_len u" for u
    by (simp add: u32_to_ansi_exact_len_def cp_utf8_def u32_to_utf8_exact_len_def)
  then show ?thesis by (simp add: u32_prefix_for_ansi_bytes_def)
qed

text \<open>C37: A completed \<open>ReadConsole\<close> never writes past the client's buffer and never cuts a character: with UTF-16 it
  returns the longest prefix of the line that fits, then as much of CR LF as has room left, and the whole
  line with CR LF if both fit; with UTF-8 it keeps the two bytes of CR LF free, which therefore are
  always there in a buffer of two bytes or more. Neither of the two conversions can meet its failing \<open>assert\<close>.\<close>
theorem read_completion_fits:
  assumes "\<forall>c. length (utf16 c) = wide_units c" and "\<forall>c. length (utf8 c) = utf8_units c"
  shows "(\<exists>n out. console_read_wide utf16 line maxd = Some out \<and> 2 * length out \<le> maxd
      \<and> longest (\<lambda>m. u32_to_wide_exact_len (take m line)) (maxd div 2) (length line) n
      \<and> out = concat (map utf16 (take n line)) @ take (maxd div 2 - u32_to_wide_exact_len (take n line)) [0x0D, 0x0A]
      \<and> (u32_to_wide_exact_len line + 2 \<le> maxd div 2 \<longrightarrow> out = concat (map utf16 line) @ [0x0D, 0x0A]))
    \<and> (\<exists>n out. console_read_ansi multi utf16 utf8 line cp_utf8 maxd = Some out \<and> length out \<le> maxd
      \<and> longest (\<lambda>m. u32_to_utf8_exact_len (take m line)) (maxd - 2) (length line) n
      \<and> (2 \<le> maxd \<longrightarrow> out = concat (map utf8 (take n line)) @ [0x0D, 0x0A]))"
    (is "?wide \<and> ?ansi")
proof
  let ?max = "maxd div 2" and ?size = "\<lambda>m. u32_to_wide_exact_len (take m line)"
  define n where "n = u32_prefix_for_wide_units line ?max"
  have n: "longest ?size ?max (length line) n"
    unfolding n_def wide_scan_is_search by (rule wide_prefix.prefix_longest)
  then have fits: "?size n \<le> ?max" by (auto simp: longest_def)
  let ?out = "concat (map utf16 (take n line))"
  have len: "length ?out = ?size n" by (rule encoded_length(1) [OF assms(1)])
  have out: "console_read_wide utf16 line maxd = Some (?out @ take (?max - ?size n) [0x0D, 0x0A])"
    using fits len append_crlf [of ?out ?max] by (simp add: console_read_wide_def convert_u32_to_wide_raw_def n_def [symmetric] Let_def)
  have "n = length line" if "u32_to_wide_exact_len line + 2 \<le> ?max"
    using n that unfolding longest_def by (auto dest: spec [of _ "length line"])
  moreover have "2 * length (?out @ take (?max - ?size n) [0x0D, 0x0A]) \<le> maxd" using len fits by simp
  ultimately show ?wide using n out by (intro exI [of _ n] exI [of _ "?out @ take (?max - ?size n) [0x0D, 0x0A]"]) auto
next
  let ?size = "\<lambda>m. u32_to_utf8_exact_len (take m line)"
  define n where "n = u32_prefix_for_ansi_bytes multi utf16 line cp_utf8 (maxd - 2)"
  have n: "longest ?size (maxd - 2) (length line) n"
    unfolding n_def ansi_prefix_utf8 by (rule utf8_prefix.prefix_longest)
  then have fits: "?size n \<le> maxd - 2" by (auto simp: longest_def)
  let ?out = "concat (map utf8 (take n line))"
  have len: "length ?out = ?size n" by (rule encoded_length(2) [OF assms(2)])
  have "convert_u32_to_ansi_raw multi utf16 utf8 (take n line) cp_utf8 (maxd - 2) = Some ?out"
    using fits len by (auto simp: convert_u32_to_ansi_raw_def cp_utf8_def Let_def)
  moreover have "(if maxd \<ge> 2 then maxd - 2 else 0) = maxd - 2" by simp
  ultimately have out: "console_read_ansi multi utf16 utf8 line cp_utf8 maxd = Some (?out @ take (maxd - ?size n) [0x0D, 0x0A])"
    using fits len append_crlf [of ?out maxd] by (simp add: console_read_ansi_def n_def [symmetric] Let_def)
  have "length (?out @ take (maxd - ?size n) [0x0D, 0x0A]) \<le> maxd" using len fits by simp
  moreover have "take (maxd - ?size n) [0x0D, 0x0A] = [0x0D, 0x0A]" if "2 \<le> maxd" using fits that by simp
  ultimately show ?ansi using n out by (intro exI [of _ n] exI [of _ "?out @ take (maxd - ?size n) [0x0D, 0x0A]"]) auto
qed

theorem read_completion_fits_witness:
  "console_read_wide (\<lambda>c. if c > 0xFFFF then [0xD83D, 0xDE00] else [c]) [0x61, 0x1F600, 0x62] 6 = Some [0x61, 0xD83D, 0xDE00]
   \<and> length (the (console_read_wide (\<lambda>c. if c > 0xFFFF then [0xD83D, 0xDE00] else [c]) [0x61, 0x1F600, 0x62] 6)) * 2 \<le> 6"
proof -
  let ?u16 = "\<lambda>c. if c > 0xFFFF then [0xD83D, 0xDE00 :: nat] else [c]" and ?u8 = "\<lambda>c. replicate (utf8_units c) (0 :: nat)"
  have u16: "\<forall>c. length (?u16 c) = wide_units c" by (simp add: wide_units_def)
  have u8: "\<forall>c. length (?u8 c) = utf8_units c" by simp
  obtain out where "console_read_wide ?u16 [0x61, 0x1F600, 0x62] 6 = Some out" "2 * length out \<le> 6"
    using read_completion_fits [OF u16 u8, of "[0x61, 0x1F600, 0x62]" 6] by blast
  moreover have "console_read_wide ?u16 [0x61, 0x1F600, 0x62] 6 = Some [0x61, 0xD83D, 0xDE00]" by code_simp
  ultimately show ?thesis by simp
qed

section \<open>Raw reads\<close>

text \<open>A line of a raw read ends with CR LF, whichever of the three line ends the terminal sent, if the buffer has room.\<close>

lemma raw_read_line:
  assumes "line_end \<in> {[0x0D], [0x0A], [0x0D, 0x0A]}" "length t + 2 \<le> capacity" "t = [] \<or> last t \<noteq> 0x0D"
  shows "raw_read_data eof (t @ line_end) capacity = t @ [0x0D, 0x0A]"
proof -
  have le: "length line_end \<le> 2" using assms(1) by auto
  then have n: "min (length (t @ line_end)) capacity = length t + length line_end" using assms(2) by simp
  have last: "t ! (length t - Suc 0) \<noteq> 0x0D" if "t \<noteq> []" using assms(3) that by (simp add: last_conv_nth)
  consider "line_end = [0x0D]" | "line_end = [0x0A]" | "line_end = [0x0D, 0x0A]" using assms(1) by blast
  then show ?thesis
  proof cases
    case 2
    then show ?thesis using assms(2) last unfolding raw_read_data_def n by (cases "t = []") (simp_all add: Let_def nth_append)
  qed (use assms(2) in \<open>simp_all add: raw_read_data_def n Let_def nth_append\<close>)
qed

lemma raw_read_fits: "length (raw_read_data eof buf capacity) \<le> capacity"
  by (auto simp: raw_read_data_def Let_def)

section \<open>Keys from the input queue\<close>

text \<open>What the line editor leaves alone until the read is completed.\<close>

definition read_part :: "line_edit \<Rightarrow> pending_io_state \<times> read_result list \<times> bool \<times> nat \<times> (u32 \<Rightarrow> u32 option)" where
  "read_part s = (le_pending s, le_completed s, le_read_aborted s, le_read_total s, le_aliases s)"

lemma read_part_simps [simp]:
  "read_part (s\<lparr>le_term := t\<rparr>) = read_part s" "read_part (s\<lparr>le_history := h\<rparr>) = read_part s" "read_part (s\<lparr>le_out := b\<rparr>) = read_part s"
  "read_part (s\<lparr>le_cooked := l\<rparr>) = read_part s" "read_part (s\<lparr>le_cursor := n\<rparr>) = read_part s"
  "read_part (s\<lparr>le_written := w\<rparr>) = read_part s" "read_part (s\<lparr>le_line_found := f\<rparr>) = read_part s"
  by (simp_all add: read_part_def)

lemma read_part_small [simp]:
  "read_part (vt_flush s) = read_part s" "read_part (cup_to r c s) = read_part s" "read_part (write_cells u cs s) = read_part s"
  "read_part (cooked_append ch s) = read_part s" "read_part (cooked_pop_before s) = read_part s" "read_part (cooked_pop_at s) = read_part s"
  "read_part (cooked_set_pos p s) = read_part s" "read_part (echo_byte b s) = read_part s"
proof -
  show fl: "read_part (vt_flush s) = read_part s" for s by (simp add: vt_flush_def split: prod.split)
  show "read_part (write_cells u cs s) = read_part s" by (induction cs arbitrary: s) (simp_all add: write_cells_def)
  show "read_part (cup_to r c s) = read_part s" by (simp add: cup_to_def fl)
qed (simp_all add: cooked_append_def cooked_pop_before_def cooked_pop_at_def cooked_set_pos_def echo_byte_def)

lemma read_part_line [simp]:
  "read_part (repaint_suffix u s) = read_part s" "read_part (repaint_full_line u s) = read_part s" "read_part (load_history_line u s) = read_part s"
  "read_part (cup_and_track x s) = read_part s"
  by (simp_all add: repaint_suffix_def repaint_full_line_def load_history_line_def cup_and_track_def Let_def)

lemma read_part_edit [simp]:
  "read_part (edit_insert_codepoint u c s) = read_part s" "read_part (edit_backspace u s) = read_part s" "read_part (edit_delete s) = read_part s"
  "read_part (edit_move_left s) = read_part s" "read_part (edit_move_right s) = read_part s" "read_part (edit_home s) = read_part s"
  "read_part (edit_end s) = read_part s" "read_part (history_up u s) = read_part s" "read_part (history_down u s) = read_part s"
  by (simp_all add: edit_insert_codepoint_def edit_backspace_def edit_delete_def edit_move_left_def edit_move_right_def edit_home_def
      edit_end_def history_up_def history_down_def Let_def split: option.split)

definition enter :: "input_record \<Rightarrow> bool" where
  "enter r = (case r of Key_event k \<Rightarrow> ke_down k \<and> ke_vk k = 0x0D | _ \<Rightarrow> False)"

definition edit_record :: "(char32 \<Rightarrow> nat list) \<Rightarrow> input_record \<Rightarrow> line_edit \<Rightarrow> line_edit" where
  "edit_record u r s = (case r of Key_event k \<Rightarrow> fst (edit_key_event_for_console_read u k s) | _ \<Rightarrow> s)"

lemma edit_record_keeps: "\<not> enter r \<Longrightarrow> read_part (edit_record u r s) = read_part s"
  by (auto simp: edit_record_def enter_def edit_key_event_for_console_read_def split: input_record.split)

lemma edit_records_keep: "\<forall>r \<in> set rs. \<not> enter r \<Longrightarrow> read_part (fold (edit_record u) rs s) = read_part s"
  by (induction rs arbitrary: s) (simp_all add: edit_record_keeps)

lemma ib_read_one: "ib_events b = r # rs \<Longrightarrow> \<exists>b'. ib_read 1 b = (b', [r]) \<and> ib_events b' = rs"
  by (simp add: ib_read_def Let_def)

lemma not_done: "\<not> enter (Key_event k) \<Longrightarrow> edit_key_event_for_console_read u k s = (edit_record u (Key_event k) s, False)"
  by (simp add: edit_record_def enter_def edit_key_event_for_console_read_def)

text \<open>One turn of the loop.\<close>

lemma consume_turn:
  assumes "pio_kind (le_pending s) = pk_ConsoleRead" "ib_events inp = r # rs"
  shows "\<exists>inp'. ib_events inp' = rs
    \<and> consume_input_buffer_for_console_read u inp s =
        (if enter r then (inp', edit_submit_line s, True) else consume_input_buffer_for_console_read u inp' (edit_record u r s))"
proof -
  obtain inp' where i: "ib_read 1 inp = (inp', [r])" "ib_events inp' = rs" using ib_read_one [OF assms(2)] by blast
  have "consume_input_buffer_for_console_read u inp s =
        (if enter r then (inp', edit_submit_line s, True) else consume_input_buffer_for_console_read u inp' (edit_record u r s))"
  proof (cases r)
    case (Key_event k)
    show ?thesis
    proof (cases "enter r")
      case True
      then have "edit_key_event_for_console_read u k s = (edit_submit_line s, True)"
        using Key_event by (simp add: enter_def edit_key_event_for_console_read_def)
      then show ?thesis using assms i Key_event True by (subst consume_input_buffer_for_console_read.simps) simp
    next
      case False
      then show ?thesis using assms i Key_event not_done [of k u s] by (subst consume_input_buffer_for_console_read.simps) simp
    qed
  qed (use assms i in \<open>subst consume_input_buffer_for_console_read.simps, simp add: enter_def edit_record_def\<close>)+
  then show ?thesis using i(2) by blast
qed

lemma kind_of_part: "read_part s' = read_part s \<Longrightarrow> le_pending s' = le_pending s"
  by (simp add: read_part_def)

lemma consume_until:
  assumes "pio_kind (le_pending s) = pk_ConsoleRead" "ib_events inp = rs @ rest" "\<forall>r \<in> set rs. \<not> enter r"
  shows "\<exists>inp'. ib_events inp' = rest
    \<and> consume_input_buffer_for_console_read u inp s = consume_input_buffer_for_console_read u inp' (fold (edit_record u) rs s)"
  using assms
proof (induction rs arbitrary: s inp)
  case (Cons r rs)
  obtain inp1 where i: "ib_events inp1 = rs @ rest"
    "consume_input_buffer_for_console_read u inp s = consume_input_buffer_for_console_read u inp1 (edit_record u r s)"
    using consume_turn [of s inp r "rs @ rest" u] Cons.prems by auto
  have "pio_kind (le_pending (edit_record u r s)) = pk_ConsoleRead"
    using kind_of_part [OF edit_record_keeps [of r u s]] Cons.prems by simp
  then show ?case using Cons.IH [of "edit_record u r s" inp1] Cons.prems i by simp
qed auto

lemma expand_alias_part [simp]: "read_part (expand_alias s) = read_part s"
  by (simp add: expand_alias_def Let_def split: option.split)

lemma expand_alias_cooked: "le_cooked s = le_cooked s' \<Longrightarrow> le_aliases s = le_aliases s' \<Longrightarrow> le_cooked (expand_alias s) = le_cooked (expand_alias s')"
  by (simp add: expand_alias_def Let_def split: option.split)

lemma submit_completes:
  assumes "pio_kind (le_pending s) = pk_ConsoleRead" "\<not> le_read_aborted s" "\<not> pio_vt_eof (le_pending s)"
  shows "pio_kind (le_pending (edit_submit_line s)) = pk_None
    \<and> le_completed (edit_submit_line s) = le_completed s @ [Read_line (le_cooked (expand_alias s))]
    \<and> le_cooked (edit_submit_line s) = [] \<and> le_cursor (edit_submit_line s) = 0
    \<and> le_history (edit_submit_line s) = h_reset_browse (h_push (le_cooked (expand_alias s)) (le_history s))"
proof -
  define s1 where "s1 = (if tc_cursor_valid (le_term s)
    then on_term (\<lambda>t. tc_mark_enter_newline_at_cursor (tc_crlf t)) (on_out (vt_append_str [0x0D, 0x0A]) s) else s)\<lparr>le_line_found := True\<rparr>"
  have sub: "edit_submit_line s = complete_console_read s1" by (simp add: edit_submit_line_def s1_def)
  have part: "read_part s1 = read_part s" by (simp add: s1_def)
  have same: "le_cooked s1 = le_cooked s" "le_history s1 = le_history s" by (simp_all add: s1_def)
  have line: "le_cooked (expand_alias s1) = le_cooked (expand_alias s)"
    by (rule expand_alias_cooked) (use same part in \<open>simp_all add: read_part_def\<close>)
  have hist: "le_history (expand_alias s1) = le_history s" using same by (simp add: expand_alias_def Let_def split: option.split)
  have pend: "has_pending (le_pending s1)" "\<not> le_read_aborted s1" "\<not> pio_vt_eof (le_pending s1)" "le_completed s1 = le_completed s"
    using part assms by (simp_all add: read_part_def has_pending_def)
  have ex: "le_completed (expand_alias s1) = le_completed s" "\<not> le_read_aborted (expand_alias s1)"
    using expand_alias_part [of s1] pend by (simp_all add: read_part_def)
  have "console_read_result s1 = (expand_alias s1, Read_line (le_cooked (expand_alias s1)))"
    using pend by (simp add: console_read_result_def Let_def)
  then show ?thesis
    using pend(1) ex line hist unfolding sub complete_console_read_def finish_read_def by (simp add: Let_def pending_clear_def cooked_clear_def)
qed

text \<open>C38: A pending \<open>ReadConsole\<close> ends with the first Enter of the queued keys, and with nothing else: the keys
  before it edit the line, the read is completed once, with the line as edited and its alias
  expanded, and no longer pending, the line goes to the history, the editor is empty again, and the records behind the
  Enter stay in the queue for the next read. Without an Enter every record is used up and the read stays pending.\<close>
theorem enter_completes_read:
  assumes "pio_kind (le_pending s) = pk_ConsoleRead" and "\<not> le_read_aborted s" and "\<not> pio_vt_eof (le_pending s)"
    and "\<forall>r \<in> set rs. \<not> enter r"
    and "e = fold (edit_record u) rs s"
  shows "(ib_events inp = rs \<longrightarrow>
      (\<exists>inp'. ib_events inp' = [] \<and> consume_input_buffer_for_console_read u inp s = (inp', e, False)
         \<and> pio_kind (le_pending e) = pk_ConsoleRead \<and> le_completed e = le_completed s))
    \<and> (ib_events inp = rs @ r # rest \<and> enter r \<longrightarrow>
      (\<exists>inp' s'. ib_events inp' = rest \<and> consume_input_buffer_for_console_read u inp s = (inp', s', True)
         \<and> pio_kind (le_pending s') = pk_None
         \<and> le_completed s' = le_completed s @ [Read_line (le_cooked (expand_alias e))]
         \<and> le_history s' = h_reset_browse (h_push (le_cooked (expand_alias e)) (le_history e))
         \<and> le_cooked s' = [] \<and> le_cursor s' = 0))"
    (is "(_ \<longrightarrow> ?none) \<and> (_ \<longrightarrow> ?some)")
proof (intro conjI impI)
  have part: "read_part e = read_part s" using edit_records_keep [OF assms(4)] assms(5) by simp
  then have e: "pio_kind (le_pending e) = pk_ConsoleRead" "\<not> le_read_aborted e" "\<not> pio_vt_eof (le_pending e)" "le_completed e = le_completed s"
    using assms(1-3) by (simp_all add: read_part_def)
  {
    assume "ib_events inp = rs"
    then obtain inp' where i: "ib_events inp' = []"
      "consume_input_buffer_for_console_read u inp s = consume_input_buffer_for_console_read u inp' e"
      using consume_until [OF assms(1), of inp rs "[]" u] assms(4,5) by auto
    then have "consume_input_buffer_for_console_read u inp s = (inp', e, False)"
      by (simp add: consume_input_buffer_for_console_read.simps [of u inp' e])
    then show ?none using i(1) e by blast
  }
  assume q: "ib_events inp = rs @ r # rest \<and> enter r"
  obtain inp1 where i: "ib_events inp1 = r # rest"
    "consume_input_buffer_for_console_read u inp s = consume_input_buffer_for_console_read u inp1 e"
    using consume_until [OF assms(1), of inp rs "r # rest" u] assms(4,5) q by auto
  obtain inp' where "ib_events inp' = rest" "consume_input_buffer_for_console_read u inp1 e = (inp', edit_submit_line e, True)"
    using consume_turn [OF e(1) i(1), of u] q by auto
  then show ?some using submit_completes [OF e(1-3)] e(4) i(2)
    by (intro exI [of _ inp'] exI [of _ "edit_submit_line e"]) simp
qed

text \<open>A line of two keys and an Enter, with a key of the next line behind it.\<close>

definition char_key :: "nat \<Rightarrow> input_record" where
  "char_key c = Key_event \<lparr>ke_down = True, ke_repeat = 1, ke_vk = 0, ke_scan = 0, ke_char = c, ke_ctrl = 0\<rparr>"

definition enter_key :: input_record where
  "enter_key = Key_event \<lparr>ke_down = True, ke_repeat = 1, ke_vk = 0x0D, ke_scan = 0, ke_char = 0x0D, ke_ctrl = 0\<rparr>"

definition waiting :: line_edit where
  "waiting = \<lparr>le_cooked = [], le_cursor = 0, le_term = tc_finish_inherit_cursor (coord 2 0) terminal_cursor_init,
     le_history = history_init, le_out = vt_out_init, le_output_valid = True, le_written = [], le_line_found = False,
     le_pending = begin_console_read 1 True pending_init,
     le_aliases = (\<lambda>w. if w = [0x6C, 0x73] then Some [0x64, 0x69, 0x72] else None), le_position = coord 2 0,
     le_read_total = 0, le_read_aborted = False, le_completed = []\<rparr>"

theorem enter_completes_read_witness:
  "\<exists>inp' s'. consume_input_buffer_for_console_read (\<lambda>c. [c])
       \<lparr>ib_events = [char_key 0x6C, Other_event, char_key 0x73, enter_key, char_key 0x78],
         ib_event = None\<rparr> waiting = (inp', s', True)
     \<and> ib_events inp' = [char_key 0x78] \<and> le_completed s' = [Read_line [0x64, 0x69, 0x72]]"
proof -
  let ?rs = "[char_key 0x6C, Other_event, char_key 0x73]" and ?r = enter_key
  have w: "pio_kind (le_pending waiting) = pk_ConsoleRead" "\<not> le_read_aborted waiting" "\<not> pio_vt_eof (le_pending waiting)"
    "le_completed waiting = []" by code_simp+
  have n: "\<forall>r \<in> set ?rs. \<not> enter r" "enter ?r" by (simp_all add: char_key_def enter_key_def enter_def)
  have line: "le_cooked (expand_alias (fold (edit_record (\<lambda>c. [c])) ?rs waiting)) = [0x64, 0x69, 0x72]" by code_simp
  show ?thesis
    using enter_completes_read [OF w(1-3) n(1) refl, of "\<lparr>ib_events = ?rs @ ?r # [char_key 0x78], ib_event = None\<rparr>" "\<lambda>c. [c]" ?r "[char_key 0x78]"]
      n(2) line w(4) by (auto simp del: consume_input_buffer_for_console_read.simps)
qed

end
