(* ===== verification/Char_Width.thy ===== *)
theory Char_Width
  imports Prelude
begin

text \<open>
  The number of screen columns of a character (\<open>libcorehost/char_width.hpp\<close>,
  \<open>text_measurement_mode.hpp\<close>): 0, 1 or 2. The console mode is a fixed table of ranges; the two
  others read the Unicode data of libunicode (a third-party library, the build without the system's
  ICU), which is a parameter of the model: the width and the ambiguous property of a code point, and
  the segmentation of a text into grapheme clusters.
\<close>

datatype text_measurement_mode = console | graphemes | wcswidth

record unicode_data =
  u_width :: "char32 \<Rightarrow> nat"
  u_ambiguous :: "char32 \<Rightarrow> bool"
  u_segments :: "u32 \<Rightarrow> u32 list"

definition in_range :: "char32 \<Rightarrow> nat \<Rightarrow> nat \<Rightarrow> bool" where
  "in_range cp lo hi \<longleftrightarrow> lo \<le> cp \<and> cp \<le> hi"

definition char_width_console :: "char32 \<Rightarrow> nat" where
  "char_width_console cp =
     (if cp < 0x20 then 0
      else if cp = 0x7F then 0
      else if cp = 0x00AD then 0
      else if cp = 0x200B \<or> cp = 0x200C \<or> cp = 0x200D \<or> cp = 0xFEFF then 0
      else if in_range cp 0x0300 0x036F then 0
      else if in_range cp 0x1AB0 0x1AFF then 0
      else if in_range cp 0x1DC0 0x1DFF then 0
      else if in_range cp 0x20D0 0x20FF then 0
      else if in_range cp 0xFE20 0xFE2F then 0
      else if in_range cp 0xFE00 0xFE0F then 0
      else if in_range cp 0xE0100 0xE01EF then 0
      else if in_range cp 0x4E00 0x9FFF then 2
      else if in_range cp 0x3400 0x4DBF then 2
      else if in_range cp 0x20000 0x3134F then 2
      else if in_range cp 0xF900 0xFAFF then 2
      else if in_range cp 0x2F800 0x2FA1F then 2
      else if in_range cp 0xFF01 0xFF60 then 2
      else if in_range cp 0xFFE0 0xFFE6 then 2
      else if in_range cp 0x3040 0x309F then 2
      else if in_range cp 0x30A0 0x30FF then 2
      else if in_range cp 0x31F0 0x31FF then 2
      else if in_range cp 0xAC00 0xD7AF then 2
      else if in_range cp 0x3130 0x318F then 2
      else if in_range cp 0x3000 0x303F then 2
      else if in_range cp 0x3200 0x33FF then 2
      else if in_range cp 0x2E80 0x2FDF then 2
      else if in_range cp 0x31C0 0x31EF then 2
      else if in_range cp 0x1F000 0x1FFFF then 2
      else if in_range cp 0x2600 0x27BF \<and> cp \<noteq> 0x263A \<and> cp \<noteq> 0x263B then 2
      else if in_range cp 0x2500 0x257F then 1
      else 1)"

definition char_width_unicode :: "unicode_data \<Rightarrow> char32 \<Rightarrow> bool \<Rightarrow> nat" where
  "char_width_unicode U cp ambiguous_is_wide =
     (if ambiguous_is_wide \<and> u_ambiguous U cp then 2 else u_width U cp)"

definition char_width_wcswidth :: "unicode_data \<Rightarrow> char32 \<Rightarrow> bool \<Rightarrow> nat" where
  "char_width_wcswidth U cp ambiguous_is_wide =
     (if cp < 0x20 then 0 else if cp = 0x7F then 0
      else if ambiguous_is_wide \<and> u_ambiguous U cp then 2 else u_width U cp)"

definition grapheme_cluster_width_u32 :: "unicode_data \<Rightarrow> u32 \<Rightarrow> bool \<Rightarrow> nat" where
  "grapheme_cluster_width_u32 U cluster ambiguous_is_wide =
     (if cluster = [] then 0
      else
        let width = sum_list (map (\<lambda>cp. if cp = 0xFE0F then 2
                                        else char_width_unicode U cp ambiguous_is_wide) cluster)
        in if width > 2 then 2 else width)"

definition grapheme_text_width :: "unicode_data \<Rightarrow> u32 \<Rightarrow> bool \<Rightarrow> nat" where
  "grapheme_text_width U text ambiguous_is_wide =
     (if text = [] then 0
      else sum_list (map (\<lambda>seg. grapheme_cluster_width_u32 U seg ambiguous_is_wide)
                       (u_segments U text)))"

definition char_width_for_mode :: "unicode_data \<Rightarrow> char32 \<Rightarrow> text_measurement_mode \<Rightarrow> bool \<Rightarrow> nat" where
  "char_width_for_mode U cp mode ambiguous_is_wide =
     (case mode of
        console \<Rightarrow> char_width_console cp
      | graphemes \<Rightarrow> char_width_unicode U cp ambiguous_is_wide
      | wcswidth \<Rightarrow> char_width_wcswidth U cp ambiguous_is_wide)"

definition text_width_for_mode :: "unicode_data \<Rightarrow> u32 \<Rightarrow> text_measurement_mode \<Rightarrow> bool \<Rightarrow> nat" where
  "text_width_for_mode U text mode ambiguous_is_wide =
     (case mode of
        console \<Rightarrow> sum_list (map char_width_console text)
      | graphemes \<Rightarrow> grapheme_text_width U text ambiguous_is_wide
      | wcswidth \<Rightarrow> sum_list (map (\<lambda>cp. char_width_wcswidth U cp ambiguous_is_wide) text))"

section \<open>Properties\<close>

lemma if_le: "a \<le> n \<Longrightarrow> b \<le> n \<Longrightarrow> (if P then a else b) \<le> (n :: nat)"
  by simp

lemma char_width_console_le: "char_width_console cp \<le> 2"
  unfolding char_width_console_def by (intro if_le) simp_all

text \<open>What libunicode documents: a width is at most 2, and the clusters of a text concatenate to it.\<close>

definition unicode_ok :: "unicode_data \<Rightarrow> bool" where
  "unicode_ok U \<longleftrightarrow> (\<forall>cp. u_width U cp \<le> 2) \<and>
     (\<forall>text. concat (u_segments U text) = text \<and> [] \<notin> set (u_segments U text))"

lemma sum_widths_le: "(\<And>x. f x \<le> (2::nat)) \<Longrightarrow> sum_list (map f xs) \<le> 2 * length xs"
proof (induction xs)
  case (Cons x xs)
  have "f x \<le> 2" by (rule Cons.prems)
  with Cons.IH [OF Cons.prems] show ?case by simp
qed simp

lemma length_segments: "[] \<notin> set xss \<Longrightarrow> length xss \<le> length (concat xss)"
proof (induction xss)
  case (Cons xs xss)
  then have "1 \<le> length xs" by (cases xs) auto
  then show ?case using Cons by simp
qed simp


text \<open>A toy set of Unicode data: code points from \<open>0x1100\<close> on are wide, one cluster per code point.\<close>

definition sample_unicode :: unicode_data where
  "sample_unicode = \<lparr>u_width = (\<lambda>cp. if cp < 0x1100 then 1 else 2), u_ambiguous = (\<lambda>cp. cp = 0xA7),
     u_segments = map (\<lambda>c. [c])\<rparr>"

lemma sample_unicode_ok: "unicode_ok sample_unicode"
  by (auto simp: unicode_ok_def sample_unicode_def)


end
