(* ===== verification/Console_State.thy ===== *)
theory Console_State
  imports Char_Width
begin

text \<open>
  The state of the console beside its cells (\<open>struct console_state\<close>, \<open>libcorehost/console_state.hpp\<close>): the
  cursor, the sizes, the attributes, the title, the tab stops, the saved cursors and the scroll region.
  The members that only the API handlers read and write (modes, code pages, colour table, font,
  aliases, history settings) are not in the record.
\<close>

record cursor_state =
  cu_size :: nat
  cu_visible :: bool
  cu_position :: coord
  cu_pending_wrap :: bool

record saved_cursor =
  sc_position :: coord
  sc_attributes :: attr
  sc_has_state :: bool

record console_state =
  cs_cursor :: cursor_state
  cs_buffer_size :: coord
  cs_max_window_size :: coord
  cs_attributes :: attr
  cs_title :: u32
  cs_text_measurement :: text_measurement_mode
  cs_ambiguous_is_wide :: bool
  cs_decsc :: saved_cursor
  cs_alt_screen :: saved_cursor
  cs_resized_in_alt_screen :: bool
  cs_scroll_top :: int
  cs_scroll_bottom :: int
  cs_tab_stops :: "bool list"
  cs_line_drawing :: bool

definition default_console_size :: coord where
  "default_console_size = coord 120 30"

definition tab_width :: nat where
  "tab_width = 8"

abbreviation cs_position :: "console_state \<Rightarrow> coord" where
  "cs_position s \<equiv> cu_position (cs_cursor s)"

definition set_position :: "coord \<Rightarrow> console_state \<Rightarrow> console_state" where
  "set_position p s = s\<lparr>cs_cursor := (cs_cursor s)\<lparr>cu_position := p\<rparr>\<rparr>"

abbreviation set_x :: "int \<Rightarrow> console_state \<Rightarrow> console_state" where
  "set_x x s \<equiv> set_position (coord x (cY (cs_position s))) s"

abbreviation set_y :: "int \<Rightarrow> console_state \<Rightarrow> console_state" where
  "set_y y s \<equiv> set_position (coord (cX (cs_position s)) y) s"

definition clamp_cursor_to_buffer :: "console_state \<Rightarrow> console_state" where
  "clamp_cursor_to_buffer s =
     set_position
       (coord (clamp (cX (cs_position s)) 0 (to_short (cX (cs_buffer_size s) - 1)))
          (clamp (cY (cs_position s)) 0 (to_short (cY (cs_buffer_size s) - 1)))) s"

section \<open>Tab stops\<close>

text \<open>The loops that set every eighth entry from \<open>i\<close> on (\<open>i\<close> is a multiple of eight).\<close>

definition set_every_tab :: "nat \<Rightarrow> bool list \<Rightarrow> bool list" where
  "set_every_tab i ts = map (\<lambda>(c, t). if i \<le> c \<and> c mod tab_width = i mod tab_width then True else t) (enumerate 0 ts)"

definition init_tab_stops :: "console_state \<Rightarrow> console_state" where
  "init_tab_stops s =
     s\<lparr>cs_tab_stops :=
         set_every_tab 0 (replicate (nat (max (cX (cs_buffer_size s)) (cX default_console_size))) False)\<rparr>"

definition ensure_tab_capacity :: "int \<Rightarrow> console_state \<Rightarrow> console_state" where
  "ensure_tab_capacity col s =
     (if col < 0 \<or> nat col < length (cs_tab_stops s) then s
      else
        let old_size = length (cs_tab_stops s);
            ts = cs_tab_stops s @ replicate (nat col + 1 - old_size) False
        in s\<lparr>cs_tab_stops :=
               set_every_tab (old_size + (tab_width - old_size mod tab_width) mod tab_width) ts\<rparr>)"

definition set_tab_stop :: "int \<Rightarrow> console_state \<Rightarrow> console_state" where
  "set_tab_stop col s =
     (if col \<ge> 0
      then let s1 = ensure_tab_capacity col s
           in s1\<lparr>cs_tab_stops := (cs_tab_stops s1)[nat col := True]\<rparr>
      else s)"

definition clear_tab_stop :: "int \<Rightarrow> console_state \<Rightarrow> console_state" where
  "clear_tab_stop col s =
     (if col \<ge> 0 \<and> nat col < length (cs_tab_stops s)
      then s\<lparr>cs_tab_stops := (cs_tab_stops s)[nat col := False]\<rparr>
      else s)"

definition clear_all_tab_stops :: "console_state \<Rightarrow> console_state" where
  "clear_all_tab_stops s = s\<lparr>cs_tab_stops := replicate (length (cs_tab_stops s)) False\<rparr>"

text \<open>The first tab stop right of \<open>col\<close>; a column of -2 or less ends the search at once (\<open>c >= 0\<close>).\<close>

definition next_tab_stop :: "int \<Rightarrow> console_state \<Rightarrow> int" where
  "next_tab_stop col s =
     (if col + 1 < 0 then col
      else case filter (\<lambda>c. cs_tab_stops s ! c) [nat (col + 1)..<length (cs_tab_stops s)] of
        [] \<Rightarrow> col
      | c # _ \<Rightarrow> to_short (int c))"

text \<open>The search to the left, from \<open>c\<close> down.\<close>

fun prev_tab_from :: "bool list \<Rightarrow> nat \<Rightarrow> int" where
  "prev_tab_from ts 0 = 0"
| "prev_tab_from ts (Suc c) = (if c < length ts \<and> ts ! c then to_short (int c) else prev_tab_from ts c)"

definition prev_tab_stop :: "int \<Rightarrow> console_state \<Rightarrow> int" where
  "prev_tab_stop col s = prev_tab_from (cs_tab_stops s) (nat col)"

section \<open>DEC line drawing\<close>

definition dec_to_unicode :: "nat \<Rightarrow> char32" where
  "dec_to_unicode ch =
     (if ch = 0x6a then 0x2518 else if ch = 0x6b then 0x2510 else if ch = 0x6c then 0x250C
      else if ch = 0x6d then 0x2514 else if ch = 0x6e then 0x253C else if ch = 0x6f then 0x23BA
      else if ch = 0x70 then 0x23BB else if ch = 0x71 then 0x2500 else if ch = 0x72 then 0x23BC
      else if ch = 0x73 then 0x23BD else if ch = 0x74 then 0x251C else if ch = 0x75 then 0x2524
      else if ch = 0x76 then 0x2534 else if ch = 0x77 then 0x252C else if ch = 0x78 then 0x2502
      else if ch = 0x79 then 0x2264 else if ch = 0x7a then 0x2265 else if ch = 0x7e then 0x00B7
      else ch)"

section \<open>Initial state\<close>

definition saved_cursor_init :: saved_cursor where
  "saved_cursor_init = \<lparr>sc_position = coord 0 0, sc_attributes = 0x07, sc_has_state = False\<rparr>"

definition console_state_init :: console_state where
  "console_state_init = init_tab_stops
     \<lparr>cs_cursor = \<lparr>cu_size = 25, cu_visible = True, cu_position = coord 0 0, cu_pending_wrap = False\<rparr>,
      cs_buffer_size = default_console_size, cs_max_window_size = default_console_size,
      cs_attributes = 0x07, cs_title = [], cs_text_measurement = console,
      cs_ambiguous_is_wide = False, cs_decsc = saved_cursor_init, cs_alt_screen = saved_cursor_init,
      cs_resized_in_alt_screen = False, cs_scroll_top = 1, cs_scroll_bottom = 0, cs_tab_stops = [],
      cs_line_drawing = False\<rparr>"

section \<open>Facts\<close>

lemma set_position_frame [simp]:
  "cu_position (cs_cursor (set_position p s)) = p" "cs_buffer_size (set_position p s) = cs_buffer_size s"
  "cs_tab_stops (set_position p s) = cs_tab_stops s" "cs_attributes (set_position p s) = cs_attributes s"
  "cs_decsc (set_position p s) = cs_decsc s" "cs_alt_screen (set_position p s) = cs_alt_screen s"
  by (simp_all add: set_position_def)

lemma length_set_every_tab [simp]: "length (set_every_tab i ts) = length ts"
  by (simp add: set_every_tab_def)

lemma set_every_tab_nth:
  "c < length ts \<Longrightarrow> set_every_tab i ts ! c = ((i \<le> c \<and> c mod tab_width = i mod tab_width) \<or> ts ! c)"
  by (auto simp: set_every_tab_def nth_enumerate_eq)

text \<open>The first of a filtered range.\<close>

lemma filter_upt_first:
  assumes "filter P [i..<n] = c # cs"
  shows "i \<le> c \<and> c < n \<and> P c \<and> (\<forall>k. i \<le> k \<and> k < c \<longrightarrow> \<not> P k)"
  using assms
proof (induction "n - i" arbitrary: i)
  case 0
  then show ?case by simp
next
  case (Suc m)
  then have "i < n" by simp
  then have up: "[i..<n] = i # [Suc i..<n]" by (simp add: upt_conv_Cons)
  show ?case
  proof (cases "P i")
    case True
    then show ?thesis using Suc.prems up \<open>i < n\<close> by auto
  next
    case False
    then have "filter P [Suc i..<n] = c # cs" using Suc.prems up by simp
    from Suc.hyps(1) [OF _ this] Suc.hyps(2)
    have "Suc i \<le> c \<and> c < n \<and> P c \<and> (\<forall>k. Suc i \<le> k \<and> k < c \<longrightarrow> \<not> P k)" by simp
    then show ?thesis using False by (metis Suc_leD Suc_leI le_neq_implies_less)
  qed
qed

text \<open>C23: \<open>next_tab_stop\<close> returns the nearest tab stop right of the column, or the column itself when there is
  none; \<open>prev_tab_stop\<close> the nearest one left of it, or column 0.\<close>
theorem tab_stops_nearest:
  assumes "0 \<le> col" and "col \<le> 32767" and "length (cs_tab_stops s) \<le> 32768"
    and c: "c = next_tab_stop col s" and d: "d = prev_tab_stop col s"
  shows "(if c = col then \<forall>k. col < int k \<and> k < length (cs_tab_stops s) \<longrightarrow> \<not> cs_tab_stops s ! k
       else col < c \<and> nat c < length (cs_tab_stops s) \<and> cs_tab_stops s ! nat c
          \<and> (\<forall>k. col < int k \<and> int k < c \<longrightarrow> \<not> cs_tab_stops s ! k))
    \<and> 0 \<le> d \<and> (d < col \<or> d = 0 \<and> col = 0) \<and> (d = 0 \<or> nat d < length (cs_tab_stops s) \<and> cs_tab_stops s ! nat d)
    \<and> (\<forall>k. d < int k \<and> int k < col \<and> k < length (cs_tab_stops s) \<longrightarrow> \<not> cs_tab_stops s ! k)"
proof -
  let ?ts = "cs_tab_stops s"
  have next_part: "if next_tab_stop col s = col then \<forall>k. col < int k \<and> k < length ?ts \<longrightarrow> \<not> ?ts ! k
     else col < next_tab_stop col s \<and> nat (next_tab_stop col s) < length ?ts \<and> ?ts ! nat (next_tab_stop col s)
       \<and> (\<forall>k. col < int k \<and> int k < next_tab_stop col s \<longrightarrow> \<not> ?ts ! k)"
  proof (cases "filter (\<lambda>c. ?ts ! c) [nat (col + 1)..<length ?ts]")
    case Nil
    then have "next_tab_stop col s = col" using assms(1) by (simp add: next_tab_stop_def)
    moreover have "\<not> ?ts ! k" if "col < int k" "k < length ?ts" for k
      using Nil that assms(1) by (auto simp: filter_empty_conv)
    ultimately show ?thesis by simp
  next
    case (Cons c cs)
    note F = filter_upt_first [OF this]
    have "to_short (int c) = int c" using F assms(3) by (intro to_short_id) simp_all
    then have e: "next_tab_stop col s = int c" using Cons assms(1) by (simp add: next_tab_stop_def)
    have "col < int c" using F assms(1) by linarith
    moreover have "\<forall>k. col < int k \<and> int k < int c \<longrightarrow> \<not> ?ts ! k" using F assms(1) by auto
    ultimately show ?thesis using F unfolding e by simp
  qed
  have prev: "0 \<le> prev_tab_from ?ts n \<and> (prev_tab_from ?ts n < int n \<or> prev_tab_from ?ts n = 0 \<and> n = 0)
      \<and> (prev_tab_from ?ts n = 0 \<or> nat (prev_tab_from ?ts n) < length ?ts \<and> ?ts ! nat (prev_tab_from ?ts n))
      \<and> (\<forall>k. prev_tab_from ?ts n < int k \<and> k < n \<and> k < length ?ts \<longrightarrow> \<not> ?ts ! k)" for n
  proof (induction n)
    case (Suc n)
    show ?case
    proof (cases "n < length ?ts \<and> ?ts ! n")
      case True
      then have "to_short (int n) = int n" using assms(3) by (intro to_short_id) simp_all
      then show ?thesis using True by auto
    next
      case False
      then show ?thesis using Suc.IH by (auto simp: less_Suc_eq)
    qed
  qed simp
  have n: "int (nat col) = col" "nat col = 0 \<longleftrightarrow> col = 0" "\<And>k. k < nat col \<longleftrightarrow> int k < col" using assms(1) by auto
  have "if c = col then \<forall>k. col < int k \<and> k < length ?ts \<longrightarrow> \<not> ?ts ! k
     else col < c \<and> nat c < length ?ts \<and> ?ts ! nat c \<and> (\<forall>k. col < int k \<and> int k < c \<longrightarrow> \<not> ?ts ! k)"
    using next_part by (simp only: c)
  moreover have "0 \<le> d \<and> (d < col \<or> d = 0 \<and> col = 0) \<and> (d = 0 \<or> nat d < length ?ts \<and> ?ts ! nat d)
    \<and> (\<forall>k. d < int k \<and> int k < col \<and> k < length ?ts \<longrightarrow> \<not> ?ts ! k)"
    using prev [of "nat col"] unfolding n d prev_tab_stop_def by blast
  ultimately show ?thesis by blast
qed

theorem tab_stops_nearest_witness:
  "next_tab_stop 9 (console_state_init\<lparr>cs_tab_stops := set_every_tab 0 (replicate 20 False)\<rparr>) = 16
   \<and> prev_tab_stop 9 (console_state_init\<lparr>cs_tab_stops := set_every_tab 0 (replicate 20 False)\<rparr>) = 8
   \<and> set_every_tab 0 (replicate 20 False) ! 16"
proof -
  let ?s = "console_state_init\<lparr>cs_tab_stops := set_every_tab 0 (replicate 20 False)\<rparr>"
  have n: "next_tab_stop 9 ?s = 16" "prev_tab_stop 9 ?s = 8" by (simp only: next_tab_stop_def prev_tab_stop_def console_state.simps, code_simp)+
  have "length (cs_tab_stops ?s) \<le> 32768" by simp
  from tab_stops_nearest [of 9 ?s, OF _ _ this refl refl] n show ?thesis by simp
qed

lemma next_multiple:
  fixes n :: nat
  shows "(n + (8 - n mod 8) mod 8 \<le> c \<and> c mod 8 = (n + (8 - n mod 8) mod 8) mod 8) \<longleftrightarrow> n \<le> c \<and> c mod 8 = 0"
proof (cases "n mod 8 = 0")
  case True
  then show ?thesis by simp
next
  case False
  define q r where "q = n div 8" and "r = n mod 8"
  have n: "n = 8 * q + r" "0 < r" "r < 8" using False by (simp_all add: q_def r_def)
  have "(8 - r) mod 8 = 8 - r" using n by simp
  then have A: "n + (8 - n mod 8) mod 8 = 8 * q + 8" using n by (simp add: r_def [symmetric])
  have B: "(8 * q + 8) mod 8 = 0" by simp
  have "c mod 8 = 0 \<Longrightarrow> 8 * q + 8 \<le> c \<longleftrightarrow> 8 * q + r \<le> c" using n(2,3) by presburger
  then have C: "c mod 8 = 0 \<Longrightarrow> 8 * q + 8 \<le> c \<longleftrightarrow> n \<le> c" by (simp only: n(1))
  show ?thesis unfolding A B by (metis C)
qed

text \<open>Growing the tab table for a column beyond it keeps every tab stop as it was and gives the new columns
  the default ones, every eighth from column 0.\<close>
theorem ensure_tab_capacity_defaults:
  assumes "int (length (cs_tab_stops s)) \<le> col"
  shows "length (cs_tab_stops (ensure_tab_capacity col s)) = nat col + 1
    \<and> (\<forall>c \<le> nat col. cs_tab_stops (ensure_tab_capacity col s) ! c =
         (if c < length (cs_tab_stops s) then cs_tab_stops s ! c else c mod 8 = 0))"
proof -
  let ?n = "length (cs_tab_stops s)"
  let ?i = "?n + (tab_width - ?n mod tab_width) mod tab_width"
  have grow: "\<not> (col < 0 \<or> nat col < ?n)" using assms by auto
  have e: "cs_tab_stops (ensure_tab_capacity col s) =
      set_every_tab ?i (cs_tab_stops s @ replicate (nat col + 1 - ?n) False)"
    using grow by (simp add: ensure_tab_capacity_def Let_def)
  have "(?i \<le> c \<and> c mod tab_width = ?i mod tab_width) \<longleftrightarrow> (?n \<le> c \<and> c mod 8 = 0)" for c
    unfolding tab_width_def by (rule next_multiple)
  then show ?thesis
    using grow by (auto simp: e set_every_tab_nth nth_append)
qed

theorem ensure_tab_capacity_defaults_witness:
  "cs_tab_stops (ensure_tab_capacity 17 (console_state_init\<lparr>cs_tab_stops := [False, True, True]\<rparr>)) ! 16"
proof -
  let ?s = "console_state_init\<lparr>cs_tab_stops := [False, True, True]\<rparr>"
  have "int (length (cs_tab_stops ?s)) \<le> 17" by simp
  note all = ensure_tab_capacity_defaults [OF this, THEN conjunct2, rule_format, of 16]
  have "(16::nat) \<le> nat 17" by simp
  note all [OF this]
  also have "(if 16 < length (cs_tab_stops ?s) then cs_tab_stops ?s ! 16 else (16::nat) mod 8 = 0) = True" by code_simp
  finally show ?thesis by blast
qed

end
