(* ===== verification/Row.thy ===== *)
theory Row
  imports Prelude
begin

text \<open>
  One row of the screen buffer (\<open>struct screen_buffer_row\<close>, \<open>libcorehost/screen_buffer_row.hpp\<close>): the
  record of its fields and one function per member function. Three layouts share the record:
  a filled row (\<open>r_filled\<close>: \<open>width\<close> copies of one character, \<open>r_text\<close> is stale), a single-width
  row (\<open>r_single\<close>: column i is character i, \<open>r_columns\<close> is stale), and the general one, where
  \<open>r_columns\<close> maps a column to the offset of its glyph in \<open>r_text\<close> with \<open>TRAILING_FLAG\<close> on every
  column of a glyph but the first. Attributes are uniform (\<open>r_attrs\<close> is stale) or one per column.

  A member function that only fails by returning \<open>false\<close> is a function to an option, \<open>None\<close> being
  \<open>false\<close>. Asserts are not modelled (they are off in a release build); the lemmas of \<open>Row_Inv\<close> prove
  their conditions where they matter. Columns and offsets (\<open>uint16_t\<close>) are natural numbers with the
  casts written as \<open>u16\<close>.
\<close>

definition u16 :: "nat \<Rightarrow> nat" where
  "u16 n = n mod 65536"

lemma u16_id [wrap_simps]: "n < 65536 \<Longrightarrow> u16 n = n"
  by (simp add: u16_def)

section \<open>Attributes\<close>

text \<open>
  The documented values of \<open>COMMON_LVB_LEADING_BYTE\<close>, \<open>COMMON_LVB_TRAILING_BYTE\<close> and their union
  \<open>COMMON_LVB_SBCSDBCS\<close>. An attribute is stored without them.
\<close>

definition COMMON_LVB_LEADING_BYTE :: attr where
  "COMMON_LVB_LEADING_BYTE = 0x0100"

definition COMMON_LVB_TRAILING_BYTE :: attr where
  "COMMON_LVB_TRAILING_BYTE = 0x0200"

definition COMMON_LVB_SBCSDBCS :: attr where
  "COMMON_LVB_SBCSDBCS = 0x0300"

definition text_attribute :: "attr \<Rightarrow> attr" where
  "text_attribute a = a AND (NOT COMMON_LVB_SBCSDBCS)"

definition default_attr :: attr where
  "default_attr = 0x07"

section \<open>The row\<close>

record row =
  r_text :: u32
  r_columns :: "nat list"
  r_attrs :: "attr list"
  r_single :: bool
  r_filled :: bool
  r_fill_char :: char32
  r_fill_attr :: attr
  r_attrs_uniform :: bool
  r_uniform_attr :: attr

definition TRAILING_FLAG :: nat where
  "TRAILING_FLAG = 0x8000"

definition OFFSET_MASK :: nat where
  "OFFSET_MASK = 0x7FFF"

text \<open>\<open>std::vector::resize\<close>: cut, or extended with the default value.\<close>

definition vec_resize :: "nat \<Rightarrow> 'a \<Rightarrow> 'a list \<Rightarrow> 'a list" where
  "vec_resize n d xs = take n xs @ replicate (n - length xs) d"

text \<open>A loop that stores \<open>f c\<close> at every index \<open>c\<close> of \<open>[i, j)\<close>.\<close>

definition set_range :: "nat \<Rightarrow> nat \<Rightarrow> (nat \<Rightarrow> 'a) \<Rightarrow> 'a list \<Rightarrow> 'a list" where
  "set_range i j f xs = fold (\<lambda>c ys. ys[c := f c]) [i..<j] xs"

definition row_empty :: row where
  "row_empty =
     \<lparr>r_text = [], r_columns = [], r_attrs = [], r_single = False, r_filled = False,
      r_fill_char = 0x20, r_fill_attr = default_attr, r_attrs_uniform = False,
      r_uniform_attr = default_attr\<rparr>"

definition reset_fill :: "nat \<Rightarrow> char32 \<Rightarrow> attr \<Rightarrow> row \<Rightarrow> row" where
  "reset_fill width cp attr r =
     r\<lparr>r_columns := vec_resize (width + 1) 0 (r_columns r),
       r_attrs := vec_resize width default_attr (r_attrs r),
       r_fill_char := cp, r_fill_attr := attr, r_filled := True, r_single := True,
       r_attrs_uniform := True, r_uniform_attr := attr\<rparr>"

definition new_row :: "nat \<Rightarrow> attr \<Rightarrow> row" where
  "new_row width attr = reset_fill width 0x20 (text_attribute attr) row_empty"

definition row_width :: "row \<Rightarrow> nat" where
  "row_width r = u16 (if r_columns r = [] then 0 else length (r_columns r) - 1)"

definition col_offset :: "row \<Rightarrow> nat \<Rightarrow> nat" where
  "col_offset r col =
     (if r_filled r then (if col \<le> row_width r then col else 0)
      else if r_single r then (if col \<le> row_width r then col else 0)
      else if col < length (r_columns r) then (r_columns r ! col) AND OFFSET_MASK else 0)"

definition is_trailing :: "row \<Rightarrow> nat \<Rightarrow> bool" where
  "is_trailing r col \<longleftrightarrow>
     \<not> (r_filled r \<or> r_single r) \<and>
     (col < length (r_columns r) \<and> (r_columns r ! col) AND TRAILING_FLAG \<noteq> 0)"

text \<open>The loop \<open>while (c < width() && is_trailing(c)) ++c\<close>.\<close>

definition skip_trailing :: "row \<Rightarrow> nat \<Rightarrow> nat" where
  "skip_trailing r c = c + length (takeWhile (is_trailing r) [c..<row_width r])"

definition glyph_at :: "row \<Rightarrow> nat \<Rightarrow> u32" where
  "glyph_at r col =
     (if col \<ge> row_width r then []
      else if r_filled r then [r_fill_char r]
      else if r_single r then (if col < length (r_text r) then [r_text r ! col] else [])
      else
        let start = col_offset r col;
            end_col = skip_trailing r (col + 1);
            e = col_offset r end_col;
            stop = (if e > length (r_text r) then u16 (length (r_text r)) else e)
        in if start \<ge> stop then [] else subseq (r_text r) start (stop - start))"

definition glyph_width :: "row \<Rightarrow> nat \<Rightarrow> nat" where
  "glyph_width r col =
     (if col \<ge> row_width r then 0
      else if r_filled r \<or> r_single r then 1
      else if is_trailing r col then 0
      else skip_trailing r (col + 1) - col)"

section \<open>Materialisation\<close>

definition materialize_filled :: "row \<Rightarrow> row" where
  "materialize_filled r =
     (if \<not> r_filled r then r
      else r\<lparr>r_text := replicate (row_width r) (r_fill_char r), r_attrs_uniform := True,
             r_uniform_attr := r_fill_attr r, r_filled := False, r_single := True\<rparr>)"

text \<open>\<open>std::iota(begin + i, begin + j, v)\<close> on \<open>uint16_t\<close> elements.\<close>

definition iota_range :: "nat \<Rightarrow> nat \<Rightarrow> nat \<Rightarrow> nat list \<Rightarrow> nat list" where
  "iota_range i j v xs = set_range i j (\<lambda>c. u16 (v + (c - i))) xs"

definition materialize_columns_from_single_width_layout :: "row \<Rightarrow> row" where
  "materialize_columns_from_single_width_layout r =
     (if \<not> r_single r then r
      else r\<lparr>r_columns := iota_range 0 (length (r_columns r)) 0 (r_columns r), r_single := False\<rparr>)"

definition materialize_attrs :: "row \<Rightarrow> row" where
  "materialize_attrs r =
     (if \<not> r_attrs_uniform r then r
      else r\<lparr>r_attrs := replicate (length (r_attrs r)) (r_uniform_attr r),
             r_attrs_uniform := False\<rparr>)"

section \<open>Attributes of the row\<close>

definition attr_at :: "row \<Rightarrow> nat \<Rightarrow> attr" where
  "attr_at r col =
     (if r_attrs_uniform r \<and> col < row_width r then r_uniform_attr r
      else if col < length (r_attrs r) then r_attrs r ! col else default_attr)"

definition set_attr :: "nat \<Rightarrow> attr \<Rightarrow> row \<Rightarrow> row" where
  "set_attr col a r =
     (let r1 = materialize_attrs (materialize_filled r)
      in if col < length (r_attrs r1) then r1\<lparr>r_attrs := (r_attrs r1)[col := a]\<rparr> else r1)"

definition fill_attrs :: "nat \<Rightarrow> nat \<Rightarrow> attr \<Rightarrow> row \<Rightarrow> row" where
  "fill_attrs start end_excl a r =
     (let r1 = materialize_filled r
      in if start = 0 \<and> end_excl \<ge> row_width r1
         then r1\<lparr>r_attrs_uniform := True, r_uniform_attr := a\<rparr>
         else
           let r2 = materialize_attrs r1
           in if start \<ge> length (r_attrs r2) then r2
              else r2\<lparr>r_attrs :=
                        set_range start (min end_excl (length (r_attrs r2))) (\<lambda>_. a) (r_attrs r2)\<rparr>)"

definition write_attr_range :: "nat \<Rightarrow> nat \<Rightarrow> attr \<Rightarrow> row \<Rightarrow> row" where
  "write_attr_range start end_excl a r =
     (if start = 0 \<and> end_excl \<ge> row_width r
      then r\<lparr>r_attrs_uniform := True, r_uniform_attr := a\<rparr>
      else if r_attrs_uniform r \<and> a = r_uniform_attr r then r
      else
        let r2 = materialize_attrs r
        in if start \<ge> length (r_attrs r2) then r2
           else r2\<lparr>r_attrs :=
                     set_range start (min end_excl (length (r_attrs r2))) (\<lambda>_. a) (r_attrs r2)\<rparr>)"

section \<open>Shifting and blanking\<close>

definition shift_columns_from :: "nat \<Rightarrow> int \<Rightarrow> row \<Rightarrow> row" where
  "shift_columns_from from delta r =
     r\<lparr>r_columns :=
         take from (r_columns r) @
         map (\<lambda>off. to_u16 (int (off AND TRAILING_FLAG) OR (int (off AND OFFSET_MASK) + delta)))
           (drop from (r_columns r))\<rparr>"

text \<open>The loop \<open>while (lead > 0 && is_trailing(lead)) --lead\<close>.\<close>

fun lead_of :: "row \<Rightarrow> nat \<Rightarrow> nat" where
  "lead_of r 0 = 0"
| "lead_of r (Suc c) = (if is_trailing r (Suc c) then lead_of r c else Suc c)"

definition blank_glyph_cut_at :: "nat \<Rightarrow> row \<Rightarrow> row" where
  "blank_glyph_cut_at col r =
     (if col \<ge> row_width r \<or> \<not> is_trailing r col then r
      else
        let lead = lead_of r col;
            e = skip_trailing r (col + 1);
            start = col_offset r lead;
            stop = col_offset r e;
            columns = u16 (e - lead);
            r1 = r\<lparr>r_text := str_replace start (stop - start) (replicate columns 0x20) (r_text r),
                   r_columns := set_range lead e (\<lambda>c. u16 (start + (c - lead))) (r_columns r)\<rparr>
        in shift_columns_from e (to_short (int columns - (int stop - int start))) r1)"

section \<open>Writing one glyph\<close>

text \<open>The general path, after the layout was made explicit.\<close>

definition write_glyph_general :: "nat \<Rightarrow> u32 \<Rightarrow> nat \<Rightarrow> attr \<Rightarrow> row \<Rightarrow> row" where
  "write_glyph_general col text w attr r0 =
     (let end_col = u16 (col + w);
          r = blank_glyph_cut_at end_col (blank_glyph_cut_at col (r0\<lparr>r_single := False\<rparr>));
          old_start = col_offset r col;
          old_end = col_offset r end_col;
          new_len = u16 (length text);
          r1 = r\<lparr>r_text := str_replace old_start (old_end - old_start) (take new_len text) (r_text r)\<rparr>;
          delta = to_short (to_short (int new_len) - to_short (int old_end - int old_start));
          r2 = r1\<lparr>r_columns :=
                    set_range (col + 1) end_col (\<lambda>_. u16 (old_start OR TRAILING_FLAG))
                      ((r_columns r1)[col := old_start])\<rparr>;
          r3 = shift_columns_from end_col delta r2
      in fold (\<lambda>c. set_attr c attr) [col..<end_col] r3)"

definition write_glyph :: "nat \<Rightarrow> u32 \<Rightarrow> int \<Rightarrow> attr \<Rightarrow> row \<Rightarrow> row" where
  "write_glyph col text width_columns attr r0 =
     (if col \<ge> row_width r0 \<or> width_columns \<le> 0 then r0
      else
        let w = nat (if int col + width_columns > int (row_width r0)
                     then int (row_width r0) - int col else width_columns);
            r = materialize_filled r0
        in if r_single r \<and> w = 1 \<and> length text = 1
           then write_attr_range col (u16 (col + 1)) attr (r\<lparr>r_text := (r_text r)[col := text ! 0]\<rparr>)
           else
             let r1 = materialize_columns_from_single_width_layout r;
                 next_col = u16 (col + 1);
                 old_start = col_offset r1 col;
                 old_end = col_offset r1 next_col
             in if w = 1 \<and> length text = 1 \<and> \<not> is_trailing r1 col
                   \<and> next_col \<le> row_width r1 \<and> (next_col = row_width r1 \<or> \<not> is_trailing r1 next_col)
                   \<and> old_end = old_start + 1 \<and> old_start < length (r_text r1)
                then set_attr col attr (r1\<lparr>r_text := (r_text r1)[old_start := text ! 0]\<rparr>)
                else write_glyph_general col text w attr r1)"

definition clear_cell :: "nat \<Rightarrow> attr \<Rightarrow> row \<Rightarrow> row" where
  "clear_cell col attr r = write_glyph col [0x20] 1 attr r"

section \<open>Writing a run of characters\<close>

text \<open>The test of one cell of \<open>try_write_single_width_run\<close>.\<close>

definition single_cell :: "row \<Rightarrow> nat \<Rightarrow> bool" where
  "single_cell r cell \<longleftrightarrow>
     (let next_cell = u16 (cell + 1)
      in \<not> is_trailing r cell \<and> \<not> (next_cell < row_width r \<and> is_trailing r next_cell)
         \<and> col_offset r next_cell = col_offset r cell + 1 \<and> col_offset r cell < length (r_text r))"

text \<open>The second component is the returned flag: a refused write still materialises a filled row.\<close>

definition try_write_single_width_run :: "nat \<Rightarrow> u32 \<Rightarrow> attr \<Rightarrow> row \<Rightarrow> row \<times> bool" where
  "try_write_single_width_run col text attr r0 =
     (let r = materialize_filled r0
      in if text = [] then (r, True)
         else if col \<ge> row_width r \<or> length text > row_width r - col then (r, False)
         else if r_single r
         then (write_attr_range col (u16 (col + length text)) attr
                 (r\<lparr>r_text := overwrite col text (r_text r)\<rparr>), True)
         else
           let count = u16 (length text)
           in if \<not> list_all (\<lambda>i. single_cell r (u16 (col + i))) [0..<count] then (r, False)
              else (write_attr_range col (u16 (col + count)) attr
                      (r\<lparr>r_text :=
                           fold (\<lambda>i t. t[col_offset r (u16 (col + i)) := text ! i]) [0..<count]
                             (r_text r)\<rparr>), True))"

text \<open>
  The loop that lays out the columns of the characters of a run from \<open>cell\<close> on, their texts from
  \<open>offset\<close> on: \<open>offset\<close> at the first column of each, \<open>offset | TRAILING_FLAG\<close> at the others.
\<close>

fun layout_run :: "nat \<Rightarrow> nat \<Rightarrow> nat list \<Rightarrow> nat list \<Rightarrow> nat list" where
  "layout_run cell off [] cols = cols"
| "layout_run cell off (w # ws) cols =
     layout_run (u16 (cell + w)) (u16 (off + 1)) ws
       (set_range (cell + 1) (cell + w) (\<lambda>_. u16 (off OR TRAILING_FLAG)) (cols[cell := off]))"

definition try_write_measured_run_on_filled_row ::
  "nat \<Rightarrow> u32 \<Rightarrow> nat list \<Rightarrow> nat \<Rightarrow> bool \<Rightarrow> attr \<Rightarrow> row \<Rightarrow> row option" where
  "try_write_measured_run_on_filled_row col text widths total_columns all_single_width attr r =
     (let row_width = row_width r;
          end_col = u16 (col + total_columns)
      in if \<not> r_filled r \<or> text = [] \<or> col \<ge> row_width \<or> end_col > row_width then None
         else
           let new_text = replicate col (r_fill_char r) @ text
                          @ replicate (row_width - end_col) (r_fill_char r);
               cols = (if all_single_width
                       then iota_range 0 (length (r_columns r)) 0 (r_columns r)
                       else
                         let c1 = iota_range 0 col 0 (r_columns r);
                             c2 = layout_run col col (take (length text) widths) c1
                         in iota_range end_col (row_width + 1) (u16 (col + length text)) c2);
               r1 = r\<lparr>r_text := new_text, r_columns := cols, r_attrs_uniform := True,
                      r_uniform_attr := r_fill_attr r\<rparr>
           in Some ((write_attr_range col end_col attr r1)
                      \<lparr>r_filled := False, r_single := all_single_width\<rparr>))"

definition try_write_measured_run_on_single_width_layout ::
  "nat \<Rightarrow> u32 \<Rightarrow> nat list \<Rightarrow> nat \<Rightarrow> attr \<Rightarrow> row \<Rightarrow> row option" where
  "try_write_measured_run_on_single_width_layout col text widths total_columns attr r =
     (let row_width = row_width r;
          end_col = u16 (col + total_columns)
      in if text = [] \<or> col \<ge> row_width \<or> end_col > row_width \<or> length text \<noteq> length widths then None
         else if r_filled r \<or> \<not> r_single r then None
         else
           let c1 = iota_range 0 (length (r_columns r)) 0 (r_columns r);
               c2 = layout_run col col widths c1;
               c3 = iota_range end_col (row_width + 1) (u16 (col + length text)) c2;
               r1 = r\<lparr>r_text := str_replace col total_columns text (r_text r), r_columns := c3\<rparr>
           in Some ((write_attr_range col end_col attr r1)\<lparr>r_single := False\<rparr>))"

text \<open>
  The comparison loop of \<open>try_overwrite_matching_measured_run\<close>: the cell after the run, or \<open>None\<close>
  when the layout differs. \<open>off\<close> is \<open>old_start + i\<close>.
\<close>

fun match_run :: "row \<Rightarrow> nat \<Rightarrow> nat \<Rightarrow> nat list \<Rightarrow> nat option" where
  "match_run r cell off [] = Some cell"
| "match_run r cell off (w # ws) =
     (if cell \<ge> row_width r \<or> is_trailing r cell \<or> col_offset r cell \<noteq> off then None
      else if w = 0 \<or> cell + w > row_width r then None
      else if list_all (\<lambda>k. is_trailing r (u16 (cell + k)) \<and> col_offset r (u16 (cell + k)) = off) [1..<w]
      then match_run r (u16 (cell + w)) (off + 1) ws
      else None)"

definition try_overwrite_matching_measured_run ::
  "nat \<Rightarrow> u32 \<Rightarrow> nat list \<Rightarrow> nat \<Rightarrow> attr \<Rightarrow> row \<Rightarrow> row option" where
  "try_overwrite_matching_measured_run col text widths total_columns attr r =
     (let end_col = u16 (col + total_columns);
          old_start = col_offset r col
      in if r_filled r then None
         else if text = [] \<or> col \<ge> row_width r \<or> end_col > row_width r \<or> is_trailing r col then None
         else if old_start + length text > length (r_text r) then None
         else
           (case match_run r col old_start (take (length text) widths) of
              None \<Rightarrow> None
            | Some cell \<Rightarrow>
                if cell \<noteq> end_col \<or> col_offset r end_col \<noteq> old_start + length text then None
                else Some (write_attr_range col end_col attr
                             (r\<lparr>r_text := overwrite old_start text (r_text r)\<rparr>))))"

definition write_full_row :: "u32 \<Rightarrow> nat list \<Rightarrow> bool \<Rightarrow> attr \<Rightarrow> row \<Rightarrow> row" where
  "write_full_row text widths all_single_width attr r =
     r\<lparr>r_filled := False, r_text := text,
       r_columns :=
         (if all_single_width then r_columns r
          else (layout_run 0 0 (take (length text) widths) (r_columns r))
                 [row_width r := u16 (length text)]),
       r_attrs_uniform := True, r_uniform_attr := attr, r_single := all_single_width\<rparr>"

definition write_run_general :: "nat \<Rightarrow> u32 \<Rightarrow> nat list \<Rightarrow> nat \<Rightarrow> attr \<Rightarrow> row \<Rightarrow> row" where
  "write_run_general col text widths total_columns attr r0 =
     (let end_col = u16 (col + total_columns);
          r = blank_glyph_cut_at end_col (blank_glyph_cut_at col r0);
          old_start = col_offset r col;
          old_end = col_offset r end_col;
          old_len = u16 (if old_end \<ge> old_start then old_end - old_start else 0);
          new_len = u16 (length text);
          r1 = r\<lparr>r_text := str_replace old_start old_len (take new_len text) (r_text r)\<rparr>;
          delta = to_short (to_short (int new_len) - to_short (int old_len));
          r2 = shift_columns_from end_col delta r1;
          r3 = r2\<lparr>r_columns := layout_run col old_start (take (length text) widths) (r_columns r2)\<rparr>;
          r4 = write_attr_range col end_col attr r3
      in r4\<lparr>r_columns := (r_columns r4)[row_width r4 := u16 (length (r_text r4))], r_single := False\<rparr>)"

definition write_measured_run ::
  "nat \<Rightarrow> u32 \<Rightarrow> nat list \<Rightarrow> nat \<Rightarrow> bool \<Rightarrow> attr \<Rightarrow> row \<Rightarrow> row" where
  "write_measured_run col text widths total_columns all_single_width attr r =
     (if text = [] then r
      else case try_write_measured_run_on_filled_row col text widths total_columns all_single_width attr r of
        Some r' \<Rightarrow> r'
      | None \<Rightarrow>
          if col = 0 \<and> total_columns = row_width r then write_full_row text widths all_single_width attr r
          else
            (let (r1, written) = (if all_single_width then try_write_single_width_run col text attr r
                                  else (r, False))
             in if written then r1
                else case (if \<not> all_single_width
                           then try_write_measured_run_on_single_width_layout col text widths
                                  total_columns attr r1
                           else None) of
                  Some r' \<Rightarrow> r'
                | None \<Rightarrow>
                    (case (if \<not> all_single_width
                           then try_overwrite_matching_measured_run col text widths total_columns attr r1
                           else None) of
                       Some r' \<Rightarrow> r'
                     | None \<Rightarrow> write_run_general col text widths total_columns attr r1)))"

section \<open>Copying and filling\<close>

definition copy_step :: "row \<Rightarrow> nat \<Rightarrow> nat \<Rightarrow> nat \<Rightarrow> row \<Rightarrow> row" where
  "copy_step src src_start dst_start i r =
     (let sc = u16 (src_start + i)
      in if is_trailing src sc then r
         else write_glyph (u16 (dst_start + i)) (glyph_at src sc) (int (glyph_width src sc))
                (attr_at src sc) r)"

definition copy_from :: "row \<Rightarrow> nat \<Rightarrow> nat \<Rightarrow> nat \<Rightarrow> row \<Rightarrow> row" where
  "copy_from src src_start dst_start count r =
     fold (copy_step src src_start dst_start)
       [0..<min count (min (row_width r - dst_start) (row_width src - src_start))] r"

definition row_fill :: "u32 \<Rightarrow> attr \<Rightarrow> row \<Rightarrow> row" where
  "row_fill text attr r =
     (if text = [] then r
      else fold (\<lambda>col. write_glyph col text 1 attr) [0..<row_width r] r)"

section \<open>CHAR_INFO\<close>

record char_info =
  ci_char :: nat
  ci_attributes :: attr

definition dbcs_flags :: "row \<Rightarrow> nat \<Rightarrow> attr" where
  "dbcs_flags r col =
     (if is_trailing r col then COMMON_LVB_TRAILING_BYTE
      else if col + 1 < row_width r \<and> is_trailing r (u16 (col + 1)) then COMMON_LVB_LEADING_BYTE
      else 0)"

text \<open>A glyph as a \<open>wchar_t\<close>: its first code point, U+FFFD beyond the BMP, a space when empty.\<close>

definition glyph_wchar :: "u32 \<Rightarrow> nat" where
  "glyph_wchar gv = (case gv of [] \<Rightarrow> 0x20 | c # _ \<Rightarrow> if c \<le> 0xFFFF then c else 0xFFFD)"

definition to_char_info :: "row \<Rightarrow> char_info list" where
  "to_char_info r =
     map (\<lambda>col. \<lparr>ci_char = glyph_wchar (glyph_at r col),
                  ci_attributes = attr_at r col OR dbcs_flags r col\<rparr>) [0..<row_width r]"

definition from_char_info_cell :: "nat \<Rightarrow> nat \<Rightarrow> char_info \<Rightarrow> row \<Rightarrow> row" where
  "from_char_info_cell i col ci r =
     (let attr = text_attribute (ci_attributes ci);
          leading = (ci_attributes ci AND COMMON_LVB_LEADING_BYTE \<noteq> 0);
          trailing = (\<not> leading \<and> ci_attributes ci AND COMMON_LVB_TRAILING_BYTE \<noteq> 0);
          wch = ci_char ci;
          cp = (if 0xD800 \<le> wch \<and> wch \<le> 0xDBFF then 0xFFFD else if wch = 0 then 0x20 else wch)
      in if wch = 0 \<and> \<not> leading \<and> \<not> trailing then r
         else if leading \<and> col + 1 < row_width r
         then let next_attr = attr_at r (u16 (col + 1))
              in set_attr (u16 (col + 1)) next_attr (write_glyph col [cp] 2 attr r)
         else if trailing \<and> i \<noteq> 0 then set_attr col attr r
         else if trailing \<and> col > 0
         then let prev_attr = attr_at r (u16 (col - 1))
              in set_attr col attr (write_glyph (u16 (col - 1)) [cp] 2 prev_attr r)
         else write_glyph col (if leading \<or> trailing then [0x20] else [cp]) 1 attr r)"

definition from_char_info :: "char_info list \<Rightarrow> nat \<Rightarrow> nat \<Rightarrow> row \<Rightarrow> row" where
  "from_char_info src count dst_col r0 =
     (let r = materialize_filled r0
      in fold (\<lambda>i. from_char_info_cell i (u16 (dst_col + i)) (src ! i))
           [0..<min count (row_width r - dst_col)] r)"

end
