(* ===== verification/Screen_Buffer.thy ===== *)
theory Screen_Buffer
  imports Row Viewport Char_Width
begin

text \<open>
  The screen buffer (\<open>struct screen_buffer\<close>, \<open>libcorehost/screen_buffer.hpp\<close>): a ring of rows with the
  logical row 0 at the physical index \<open>sb_origin\<close>, the viewport, and the row cache of \<open>scroll\<close>
  (\<open>_write_widths\<close> is always cleared before it is used and is a local value here). A member function
  is a function to the new buffer; a loop over columns or rows is a fold over the same range, and
  the two loops whose state decides when they stop are recursive functions.

  A row that \<open>std::move\<close> has moved from is left in an unspecified state by the C++ library; \<open>mv\<close> is
  that state, a parameter of \<open>sb_scroll\<close>.
\<close>

record screen_buffer =
  sb_size :: coord
  sb_viewport :: console_viewport
  sb_rows :: "row list"
  sb_saved :: "row list"
  sb_origin :: nat

section \<open>Rows\<close>

definition sb_ensure_rows :: "screen_buffer \<Rightarrow> screen_buffer" where
  "sb_ensure_rows b =
     b\<lparr>sb_origin := 0,
       sb_rows := replicate (nat (cY (sb_size b))) (new_row (to_u16 (cX (sb_size b))) default_attr)\<rparr>"

definition sb_new :: "coord \<Rightarrow> screen_buffer" where
  "sb_new sz =
     sb_ensure_rows \<lparr>sb_size = sz, sb_viewport = vp_reset_to_buffer sz, sb_rows = [], sb_saved = [],
                     sb_origin = 0\<rparr>"

definition physical_row_index :: "screen_buffer \<Rightarrow> int \<Rightarrow> nat" where
  "physical_row_index b y =
     (let row_count = length (sb_rows b)
      in if row_count = 0 then 0 else (sb_origin b + nat y) mod row_count)"

definition linearize_rows :: "screen_buffer \<Rightarrow> screen_buffer" where
  "linearize_rows b =
     (if sb_origin b = 0 \<or> sb_rows b = [] then b
      else b\<lparr>sb_rows := drop (sb_origin b) (sb_rows b) @ take (sb_origin b) (sb_rows b),
             sb_origin := 0\<rparr>)"

definition sb_row :: "screen_buffer \<Rightarrow> int \<Rightarrow> row" where
  "sb_row b y = sb_rows b ! physical_row_index b y"

text \<open>A call of a row's member function through the reference that \<open>row(y)\<close> returns.\<close>

definition sb_update :: "int \<Rightarrow> (row \<Rightarrow> row) \<Rightarrow> screen_buffer \<Rightarrow> screen_buffer" where
  "sb_update y f b =
     b\<lparr>sb_rows := (sb_rows b)[physical_row_index b y := f (sb_rows b ! physical_row_index b y)]\<rparr>"

lemma sb_update_frame [simp]:
  "sb_size (sb_update y f b) = sb_size b" "sb_viewport (sb_update y f b) = sb_viewport b"
  "sb_origin (sb_update y f b) = sb_origin b" "sb_saved (sb_update y f b) = sb_saved b"
  "length (sb_rows (sb_update y f b)) = length (sb_rows b)"
  by (simp_all add: sb_update_def)

definition sb_valid :: "screen_buffer \<Rightarrow> coord \<Rightarrow> bool" where
  "sb_valid b c \<longleftrightarrow> cX c \<ge> 0 \<and> cX c < cX (sb_size b) \<and> cY c \<ge> 0 \<and> cY c < cY (sb_size b)"

definition sb_valid_y :: "screen_buffer \<Rightarrow> int \<Rightarrow> bool" where
  "sb_valid_y b y \<longleftrightarrow> y \<ge> 0 \<and> y < cY (sb_size b)"

definition rect_valid :: "small_rect \<Rightarrow> bool" where
  "rect_valid r \<longleftrightarrow> rLeft r \<le> rRight r \<and> rTop r \<le> rBottom r"

definition sb_clamp :: "screen_buffer \<Rightarrow> small_rect \<Rightarrow> small_rect" where
  "sb_clamp b r =
     small_rect (if rLeft r < 0 then 0 else rLeft r) (if rTop r < 0 then 0 else rTop r)
       (if rRight r \<ge> cX (sb_size b) then to_short (cX (sb_size b) - 1) else rRight r)
       (if rBottom r \<ge> cY (sb_size b) then to_short (cY (sb_size b) - 1) else rBottom r)"

section \<open>Single glyphs, attributes and runs\<close>

definition clamp_width :: "nat \<Rightarrow> nat" where
  "clamp_width w = (if w < 1 then 1 else if w > 2 then 2 else w)"

definition sb_write_glyph :: "coord \<Rightarrow> u32 \<Rightarrow> int \<Rightarrow> attr \<Rightarrow> screen_buffer \<Rightarrow> screen_buffer" where
  "sb_write_glyph c text width_columns attr b =
     (if \<not> sb_valid b c \<or> text = [] then b
      else
        let w1 = (if width_columns < 1 then 1 else width_columns);
            w2 = (if w1 > 2 then 2 else w1)
        in sb_update (cY c) (write_glyph (to_u16 (cX c)) text w2 (text_attribute attr)) b)"

definition sb_set_u32 :: "coord \<Rightarrow> char32 \<Rightarrow> attr \<Rightarrow> screen_buffer \<Rightarrow> screen_buffer" where
  "sb_set_u32 c cp attr b = sb_write_glyph c [cp] (int (char_width_console cp)) attr b"

definition sb_try_write_single_width_run ::
  "coord \<Rightarrow> u32 \<Rightarrow> attr \<Rightarrow> screen_buffer \<Rightarrow> screen_buffer \<times> bool" where
  "sb_try_write_single_width_run c text attr b =
     (if \<not> sb_valid b c then (b, False)
      else
        let write = try_write_single_width_run (to_u16 (cX c)) text (text_attribute attr)
        in (sb_update (cY c) (\<lambda>r. fst (write r)) b, snd (write (sb_row b (cY c)))))"

definition sb_at_u32 :: "screen_buffer \<Rightarrow> coord \<Rightarrow> char32" where
  "sb_at_u32 b c =
     (if \<not> sb_valid b c then 0x20
      else case glyph_at (sb_row b (cY c)) (to_u16 (cX c)) of [] \<Rightarrow> 0x20 | cp # _ \<Rightarrow> cp)"

definition sb_glyph_at :: "screen_buffer \<Rightarrow> coord \<Rightarrow> u32" where
  "sb_glyph_at b c = (if \<not> sb_valid b c then [] else glyph_at (sb_row b (cY c)) (to_u16 (cX c)))"

definition sb_glyph_width :: "screen_buffer \<Rightarrow> coord \<Rightarrow> nat" where
  "sb_glyph_width b c =
     (if \<not> sb_valid b c then 0 else glyph_width (sb_row b (cY c)) (to_u16 (cX c)))"

definition sb_attr_at :: "screen_buffer \<Rightarrow> coord \<Rightarrow> attr" where
  "sb_attr_at b c =
     (if \<not> sb_valid b c then 0x07 else attr_at (sb_row b (cY c)) (to_u16 (cX c)))"

definition sb_set_attr :: "coord \<Rightarrow> attr \<Rightarrow> screen_buffer \<Rightarrow> screen_buffer" where
  "sb_set_attr c attr b =
     (if \<not> sb_valid b c then b
      else sb_update (cY c) (set_attr (to_u16 (cX c)) (text_attribute attr)) b)"

definition sb_fill_attrs :: "coord \<Rightarrow> nat \<Rightarrow> attr \<Rightarrow> screen_buffer \<Rightarrow> screen_buffer" where
  "sb_fill_attrs start count attr b =
     (if \<not> sb_valid_y b (cY start) then b
      else sb_update (cY start)
             (fill_attrs (to_u16 (cX start)) (to_u16 (cX start + to_short (int count)))
                (text_attribute attr)) b)"

definition sb_clear_cell :: "coord \<Rightarrow> attr \<Rightarrow> screen_buffer \<Rightarrow> screen_buffer" where
  "sb_clear_cell c attr b =
     (if \<not> sb_valid b c then b
      else sb_update (cY c) (clear_cell (to_u16 (cX c)) (text_attribute attr)) b)"

definition sb_row_has_text :: "screen_buffer \<Rightarrow> int \<Rightarrow> bool" where
  "sb_row_has_text b y \<longleftrightarrow>
     sb_valid_y b y \<and>
     list_ex (\<lambda>x. let cp = sb_at_u32 b (coord x y) in cp \<noteq> 0 \<and> cp \<noteq> 0x20)
       [0..cX (sb_size b) - 1]"

section \<open>A stretch of text on one row\<close>

text \<open>
  The measuring loop of \<open>write_text_row\<close>: how many characters fit up to the column \<open>right\<close>, how many
  columns they take, whether all are single-width, and the width buffer, which is only filled once
  a wide character is met.
\<close>

fun measure_row ::
  "(char32 \<Rightarrow> nat) \<Rightarrow> int \<Rightarrow> int \<Rightarrow> u32 \<Rightarrow> nat \<Rightarrow> nat \<Rightarrow> bool \<Rightarrow> nat list
     \<Rightarrow> nat \<times> nat \<times> bool \<times> nat list" where
  "measure_row cw x right [] consumed cells single widths = (consumed, cells, single, widths)"
| "measure_row cw x right (ch # chs) consumed cells single widths =
     (let w = clamp_width (cw ch)
      in if x + int cells + int w - 1 > right then (consumed, cells, single, widths)
         else
           let widths1 = (if w \<noteq> 1 \<and> single then replicate consumed 1 else widths);
               single1 = (if w \<noteq> 1 then False else single);
               widths2 = (if \<not> single1 then widths1 @ [w] else widths1)
           in measure_row cw x right chs (consumed + 1) (u16 (cells + w)) single1 widths2)"

definition write_row_text ::
  "nat \<Rightarrow> u32 \<Rightarrow> nat \<Rightarrow> bool \<Rightarrow> nat list \<Rightarrow> attr \<Rightarrow> row \<Rightarrow> row" where
  "write_row_text col run cells single widths attr r =
     (let full_row_replace = (col = 0 \<and> cells = row_width r)
      in if single then
           if full_row_replace then write_measured_run col run [] cells True attr r
           else
             let (r1, done) = try_write_single_width_run col run attr r
             in if \<not> done then write_measured_run col run (replicate (length run) 1) cells False attr r1
                else r1
         else write_measured_run col run widths cells False attr r)"

text \<open>Returns the buffer, the cursor, the number of characters written and \<open>row_end\<close>.\<close>

definition write_text_row ::
  "unicode_data \<Rightarrow> coord \<Rightarrow> u32 \<Rightarrow> attr \<Rightarrow> text_measurement_mode \<Rightarrow> bool \<Rightarrow> screen_buffer
     \<Rightarrow> screen_buffer \<times> coord \<times> nat \<times> bool" where
  "write_text_row U cursor text attr measurement ambiguous_is_wide b =
     (if text = [] then (b, cursor, 0, False)
      else
        let view = sb_viewport b;
            x = clamp (cX cursor) (rLeft view) (rRight view);
            y = clamp (cY cursor) (rTop view) (rBottom view);
            (consumed, cells, single, widths) =
              measure_row (\<lambda>ch. char_width_for_mode U ch measurement ambiguous_is_wide) x (rRight view)
                text 0 0 True [];
            (b1, x1) =
              (if consumed \<noteq> 0
               then (sb_update y
                       (write_row_text (to_u16 x) (take consumed text) cells single widths
                          (text_attribute attr)) b,
                     to_short (x + int cells))
               else (b, x))
        in (b1, coord x1 y, consumed, x1 > rRight view \<or> consumed < length text))"

section \<open>Linear fills\<close>

text \<open>
  The loop of \<open>fill_char\<close> and \<open>fill_attr\<close>: from column \<open>x\<close> of row \<open>y\<close> on, \<open>count\<close> columns in reading
  order; \<open>op start n\<close> fills \<open>n\<close> columns of one row. The second component counts them. (\<open>y\<close> stays
  below \<open>size.Y\<close>, so its increment cannot wrap.)
\<close>

function sb_linear_fill ::
  "(nat \<Rightarrow> nat \<Rightarrow> row \<Rightarrow> row) \<Rightarrow> int \<Rightarrow> int \<Rightarrow> nat \<Rightarrow> screen_buffer \<Rightarrow> screen_buffer \<times> nat" where
  "sb_linear_fill op x y count b =
     (if count > 0 \<and> y < cY (sb_size b)
      then
        let start_x = nat x;
            available = nat (cX (sb_size b)) - start_x;
            n = (if count < available then count else available);
            (b1, k) = sb_linear_fill op 0 (y + 1) (count - n) (sb_update y (op start_x n) b)
        in (b1, n + k)
      else (b, 0))"
  by pat_completeness auto

termination
  by (relation "measure (\<lambda>(op, x, y, count, b). nat (cY (sb_size b) - y))") auto

declare sb_linear_fill.simps [simp del]

definition fill_char_row :: "char32 \<Rightarrow> nat \<Rightarrow> nat \<Rightarrow> row \<Rightarrow> row" where
  "fill_char_row cp start_x n r =
     (let r1 = fold (\<lambda>i. clear_cell (u16 (start_x + i)) default_attr) [0..<n] r
      in fold (\<lambda>i r. write_glyph (u16 (start_x + i)) [cp] 1 (attr_at r (u16 (start_x + i))) r) [0..<n] r1)"

definition sb_fill_char :: "char32 \<Rightarrow> coord \<Rightarrow> nat \<Rightarrow> screen_buffer \<Rightarrow> screen_buffer \<times> nat" where
  "sb_fill_char cp start count b =
     (if \<not> sb_valid_y b (cY start) \<or> cX start < 0 then (b, 0)
      else if cX start \<ge> cX (sb_size b) then (b, 0)
      else sb_linear_fill (fill_char_row cp) (cX start) (cY start) count b)"

definition fill_attr_row :: "attr \<Rightarrow> nat \<Rightarrow> nat \<Rightarrow> row \<Rightarrow> row" where
  "fill_attr_row attr start_x n = fill_attrs (u16 start_x) (u16 (start_x + n)) (text_attribute attr)"

definition sb_fill_attr :: "attr \<Rightarrow> coord \<Rightarrow> nat \<Rightarrow> screen_buffer \<Rightarrow> screen_buffer \<times> nat" where
  "sb_fill_attr attr start count b =
     (if \<not> sb_valid_y b (cY start) \<or> cX start < 0 then (b, 0)
      else if cX start \<ge> cX (sb_size b) then (b, 0)
      else sb_linear_fill (fill_attr_row attr) (cX start) (cY start) count b)"

section \<open>Sequences of characters and attributes\<close>

text \<open>
  The inner loop of \<open>write_char32\<close> and \<open>write_char32_linear\<close> on one row: the row and the number of
  characters written. Each cell keeps its attribute, a wide glyph's second column included.
\<close>

fun write_chars_row :: "int \<Rightarrow> int \<Rightarrow> u32 \<Rightarrow> row \<Rightarrow> row \<times> nat" where
  "write_chars_row width x [] r = (r, 0)"
| "write_chars_row width x (ch # chs) r =
     (if \<not> x < width then (r, 0)
      else
        let cw = clamp_width (char_width_console ch);
            next_attr = attr_at r (to_u16 (x + 1));
            r1 = write_glyph (to_u16 x) [ch] (int cw) (attr_at r (to_u16 x)) r;
            r2 = (if cw = 2 then set_attr (to_u16 (x + 1)) next_attr r1 else r1);
            (r3, k) = write_chars_row width (to_short (x + int cw)) chs r2
        in (r3, k + 1))"

definition sb_write_char32 :: "coord \<Rightarrow> u32 \<Rightarrow> screen_buffer \<Rightarrow> screen_buffer \<times> nat" where
  "sb_write_char32 start chars b =
     (if \<not> sb_valid_y b (cY start) then (b, 0)
      else
        let write = write_chars_row (cX (sb_size b)) (cX start) chars
        in (sb_update (cY start) (\<lambda>r. fst (write r)) b, snd (write (sb_row b (cY start)))))"

text \<open>The outer loop of the linear writers over the rows \<open>ys\<close>; \<open>op\<close> writes one row from column \<open>x\<close>.\<close>

fun write_linear ::
  "(int \<Rightarrow> 'a list \<Rightarrow> row \<Rightarrow> row \<times> nat) \<Rightarrow> int \<Rightarrow> int list \<Rightarrow> 'a list \<Rightarrow> screen_buffer
     \<Rightarrow> screen_buffer \<times> nat" where
  "write_linear op x [] vs b = (b, 0)"
| "write_linear op x (y # ys) vs b =
     (if vs = [] then (b, 0)
      else
        let n = snd (op x vs (sb_row b y));
            (b1, k) = write_linear op 0 ys (drop n vs) (sb_update y (\<lambda>r. fst (op x vs r)) b)
        in (b1, n + k))"

definition sb_write_char32_linear :: "coord \<Rightarrow> u32 \<Rightarrow> screen_buffer \<Rightarrow> screen_buffer \<times> nat" where
  "sb_write_char32_linear start chars b =
     (if \<not> sb_valid b start then (b, 0)
      else write_linear (write_chars_row (cX (sb_size b))) (cX start)
             [cY start..cY (sb_size b) - 1] chars b)"

fun write_attrs_row :: "int \<Rightarrow> int \<Rightarrow> attr list \<Rightarrow> row \<Rightarrow> row \<times> nat" where
  "write_attrs_row width x [] r = (r, 0)"
| "write_attrs_row width x (a # as) r =
     (if \<not> x < width then (r, 0)
      else
        let (r1, k) = write_attrs_row width (x + 1) as (set_attr (to_u16 x) (text_attribute a) r)
        in (r1, k + 1))"

definition sb_write_attr_seq :: "coord \<Rightarrow> attr list \<Rightarrow> screen_buffer \<Rightarrow> screen_buffer \<times> nat" where
  "sb_write_attr_seq start attrs b =
     (if \<not> sb_valid_y b (cY start) then (b, 0)
      else
        let write = write_attrs_row (cX (sb_size b)) (cX start) attrs
        in (sb_update (cY start) (\<lambda>r. fst (write r)) b, snd (write (sb_row b (cY start)))))"

definition sb_write_attr_seq_linear :: "coord \<Rightarrow> attr list \<Rightarrow> screen_buffer \<Rightarrow> screen_buffer \<times> nat" where
  "sb_write_attr_seq_linear start attrs b =
     (if \<not> sb_valid b start then (b, 0)
      else write_linear (write_attrs_row (cX (sb_size b))) (cX start)
             [cY start..cY (sb_size b) - 1] attrs b)"

section \<open>Reading\<close>

text \<open>The columns of one row from \<open>x\<close> on, at most \<open>max_len\<close>.\<close>

definition read_columns :: "screen_buffer \<Rightarrow> int \<Rightarrow> nat \<Rightarrow> nat list" where
  "read_columns b x max_len = map to_u16 (take max_len [x..cX (sb_size b) - 1])"

definition sb_read_wchars :: "screen_buffer \<Rightarrow> coord \<Rightarrow> nat \<Rightarrow> nat list" where
  "sb_read_wchars b start max_len =
     (if \<not> sb_valid_y b (cY start) then []
      else map (\<lambda>col. glyph_wchar (glyph_at (sb_row b (cY start)) col))
             (read_columns b (cX start) max_len))"

definition sb_read_attrs :: "screen_buffer \<Rightarrow> coord \<Rightarrow> nat \<Rightarrow> attr list" where
  "sb_read_attrs b start max_len =
     (if \<not> sb_valid_y b (cY start) then []
      else map (attr_at (sb_row b (cY start))) (read_columns b (cX start) max_len))"

text \<open>The cells from \<open>start\<close> on in reading order, each a row and a column.\<close>

definition linear_cells :: "screen_buffer \<Rightarrow> coord \<Rightarrow> (int \<times> nat) list" where
  "linear_cells b start =
     concat (map (\<lambda>y. map (\<lambda>x. (y, to_u16 x))
                        [(if y = cY start then cX start else 0)..cX (sb_size b) - 1])
               [cY start..cY (sb_size b) - 1])"

definition read_wchar_cell :: "screen_buffer \<Rightarrow> nat \<Rightarrow> nat \<Rightarrow> int \<times> nat \<Rightarrow> nat list" where
  "read_wchar_cell b max_len cells = (\<lambda>(y, col).
     let rr = sb_row b y;
         flags = dbcs_flags rr col;
         trailing = (flags AND COMMON_LVB_TRAILING_BYTE \<noteq> 0)
     in if trailing \<and> cells \<noteq> 0 then []
        else if flags \<noteq> 0 \<and> (trailing \<or> cells + 1 = max_len) then [0x20]
        else [glyph_wchar (glyph_at rr col)])"

definition sb_read_wchars_linear :: "screen_buffer \<Rightarrow> coord \<Rightarrow> nat \<Rightarrow> nat list" where
  "sb_read_wchars_linear b start max_len =
     (if \<not> sb_valid b start then []
      else concat (map (\<lambda>(cells, cell). read_wchar_cell b max_len cells cell)
                     (enumerate 0 (take max_len (linear_cells b start)))))"

definition sb_read_attrs_linear :: "screen_buffer \<Rightarrow> coord \<Rightarrow> nat \<Rightarrow> attr list" where
  "sb_read_attrs_linear b start max_len =
     (if \<not> sb_valid b start then []
      else map (\<lambda>(y, col). attr_at (sb_row b y) col OR dbcs_flags (sb_row b y) col)
             (take max_len (linear_cells b start)))"

section \<open>CHAR_INFO rows, clear and resize\<close>

definition sb_row_to_ci :: "screen_buffer \<Rightarrow> int \<Rightarrow> char_info list option" where
  "sb_row_to_ci b y =
     (if y \<ge> 0 \<and> y < cY (sb_size b) then Some (to_char_info (sb_row b y)) else None)"

definition sb_row_from_ci ::
  "int \<Rightarrow> char_info list \<Rightarrow> nat \<Rightarrow> nat \<Rightarrow> screen_buffer \<Rightarrow> screen_buffer" where
  "sb_row_from_ci y src count dst_col b =
     (if y \<ge> 0 \<and> y < cY (sb_size b) then sb_update y (from_char_info src count dst_col) b else b)"

definition sb_clear :: "attr \<Rightarrow> screen_buffer \<Rightarrow> screen_buffer" where
  "sb_clear attr b =
     b\<lparr>sb_origin := 0,
       sb_rows := map (\<lambda>_. new_row (to_u16 (cX (sb_size b))) attr) (sb_rows b)\<rparr>"

definition sb_resize :: "coord \<Rightarrow> screen_buffer \<Rightarrow> screen_buffer" where
  "sb_resize new_size0 b0 =
     (let new_size = coord (if cX new_size0 < 1 then 1 else cX new_size0)
                       (if cY new_size0 < 1 then 1 else cY new_size0)
      in if new_size = sb_size b0 then b0
         else
           let b = linearize_rows b0;
               old_rows = sb_rows b;
               old_size = sb_size b;
               b1 = sb_ensure_rows
                      (b\<lparr>sb_size := new_size,
                         sb_viewport := fst (vp_clamp_to_buffer new_size (sb_viewport b))\<rparr>);
               copy_h = nat (if cY old_size < cY new_size then cY old_size else cY new_size)
           in fold (\<lambda>y b. b\<lparr>sb_rows := (sb_rows b)[y :=
                              copy_from (old_rows ! y) 0 0 (to_u16 (cX old_size)) (sb_rows b ! y)]\<rparr>)
                [0..<copy_h] b1)"

section \<open>Scrolling\<close>

definition sb_fill_row :: "char32 \<Rightarrow> attr \<Rightarrow> int \<Rightarrow> screen_buffer \<Rightarrow> screen_buffer" where
  "sb_fill_row cp attr y b =
     sb_update y (reset_fill (to_u16 (cX (sb_size b))) cp (text_attribute attr)) b"

definition sb_fill :: "small_rect \<Rightarrow> char32 \<Rightarrow> attr \<Rightarrow> screen_buffer \<Rightarrow> screen_buffer" where
  "sb_fill r0 cp attr b =
     (let r = sb_clamp b r0
      in if \<not> rect_valid r then b
         else fold (\<lambda>y. fold (\<lambda>x. sb_update y (write_glyph (to_u16 x) [cp] 1 (text_attribute attr)))
                          [rLeft r..rRight r])
                [rTop r..rBottom r] b)"

text \<open>The whole buffer moved up or down: only the ring origin moves.\<close>

definition scroll_ring :: "int \<Rightarrow> char32 \<Rightarrow> attr \<Rightarrow> screen_buffer \<Rightarrow> screen_buffer" where
  "scroll_ring dy fill_char fill_attr b =
     (let height = nat (cY (sb_size b));
          count = min (nat (if dy < 0 then - dy else dy)) height
      in if count = height
         then fold (sb_fill_row fill_char fill_attr) [0..cY (sb_size b) - 1] (b\<lparr>sb_origin := 0\<rparr>)
         else if dy < 0
         then fold (sb_fill_row fill_char fill_attr) [cY (sb_size b) - int count..cY (sb_size b) - 1]
                (b\<lparr>sb_origin := (sb_origin b + count) mod height\<rparr>)
         else fold (sb_fill_row fill_char fill_attr) [0..int count - 1]
                (b\<lparr>sb_origin := (sb_origin b + height - count) mod height\<rparr>))"

text \<open>\<open>std::move(first + count, last, first)\<close> and \<open>std::move_backward(first, last - count, last)\<close>.\<close>

definition move_up :: "(row \<Rightarrow> row) \<Rightarrow> nat \<Rightarrow> row list \<Rightarrow> row list" where
  "move_up mv count seg =
     drop count seg @
     map (\<lambda>i. if count \<le> i then mv (seg ! i) else seg ! i) [length seg - count..<length seg]"

definition move_down :: "(row \<Rightarrow> row) \<Rightarrow> nat \<Rightarrow> row list \<Rightarrow> row list" where
  "move_down mv count seg =
     map (\<lambda>i. if i < length seg - count then mv (seg ! i) else seg ! i) [0..<count] @
     take (length seg - count) seg"

text \<open>Full-width rows \<open>Top\<close> to \<open>Bottom\<close> of a linearised buffer moved up or down.\<close>

definition scroll_rows ::
  "(row \<Rightarrow> row) \<Rightarrow> small_rect \<Rightarrow> int \<Rightarrow> char32 \<Rightarrow> attr \<Rightarrow> screen_buffer \<Rightarrow> screen_buffer" where
  "scroll_rows mv sr dy fill_char fill_attr b =
     (let height = rBottom sr - rTop sr + 1;
          count = min (if dy < 0 then - dy else dy) height;
          first = nat (rTop sr);
          last = nat (rBottom sr + 1);
          seg = subseq (sb_rows b) first (last - first)
      in if dy < 0
         then
           let seg1 = (if count = 1 then drop 1 seg @ [seg ! 0] else move_up mv (nat count) seg)
           in fold (sb_fill_row fill_char fill_attr) [rBottom sr - count + 1..rBottom sr]
                (b\<lparr>sb_rows := overwrite first seg1 (sb_rows b)\<rparr>)
         else
           let seg1 = (if count = 1 then seg ! (length seg - 1) # take (length seg - 1) seg
                       else move_down mv (nat count) seg)
           in fold (sb_fill_row fill_char fill_attr) [rTop sr..rTop sr + count - 1]
                (b\<lparr>sb_rows := overwrite first seg1 (sb_rows b)\<rparr>))"

text \<open>Any other move of a linearised buffer, cell by cell through the saved rows.\<close>

definition scroll_cells ::
  "small_rect \<Rightarrow> small_rect \<Rightarrow> int \<Rightarrow> int \<Rightarrow> char32 \<Rightarrow> attr \<Rightarrow> screen_buffer \<Rightarrow> screen_buffer" where
  "scroll_cells sr clip dx dy fill_char fill_attr b =
     (let sl = max (rLeft sr) (rLeft clip - dx);
          st = max (rTop sr) (rTop clip - dy);
          sr' = min (rRight sr) (rRight clip - dx);
          sb = min (rBottom sr) (rBottom clip - dy);
          moves = (sl \<le> sr' \<and> st \<le> sb);
          sw = sr' - sl + 1;
          sh = sb - st + 1;
          saved0 = vec_resize (nat sh) row_empty (sb_saved b);
          saved = map (\<lambda>y. copy_from (sb_rows b ! nat (st + int y)) (to_u16 sl) 0 (to_u16 sw)
                             (reset_fill (to_u16 (cX (sb_size b))) 0x20 (text_attribute fill_attr)
                                (saved0 ! y)))
                    [0..<nat sh];
          b1 = (if moves then b\<lparr>sb_saved := saved\<rparr> else b);
          fr = small_rect (max (rLeft sr) (rLeft clip)) (max (rTop sr) (rTop clip))
                 (min (rRight sr) (rRight clip)) (min (rBottom sr) (rBottom clip));
          b2 = (if rect_valid fr then sb_fill fr fill_char fill_attr b1 else b1)
      in if moves
         then fold (\<lambda>y b. b\<lparr>sb_rows := (sb_rows b)[nat (st + dy + int y) :=
                          copy_from (saved ! y) 0 (to_u16 (sl + dx)) (to_u16 sw)
                            (sb_rows b ! nat (st + dy + int y))]\<rparr>)
                [0..<nat sh] b2
         else b2)"

definition sb_scroll ::
  "(row \<Rightarrow> row) \<Rightarrow> small_rect \<Rightarrow> small_rect \<Rightarrow> bool \<Rightarrow> coord \<Rightarrow> char32 \<Rightarrow> attr \<Rightarrow> screen_buffer
     \<Rightarrow> screen_buffer" where
  "sb_scroll mv sr0 clip0 use_clip dest fill_char fill_attr b =
     (let dx = cX dest - rLeft sr0;
          dy = cY dest - rTop sr0;
          sr = sb_clamp b sr0;
          w = cX (sb_size b); h = cY (sb_size b);
          clip = (if use_clip then sb_clamp b clip0 else small_rect 0 0 (to_short (w - 1)) (to_short (h - 1)))
      in if \<not> rect_valid sr then b
         else if \<not> rect_valid clip then b
         else if dx = 0 \<and> dy \<noteq> 0 \<and> rLeft sr = 0 \<and> rTop sr = 0 \<and> rRight sr = w - 1 \<and> rBottom sr = h - 1
              \<and> rLeft clip = 0 \<and> rTop clip = 0 \<and> rRight clip = w - 1 \<and> rBottom clip = h - 1
         then scroll_ring dy fill_char fill_attr b
         else
           let b1 = linearize_rows b
           in if dx = 0 \<and> dy \<noteq> 0 \<and> rLeft sr = 0 \<and> rRight sr = w - 1 \<and> rLeft clip = rLeft sr
                 \<and> rRight clip = rRight sr \<and> rTop clip = rTop sr \<and> rBottom clip = rBottom sr
              then scroll_rows mv sr dy fill_char fill_attr b1
              else scroll_cells sr clip dx dy fill_char fill_attr b1)"

definition sb_shift_rows :: "(row \<Rightarrow> row) \<Rightarrow> int \<Rightarrow> attr \<Rightarrow> screen_buffer \<Rightarrow> screen_buffer" where
  "sb_shift_rows mv dy fill_attr b =
     (if dy = 0 then b
      else
        let whole = small_rect 0 0 (to_short (cX (sb_size b) - 1)) (to_short (cY (sb_size b) - 1))
        in sb_scroll mv whole whole False (coord 0 dy) 0x20 fill_attr b)"

end
