(* ===== verification/Vt_Dispatch.thy ===== *)
theory Vt_Dispatch
  imports Vt_Message Console_State Screen_Buffer
begin

text \<open>
  What a parsed VT message does to the console's local model (\<open>libcorehost/vt_msg_dispatch.hpp\<close>): the SGR
  attribute functions and \<open>vt_msg_apply_state\<close>, the state being the pair of \<open>console_state\<close> and
  \<open>screen_buffer\<close>. Reading a member of the payload union that is not the active one has no meaning in
  C++; the accessors return 0 or an empty text there.
\<close>

section \<open>SGR attributes\<close>

text \<open>The documented values of the Win32 attribute bits.\<close>

definition FOREGROUND_BLUE :: attr where "FOREGROUND_BLUE = 0x0001"
definition FOREGROUND_GREEN :: attr where "FOREGROUND_GREEN = 0x0002"
definition FOREGROUND_RED :: attr where "FOREGROUND_RED = 0x0004"
definition FOREGROUND_INTENSITY :: attr where "FOREGROUND_INTENSITY = 0x0008"
definition BACKGROUND_BLUE :: attr where "BACKGROUND_BLUE = 0x0010"
definition BACKGROUND_GREEN :: attr where "BACKGROUND_GREEN = 0x0020"
definition BACKGROUND_RED :: attr where "BACKGROUND_RED = 0x0040"
definition BACKGROUND_INTENSITY :: attr where "BACKGROUND_INTENSITY = 0x0080"
definition COMMON_LVB_GRID_HORIZONTAL :: attr where "COMMON_LVB_GRID_HORIZONTAL = 0x0400"
definition COMMON_LVB_REVERSE_VIDEO :: attr where "COMMON_LVB_REVERSE_VIDEO = 0x4000"
definition COMMON_LVB_UNDERSCORE :: attr where "COMMON_LVB_UNDERSCORE = 0x8000"

lemmas attr_consts = FOREGROUND_BLUE_def FOREGROUND_GREEN_def FOREGROUND_RED_def FOREGROUND_INTENSITY_def
  BACKGROUND_BLUE_def BACKGROUND_GREEN_def BACKGROUND_RED_def BACKGROUND_INTENSITY_def
  COMMON_LVB_GRID_HORIZONTAL_def COMMON_LVB_REVERSE_VIDEO_def COMMON_LVB_UNDERSCORE_def

definition reset_sgr_attributes :: "attr \<Rightarrow> attr" where
  "reset_sgr_attributes attr = 0x07"

definition set_sgr_foreground_default :: "attr \<Rightarrow> attr" where
  "set_sgr_foreground_default attr = (attr AND 0xFFF0) OR 7"

definition set_sgr_background_default :: "attr \<Rightarrow> attr" where
  "set_sgr_background_default attr = attr AND 0xFF0F"

definition bit_if :: "nat \<Rightarrow> nat \<Rightarrow> attr \<Rightarrow> attr" where
  "bit_if index m a = (if and index m \<noteq> 0 then a else 0)"

definition set_sgr_foreground_index :: "attr \<Rightarrow> nat \<Rightarrow> attr" where
  "set_sgr_foreground_index attr index =
     (if index \<le> 15
      then (attr AND 0xFFF0) OR (bit_if index 1 FOREGROUND_RED OR bit_if index 2 FOREGROUND_GREEN
             OR bit_if index 4 FOREGROUND_BLUE OR bit_if index 8 FOREGROUND_INTENSITY)
      else attr)"

definition set_sgr_background_index :: "attr \<Rightarrow> nat \<Rightarrow> attr" where
  "set_sgr_background_index attr index =
     (if index \<le> 15
      then (attr AND 0xFF0F) OR (bit_if index 1 BACKGROUND_RED OR bit_if index 2 BACKGROUND_GREEN
             OR bit_if index 4 BACKGROUND_BLUE OR bit_if index 8 BACKGROUND_INTENSITY)
      else attr)"

definition set_sgr_flag :: "attr \<Rightarrow> attr \<Rightarrow> attr" where
  "set_sgr_flag attr flag = attr OR flag"

definition clear_sgr_flag :: "attr \<Rightarrow> attr \<Rightarrow> attr" where
  "clear_sgr_flag attr flag = attr AND NOT flag"

definition apply_sgr_to_attributes :: "vt_sgr \<Rightarrow> attr \<Rightarrow> attr" where
  "apply_sgr_to_attributes sgr attr0 =
     (let a1 = (if vt_sgr_has sgr sgr_reset then reset_sgr_attributes attr0 else attr0);
          a2 = (if col_kind (sgr_fg sgr) = color_default then set_sgr_foreground_default a1
                else if col_kind (sgr_fg sgr) = color_indexed \<and> col_value (sgr_fg sgr) \<le> 15
                then set_sgr_foreground_index a1 (col_value (sgr_fg sgr)) else a1);
          a3 = (if col_kind (sgr_bg sgr) = color_default then set_sgr_background_default a2
                else if col_kind (sgr_bg sgr) = color_indexed \<and> col_value (sgr_bg sgr) \<le> 15
                then set_sgr_background_index a2 (col_value (sgr_bg sgr)) else a2);
          a4 = (if vt_sgr_clears sgr sgr_bold then clear_sgr_flag a3 COMMON_LVB_GRID_HORIZONTAL else a3);
          a5 = (if vt_sgr_clears sgr sgr_underline then clear_sgr_flag a4 COMMON_LVB_UNDERSCORE else a4);
          a6 = (if vt_sgr_clears sgr sgr_negative then clear_sgr_flag a5 COMMON_LVB_REVERSE_VIDEO else a5);
          a7 = (if vt_sgr_has sgr sgr_bold then set_sgr_flag a6 COMMON_LVB_GRID_HORIZONTAL else a6);
          a8 = (if vt_sgr_has sgr sgr_underline then set_sgr_flag a7 COMMON_LVB_UNDERSCORE else a7)
      in if vt_sgr_has sgr sgr_negative then set_sgr_flag a8 COMMON_LVB_REVERSE_VIDEO else a8)"

section \<open>Payload accessors\<close>

definition payload_text :: "vt_payload \<Rightarrow> u32" where
  "payload_text p = (case p of P_text t \<Rightarrow> t | P_title t \<Rightarrow> t | _ \<Rightarrow> [])"

definition payload_count :: "vt_payload \<Rightarrow> int" where
  "payload_count p = (case p of P_count n \<Rightarrow> n | _ \<Rightarrow> 0)"

definition payload_row :: "vt_payload \<Rightarrow> int" where
  "payload_row p = (case p of P_position r c \<Rightarrow> r | _ \<Rightarrow> 0)"

definition payload_col :: "vt_payload \<Rightarrow> int" where
  "payload_col p = (case p of P_position r c \<Rightarrow> c | _ \<Rightarrow> 0)"

definition payload_erase_mode :: "vt_payload \<Rightarrow> int" where
  "payload_erase_mode p = (case p of P_erase_mode m \<Rightarrow> m | _ \<Rightarrow> 0)"

definition payload_resize :: "vt_payload \<Rightarrow> int \<times> int" where
  "payload_resize p = (case p of P_resize r c \<Rightarrow> (r, c) | _ \<Rightarrow> (0, 0))"

definition payload_sgr :: "vt_payload \<Rightarrow> vt_sgr" where
  "payload_sgr p = (case p of P_sgr s \<Rightarrow> s | _ \<Rightarrow> vt_sgr_init)"

section \<open>Text\<close>

text \<open>The loop over the characters; a \<open>break\<close> returns.\<close>

fun apply_text_loop ::
  "unicode_data \<Rightarrow> console_state \<Rightarrow> u32 \<Rightarrow> coord \<Rightarrow> screen_buffer \<Rightarrow> coord \<times> screen_buffer" where
  "apply_text_loop U s [] pos b = (pos, b)"
| "apply_text_loop U s (ch # chs) pos b =
     (let w = cX (cs_buffer_size s); h = cY (cs_buffer_size s)
      in if cX pos \<ge> w then (pos, b)
         else if cY pos \<ge> h then (pos, b)
         else
           let cw0 = char_width_for_mode U ch (cs_text_measurement s) (cs_ambiguous_is_wide s);
               cw = (if cw0 < 1 then 1 else cw0);
               wraps = (cX pos + int cw > w);
               pos1 = (if wraps then coord 0 (to_short (cY pos + 1)) else pos)
           in if wraps \<and> cY pos1 \<ge> h then (coord (cX pos1) (to_short (h - 1)), b)
              else
                let b1 = sb_set_u32 pos1 ch (cs_attributes s) b;
                    x = to_short (cX pos1 + int cw);
                    pos2 = (if x \<ge> w then coord 0 (to_short (cY pos1 + 1)) else coord x (cY pos1))
                in apply_text_loop U s chs pos2 b1)"

definition apply_text :: "unicode_data \<Rightarrow> u32 \<Rightarrow> console_state \<Rightarrow> screen_buffer \<Rightarrow> console_state \<times> screen_buffer" where
  "apply_text U chars s b =
     (let (pos, b1) = apply_text_loop U s chars (cs_position s) b;
          w = cX (cs_buffer_size s); h = cY (cs_buffer_size s);
          x1 = (if cX pos \<ge> w then to_short (w - 1) else cX pos);
          y1 = (if cY pos \<ge> h then to_short (h - 1) else cY pos);
          x2 = (if x1 < 0 then 0 else x1);
          y2 = (if y1 < 0 then 0 else y1)
      in (set_position (coord x2 y2) s, b1))"

section \<open>Cursor moves\<close>

definition floor0 :: "int \<Rightarrow> int" where
  "floor0 v = (if v < 0 then 0 else v)"

definition cap :: "int \<Rightarrow> int \<Rightarrow> int" where
  "cap v limit = (if v \<ge> limit then to_short (limit - 1) else v)"

definition apply_cursor :: "vt_cursor_id \<Rightarrow> vt_payload \<Rightarrow> console_state \<Rightarrow> console_state" where
  "apply_cursor c p s =
     (let x = cX (cs_position s); y = cY (cs_position s);
          w = cX (cs_buffer_size s); h = cY (cs_buffer_size s);
          n = payload_count p
      in case c of
        cursor_up \<Rightarrow> set_y (floor0 (to_short (y - n))) s
      | cursor_down \<Rightarrow> set_y (cap (to_short (y + n)) h) s
      | cursor_forward \<Rightarrow> set_x (cap (to_short (x + n)) w) s
      | cursor_backward \<Rightarrow> set_x (floor0 (to_short (x - n))) s
      | cursor_next_line \<Rightarrow> set_position (coord 0 (cap (to_short (y + n)) h)) s
      | cursor_prev_line \<Rightarrow> set_position (coord 0 (floor0 (to_short (y - n)))) s
      | cursor_forward_tab \<Rightarrow> set_x (next_tab_stop x s) s
      | cursor_backward_tab \<Rightarrow> set_x (prev_tab_stop x s) s
      | cursor_vert_absolute \<Rightarrow> set_y (cap (floor0 (to_short (payload_row p - 1))) h) s
      | cursor_horiz_absolute \<Rightarrow> set_x (cap (floor0 (to_short (payload_col p - 1))) w) s
      | cursor_position \<Rightarrow>
          set_position (coord (cap (floor0 (to_short (payload_col p - 1))) w)
                          (cap (floor0 (to_short (payload_row p - 1))) h)) s
      | save_cursor \<Rightarrow>
          s\<lparr>cs_decsc := \<lparr>sc_position = cs_position s, sc_attributes = cs_attributes s, sc_has_state = True\<rparr>\<rparr>
      | ansi_save_cursor \<Rightarrow>
          s\<lparr>cs_decsc := \<lparr>sc_position = cs_position s, sc_attributes = cs_attributes s, sc_has_state = True\<rparr>\<rparr>
      | restore_cursor \<Rightarrow>
          (if sc_has_state (cs_decsc s)
           then (set_position (sc_position (cs_decsc s)) s)\<lparr>cs_attributes := sc_attributes (cs_decsc s)\<rparr> else s)
      | ansi_restore_cursor \<Rightarrow>
          (if sc_has_state (cs_decsc s)
           then (set_position (sc_position (cs_decsc s)) s)\<lparr>cs_attributes := sc_attributes (cs_decsc s)\<rparr> else s)
      | cursor_show \<Rightarrow> s\<lparr>cs_cursor := (cs_cursor s)\<lparr>cu_visible := True\<rparr>\<rparr>
      | cursor_hide \<Rightarrow> s\<lparr>cs_cursor := (cs_cursor s)\<lparr>cu_visible := False\<rparr>\<rparr>
      | _ \<Rightarrow> s)"

definition apply_mode :: "vt_mode_id \<Rightarrow> console_state \<Rightarrow> console_state" where
  "apply_mode m s =
     (case m of
        horizontal_tab_set \<Rightarrow> set_tab_stop (cX (cs_position s)) s
      | tab_clear_current \<Rightarrow> clear_tab_stop (cX (cs_position s)) s
      | tab_clear_all \<Rightarrow> clear_all_tab_stops s
      | designate_charset_line_drawing \<Rightarrow> s\<lparr>cs_line_drawing := True\<rparr>
      | designate_charset_ascii \<Rightarrow> s\<lparr>cs_line_drawing := False\<rparr>
      | _ \<Rightarrow> s)"

section \<open>Erasing, scrolling, resizing\<close>

text \<open>
  The loops \<open>for (SHORT x = lo; x <= hi; ++x)\<close> run over \<open>[lo..hi]\<close>; the one that ends at the cursor would not
  end for a cursor in column 32767, which no buffer has.
\<close>

definition clear_cells :: "int list \<Rightarrow> int \<Rightarrow> attr \<Rightarrow> screen_buffer \<Rightarrow> screen_buffer" where
  "clear_cells xs y attr b = fold (\<lambda>x. sb_clear_cell (coord x y) attr) xs b"

definition apply_erase_in_display :: "int \<Rightarrow> console_state \<Rightarrow> screen_buffer \<Rightarrow> screen_buffer" where
  "apply_erase_in_display mode s b =
     (let x = cX (cs_position s); y = cY (cs_position s); a = cs_attributes s;
          w = cX (cs_buffer_size s); h = cY (cs_buffer_size s)
      in if mode = 0
         then fold (\<lambda>y'. clear_cells [0..w - 1] y' a) [to_short (y + 1)..h - 1] (clear_cells [x..w - 1] y a b)
         else if mode = 1
         then clear_cells [0..x] y a (fold (\<lambda>y'. clear_cells [0..w - 1] y' a) [0..y - 1] b)
         else if mode = 2 \<or> mode = 3 then sb_clear a b
         else b)"

definition apply_erase_in_line :: "int \<Rightarrow> console_state \<Rightarrow> screen_buffer \<Rightarrow> screen_buffer" where
  "apply_erase_in_line mode s b =
     (let x = cX (cs_position s); y = cY (cs_position s); a = cs_attributes s;
          w = cX (cs_buffer_size s)
      in if mode = 0 then clear_cells [x..w - 1] y a b
         else if mode = 1 then clear_cells [0..x] y a b
         else if mode = 2 then clear_cells [0..w - 1] y a b
         else b)"

text \<open>\<open>scroll_up\<close>, \<open>scroll_down\<close>, \<open>insert_lines\<close> and \<open>delete_lines\<close>: the rows from the cursor's on move by \<open>dy\<close>.\<close>

definition apply_scroll :: "(row \<Rightarrow> row) \<Rightarrow> int \<Rightarrow> console_state \<Rightarrow> screen_buffer \<Rightarrow> screen_buffer" where
  "apply_scroll mv dy s b =
     (let sr = small_rect 0 (cY (cs_position s)) (to_short (cX (cs_buffer_size s) - 1))
                 (to_short (cY (cs_buffer_size s) - 1))
      in sb_scroll mv sr sr False (coord (rLeft sr) (to_short (rTop sr + dy))) 0x20 (cs_attributes s) b)"

definition apply_resize :: "int \<Rightarrow> int \<Rightarrow> console_state \<Rightarrow> screen_buffer \<Rightarrow> console_state \<times> screen_buffer" where
  "apply_resize rows cols s b =
     (if rows > 0 \<and> cols > 0
      then
        let s1 = s\<lparr>cs_buffer_size := coord cols rows, cs_max_window_size := coord cols rows,
                   cs_scroll_top := 1, cs_scroll_bottom := 0\<rparr>;
            b1 = b\<lparr>sb_viewport := vp_reset_to_buffer (coord cols rows)\<rparr>;
            s2 = init_tab_stops (clear_all_tab_stops s1);
            b2 = sb_resize (coord cols rows) b1;
            x = (if cX (cs_position s2) \<ge> cols then to_short (cols - 1) else cX (cs_position s2));
            y = (if cY (cs_position s2) \<ge> rows then to_short (rows - 1) else cY (cs_position s2))
        in (set_position (coord x y) s2, b2)
      else (s, b))"

definition apply_screen ::
  "(row \<Rightarrow> row) \<Rightarrow> vt_screen_id \<Rightarrow> vt_payload \<Rightarrow> console_state \<Rightarrow> screen_buffer \<Rightarrow> console_state \<times> screen_buffer" where
  "apply_screen mv c p s b =
     (case c of
        scroll_up \<Rightarrow> (s, apply_scroll mv (- payload_count p) s b)
      | scroll_down \<Rightarrow> (s, apply_scroll mv (payload_count p) s b)
      | insert_lines \<Rightarrow> (s, apply_scroll mv (payload_count p) s b)
      | delete_lines \<Rightarrow> (s, apply_scroll mv (- payload_count p) s b)
      | erase_in_display \<Rightarrow> (s, apply_erase_in_display (payload_erase_mode p) s b)
      | erase_in_line \<Rightarrow> (s, apply_erase_in_line (payload_erase_mode p) s b)
      | use_alternate_buffer \<Rightarrow>
          (s\<lparr>cs_alt_screen := (cs_alt_screen s)\<lparr>sc_position := cs_position s, sc_has_state := True\<rparr>,
             cs_resized_in_alt_screen := False\<rparr>, b)
      | use_main_buffer \<Rightarrow>
          (if sc_has_state (cs_alt_screen s)
           then ((set_position (sc_position (cs_alt_screen s)) s)
                   \<lparr>cs_alt_screen := (cs_alt_screen s)\<lparr>sc_has_state := False\<rparr>\<rparr>, b)
           else (s, b))
      | resize_window \<Rightarrow> (case payload_resize p of (rows, cols) \<Rightarrow> apply_resize rows cols s b)
      | _ \<Rightarrow> (s, b))"

section \<open>The dispatch\<close>

definition vt_msg_apply_state ::
  "unicode_data \<Rightarrow> (row \<Rightarrow> row) \<Rightarrow> vt_message_id \<Rightarrow> vt_message \<Rightarrow> console_state \<times> screen_buffer
     \<Rightarrow> console_state \<times> screen_buffer" where
  "vt_msg_apply_state U mv ident msg st =
     (let (s, b) = st; p = m_payload msg
      in case ident of
        text_msg \<Rightarrow> apply_text U (payload_text p) s b
      | set_window_title \<Rightarrow> (s\<lparr>cs_title := payload_text p\<rparr>, b)
      | carriage_return \<Rightarrow> (set_x 0 s, b)
      | line_feed \<Rightarrow>
          (set_position (coord 0 (cap (to_short (cY (cs_position s) + 1)) (cY (cs_buffer_size s)))) s, b)
      | Cursor c \<Rightarrow> (apply_cursor c p s, b)
      | Mode m \<Rightarrow> (apply_mode m s, b)
      | Screen c \<Rightarrow> apply_screen mv c p s b
      | sgr_msg \<Rightarrow> (s\<lparr>cs_attributes := apply_sgr_to_attributes (payload_sgr p) (cs_attributes s)\<rparr>, b)
      | _ \<Rightarrow> (s, b))"

end
