(* ===== verification/Glyphs.thy ===== *)
theory Glyphs
  imports Prelude
begin

text \<open>
  The abstract content of a row: the list of its glyphs from left to right, each with the number of
  columns it takes. Writing is a function of this list alone (\<open>g_write\<close>): the columns before and
  after the written ones are kept, a glyph cut by either end becomes spaces, and what was covered is
  gone. \<open>Row_Inv\<close> proves that every layout and fast path of the row implements it.
\<close>

type_synonym glyph = "u32 \<times> nat"

definition gwidth :: "glyph list \<Rightarrow> nat" where
  "gwidth gs = sum_list (map snd gs)"

definition gtext :: "glyph list \<Rightarrow> u32" where
  "gtext gs = concat (map fst gs)"

text \<open>
  What a glyph list may need of the 15-bit offsets: a glyph counts the larger of its text and its
  columns, since a cut turns columns into spaces.
\<close>

definition gweight :: "glyph list \<Rightarrow> nat" where
  "gweight gs = sum_list (map (\<lambda>(t, w). max (length t) w) gs)"

definition gpos :: "glyph list \<Rightarrow> bool" where
  "gpos gs \<longleftrightarrow> (\<forall>(t, w) \<in> set gs. 1 \<le> w)"

definition space_glyph :: glyph where
  "space_glyph = ([0x20], 1)"

definition gspaces :: "nat \<Rightarrow> glyph list" where
  "gspaces n = replicate n space_glyph"

fun gtake :: "nat \<Rightarrow> glyph list \<Rightarrow> glyph list" where
  "gtake n [] = []"
| "gtake n ((t, w) # gs) =
     (if n = 0 then [] else if w \<le> n then (t, w) # gtake (n - w) gs else gspaces n)"

fun gdrop :: "nat \<Rightarrow> glyph list \<Rightarrow> glyph list" where
  "gdrop n [] = []"
| "gdrop n ((t, w) # gs) =
     (if n = 0 then (t, w) # gs else if w \<le> n then gdrop (n - w) gs else gspaces (w - n) @ gs)"

definition g_write_run :: "nat \<Rightarrow> glyph list \<Rightarrow> glyph list \<Rightarrow> glyph list" where
  "g_write_run col new gs = gtake col gs @ new @ gdrop (col + gwidth new) gs"

definition g_write :: "nat \<Rightarrow> u32 \<Rightarrow> nat \<Rightarrow> glyph list \<Rightarrow> glyph list" where
  "g_write col t w gs = g_write_run col [(t, w)] gs"

definition g_cut :: "nat \<Rightarrow> glyph list \<Rightarrow> glyph list" where
  "g_cut n gs = gtake n gs @ gdrop n gs"

text \<open>One glyph per character.\<close>

definition g_chars :: "u32 \<Rightarrow> glyph list" where
  "g_chars cs = map (\<lambda>c. ([c], 1)) cs"

text \<open>One glyph per character with the given widths.\<close>

definition g_run :: "u32 \<Rightarrow> nat list \<Rightarrow> glyph list" where
  "g_run cs ws = map (\<lambda>(c, w). ([c], w)) (zip cs ws)"

section \<open>Width, text and weight\<close>

lemma gwidth_simps [simp]:
  "gwidth [] = 0" "gwidth ((t, w) # gs) = w + gwidth gs" "gwidth (as @ bs) = gwidth as + gwidth bs"
  by (simp_all add: gwidth_def)

lemma gtext_simps [simp]:
  "gtext [] = []" "gtext ((t, w) # gs) = t @ gtext gs" "gtext (as @ bs) = gtext as @ gtext bs"
  by (simp_all add: gtext_def)

lemma gweight_simps [simp]:
  "gweight [] = 0" "gweight ((t, w) # gs) = max (length t) w + gweight gs"
  "gweight (as @ bs) = gweight as + gweight bs"
  by (simp_all add: gweight_def)

lemma gpos_simps [simp]:
  "gpos []" "gpos ((t, w) # gs) \<longleftrightarrow> 1 \<le> w \<and> gpos gs" "gpos (as @ bs) \<longleftrightarrow> gpos as \<and> gpos bs"
  by (auto simp: gpos_def)

lemma gspaces_simps [simp]:
  "gspaces 0 = []" "gspaces (Suc n) = space_glyph # gspaces n"
  "gwidth (gspaces n) = n" "gtext (gspaces n) = replicate n 0x20" "gweight (gspaces n) = n"
  "gpos (gspaces n)" "length (gspaces n) = n"
  by (induction n) (simp_all add: gspaces_def space_glyph_def gwidth_def gtext_def gweight_def gpos_def)

lemma gwidth_le_gweight: "gwidth gs \<le> gweight gs"
  by (induction gs) auto

lemma length_gtext_le_gweight: "length (gtext gs) \<le> gweight gs"
  by (induction gs) auto

lemma g_chars_simps [simp]:
  "g_chars [] = []" "g_chars (c # cs) = ([c], 1) # g_chars cs"
  "g_chars (as @ bs) = g_chars as @ g_chars bs"
  "gwidth (g_chars cs) = length cs" "gtext (g_chars cs) = cs" "gweight (g_chars cs) = length cs"
  "gpos (g_chars cs)"
proof -
  show "gwidth (g_chars cs) = length cs" by (induction cs) (simp_all add: g_chars_def)
  show "gtext (g_chars cs) = cs" by (induction cs) (simp_all add: g_chars_def)
  show "gweight (g_chars cs) = length cs" by (induction cs) (simp_all add: g_chars_def)
  show "gpos (g_chars cs)" by (induction cs) (simp_all add: g_chars_def)
qed (simp_all add: g_chars_def)

lemma g_chars_inject [simp]: "g_chars cs = g_chars ds \<longleftrightarrow> cs = ds"
  by (metis g_chars_simps(5))

lemma gspaces_chars: "gspaces n = g_chars (replicate n 0x20)"
  by (induction n) (simp_all add: space_glyph_def)

lemma g_run_simps [simp]:
  "g_run [] ws = []" "g_run cs [] = []" "g_run (c # cs) (w # ws) = ([c], w) # g_run cs ws"
  by (simp_all add: g_run_def)

lemma g_run_props:
  assumes "length cs = length ws" and "\<forall>w \<in> set ws. 1 \<le> w"
  shows "gwidth (g_run cs ws) = sum_list ws" "gtext (g_run cs ws) = cs"
    "gweight (g_run cs ws) = sum_list ws" "gpos (g_run cs ws)"
  using assms by (induction cs ws rule: list_induct2) auto

lemma g_run_ones: "g_run cs (replicate (length cs) 1) = g_chars cs"
  by (induction cs) simp_all

section \<open>Taking and dropping columns\<close>

lemma gtake_0 [simp]: "gtake 0 gs = []"
  by (cases gs) auto

lemma gdrop_0 [simp]: "gdrop 0 gs = gs"
  by (cases gs) auto

lemma gtake_all [simp]: "gwidth gs \<le> n \<Longrightarrow> gpos gs \<Longrightarrow> gtake n gs = gs"
  by (induction n gs rule: gtake.induct) auto

lemma gdrop_all [simp]: "gwidth gs \<le> n \<Longrightarrow> gpos gs \<Longrightarrow> gdrop n gs = []"
  by (induction n gs rule: gdrop.induct) auto

lemma gtake_append: "gpos as \<Longrightarrow> gwidth as \<le> n \<Longrightarrow> gtake n (as @ bs) = as @ gtake (n - gwidth as) bs"
  by (induction n as rule: gtake.induct) auto

lemma gdrop_append: "gpos as \<Longrightarrow> gwidth as \<le> n \<Longrightarrow> gdrop n (as @ bs) = gdrop (n - gwidth as) bs"
  by (induction n as rule: gdrop.induct) auto

lemma gtake_append_exact [simp]: "gpos as \<Longrightarrow> gwidth as = n \<Longrightarrow> gtake n (as @ bs) = as"
  by (simp add: gtake_append)

lemma gdrop_append_exact [simp]: "gpos as \<Longrightarrow> gwidth as = n \<Longrightarrow> gdrop n (as @ bs) = bs"
  by (simp add: gdrop_append)

lemma gwidth_gtake: "n \<le> gwidth gs \<Longrightarrow> gwidth (gtake n gs) = n"
  by (induction n gs rule: gtake.induct) auto

lemma gwidth_gdrop: "gwidth (gdrop n gs) = gwidth gs - n"
  by (induction n gs rule: gdrop.induct) auto

lemma gpos_gtake [simp]: "gpos gs \<Longrightarrow> gpos (gtake n gs)"
  by (induction n gs rule: gtake.induct) auto

lemma gpos_gdrop [simp]: "gpos gs \<Longrightarrow> gpos (gdrop n gs)"
  by (induction n gs rule: gdrop.induct) auto

lemma gweight_gcut: "gweight (gtake n gs) + gweight (gdrop n gs) \<le> gweight gs"
  by (induction n gs rule: gtake.induct) auto

lemma gdrop_gspaces: "gdrop m (gspaces n @ gs) = (if m \<le> n then gspaces (n - m) @ gs else gdrop (m - n) gs)"
proof (induction n arbitrary: m)
  case (Suc n)
  then show ?case by (cases m) (simp_all add: space_glyph_def)
qed simp

lemma gdrop_gdrop: "gdrop m (gdrop n gs) = gdrop (n + m) gs"
  by (induction n gs rule: gdrop.induct) (auto simp: gdrop_gspaces add.commute)

lemma gtake_gspaces: "m \<le> n \<Longrightarrow> gtake m (gspaces n @ gs) = gspaces m"
proof (induction n arbitrary: m)
  case (Suc n)
  then show ?case by (cases m) (simp_all add: space_glyph_def)
qed simp

lemma gtake_gtake: "m \<le> n \<Longrightarrow> gtake m (gtake n gs @ bs) = gtake m gs" if "n \<le> gwidth gs" for bs
  using that
proof (induction n gs arbitrary: m rule: gtake.induct)
  case (2 n t w gs)
  then show ?case by (auto simp: gtake_gspaces)
qed simp

section \<open>Cutting\<close>

lemma gwidth_g_cut [simp]: "n \<le> gwidth gs \<Longrightarrow> gwidth (g_cut n gs) = gwidth gs"
  by (simp add: g_cut_def gwidth_gtake gwidth_gdrop)

lemma gpos_g_cut [simp]: "gpos gs \<Longrightarrow> gpos (g_cut n gs)"
  by (simp add: g_cut_def)

lemma gweight_g_cut: "gweight (g_cut n gs) \<le> gweight gs"
  by (simp add: g_cut_def gweight_gcut)

lemma g_cut_boundary: "gpos as \<Longrightarrow> gwidth as = n \<Longrightarrow> g_cut n (as @ bs) = as @ bs"
  by (simp add: g_cut_def)

lemma g_cut_straddle:
  assumes "gpos as" and "0 < k" and "k < w"
  shows "g_cut (gwidth as + k) (as @ (t, w) # bs) = as @ gspaces w @ bs"
proof -
  have "gspaces k @ gspaces (w - k) = gspaces w"
    using assms by (simp add: gspaces_def flip: replicate_add)
  then show ?thesis
    using assms by (simp add: g_cut_def gtake_append gdrop_append)
qed

lemma gtake_g_cut: "m \<le> n \<Longrightarrow> n \<le> gwidth gs \<Longrightarrow> gtake m (g_cut n gs) = gtake m gs"
  unfolding g_cut_def by (rule gtake_gtake)

lemma gdrop_g_cut: "n \<le> m \<Longrightarrow> n \<le> gwidth gs \<Longrightarrow> gpos gs \<Longrightarrow> gdrop m (g_cut n gs) = gdrop m gs"
  by (simp add: g_cut_def gdrop_append gwidth_gtake gdrop_gdrop)

text \<open>After the cuts at both ends of a stretch of columns, it is a stretch of whole glyphs.\<close>

lemma g_cut_cut:
  assumes "gpos gs" and "col \<le> e" and "e \<le> gwidth gs"
  obtains ms where "g_cut e (g_cut col gs) = gtake col gs @ ms @ gdrop e gs"
    and "gwidth ms = e - col" and "gpos ms"
proof -
  let ?d = "gdrop col gs"
  have w: "gwidth (gtake col gs) = col" using assms by (simp add: gwidth_gtake)
  have "g_cut e (g_cut col gs) = gtake col gs @ gtake (e - col) ?d @ gdrop (e - col) ?d"
    using assms w by (simp add: g_cut_def gtake_append gdrop_append)
  moreover have "gdrop (e - col) ?d = gdrop e gs" using assms by (simp add: gdrop_gdrop)
  moreover have "gwidth (gtake (e - col) ?d) = e - col"
    using assms by (intro gwidth_gtake) (simp add: gwidth_gdrop)
  ultimately show thesis using assms that [of "gtake (e - col) ?d"] by simp
qed

section \<open>Writing\<close>

lemma gwidth_g_write_run [simp]:
  "col + gwidth new \<le> gwidth gs \<Longrightarrow> gwidth (g_write_run col new gs) = gwidth gs"
  by (simp add: g_write_run_def gwidth_gtake gwidth_gdrop)

lemma gpos_g_write_run [simp]: "gpos gs \<Longrightarrow> gpos new \<Longrightarrow> gpos (g_write_run col new gs)"
  by (simp add: g_write_run_def)

text \<open>A glyph of at most as many code points as columns; what every caller in the program writes.\<close>

definition gslim :: "glyph list \<Rightarrow> bool" where
  "gslim gs \<longleftrightarrow> (\<forall>(t, w) \<in> set gs. length t \<le> w)"

lemma gslim_simps [simp]:
  "gslim []" "gslim ((t, w) # gs) \<longleftrightarrow> length t \<le> w \<and> gslim gs" "gslim (as @ bs) \<longleftrightarrow> gslim as \<and> gslim bs"
  "gslim (gspaces n)" "gslim (g_chars cs)"
  by (auto simp: gslim_def gspaces_def space_glyph_def g_chars_def)

lemma gslim_gtake [simp]: "gslim gs \<Longrightarrow> gslim (gtake n gs)"
  by (induction n gs rule: gtake.induct) auto

lemma gslim_gdrop [simp]: "gslim gs \<Longrightarrow> gslim (gdrop n gs)"
  by (induction n gs rule: gdrop.induct) auto

lemma gslim_g_write_run [simp]: "gslim gs \<Longrightarrow> gslim new \<Longrightarrow> gslim (g_write_run col new gs)"
  by (simp add: g_write_run_def)

lemma gslim_weight: "gslim gs \<Longrightarrow> gweight gs = gwidth gs"
  by (induction gs) auto

lemma gslim_g_run: "\<forall>w \<in> set ws. 1 \<le> w \<Longrightarrow> gslim (g_run cs ws)"
  by (induction cs ws rule: list_induct2') auto

section \<open>Clipping, and writes one after the other\<close>

text \<open>The glyphs that start within \<open>n\<close> columns, the last one clipped.\<close>

fun gclip :: "nat \<Rightarrow> glyph list \<Rightarrow> glyph list" where
  "gclip n [] = []"
| "gclip n ((t, w) # gs) =
     (if n = 0 then [] else if w \<le> n then (t, w) # gclip (n - w) gs else [(t, n)])"

lemma gclip_all [simp]: "gpos gs \<Longrightarrow> gwidth gs \<le> n \<Longrightarrow> gclip n gs = gs"
  by (induction n gs rule: gclip.induct) auto

lemma gwidth_gclip: "gwidth (gclip n gs) = min n (gwidth gs)"
  by (induction n gs rule: gclip.induct) auto

lemma gpos_gclip [simp]: "gpos gs \<Longrightarrow> gpos (gclip n gs)"
  by (induction n gs rule: gclip.induct) auto

lemma gclip_append:
  "gpos as \<Longrightarrow> gwidth as \<le> n \<Longrightarrow> gclip n (as @ bs) = as @ gclip (n - gwidth as) bs"
  by (induction n as rule: gclip.induct) auto

lemma g_write_run_Nil: "gpos gs \<Longrightarrow> g_write_run (gwidth gs) [] gs = gs"
  by (simp add: g_write_run_def)

lemma g_write_run_append:
  assumes "gpos gs" and "gpos as" and "d + gwidth as + gwidth bs \<le> gwidth gs"
  shows "g_write_run (d + gwidth as) bs (g_write_run d as gs) = g_write_run d (as @ bs) gs"
  using assms
  by (simp add: g_write_run_def gtake_append gdrop_append gwidth_gtake gdrop_gdrop add.assoc)

text \<open>At most one code point per glyph: what the program writes.\<close>

definition gthin :: "glyph list \<Rightarrow> bool" where
  "gthin gs \<longleftrightarrow> (\<forall>(t, w) \<in> set gs. length t \<le> 1)"

lemma gthin_simps [simp]:
  "gthin []" "gthin ((t, w) # gs) \<longleftrightarrow> length t \<le> 1 \<and> gthin gs" "gthin (as @ bs) \<longleftrightarrow> gthin as \<and> gthin bs"
  "gthin (gspaces n)" "gthin (g_chars cs)"
  by (auto simp: gthin_def gspaces_def space_glyph_def g_chars_def)

lemma gthin_gtake [simp]: "gthin gs \<Longrightarrow> gthin (gtake n gs)"
  by (induction n gs rule: gtake.induct) auto

lemma gthin_gdrop [simp]: "gthin gs \<Longrightarrow> gthin (gdrop n gs)"
  by (induction n gs rule: gdrop.induct) auto

lemma gthin_gclip [simp]: "gthin gs \<Longrightarrow> gthin (gclip n gs)"
  by (induction n gs rule: gclip.induct) auto

lemma gthin_g_write_run [simp]: "gthin gs \<Longrightarrow> gthin new \<Longrightarrow> gthin (g_write_run col new gs)"
  by (simp add: g_write_run_def)

lemma gthin_g_run [simp]: "gthin (g_run cs ws)"
  by (induction cs ws rule: list_induct2') auto

lemma gthin_weight: "gthin gs \<Longrightarrow> gpos gs \<Longrightarrow> gweight gs = gwidth gs"
  by (induction gs) auto

section \<open>The glyph a column belongs to\<close>

lemma glyph_split:
  assumes "col < gwidth gs"
  obtains as t w bs k where "gs = as @ (t, w) # bs" and "col = gwidth as + k" and "k < w"
proof -
  have "\<exists>as t w bs k. gs = as @ (t, w) # bs \<and> col = gwidth as + k \<and> k < w"
    using assms
  proof (induction gs arbitrary: col)
    case (Cons g gs)
    obtain t w where g: "g = (t, w)" by (cases g)
    show ?case
    proof (cases "col < w")
      case True
      then have "g # gs = [] @ (t, w) # gs \<and> col = gwidth [] + col \<and> col < w" using g by simp
      then show ?thesis by blast
    next
      case False
      then obtain as t' w' bs k where "gs = as @ (t', w') # bs" "col - w = gwidth as + k" "k < w'"
        using Cons.IH [of "col - w"] Cons.prems g by fastforce
      then have "g # gs = ((t, w) # as) @ (t', w') # bs \<and> col = gwidth ((t, w) # as) + k \<and> k < w'"
        using False g by auto
      then show ?thesis by blast
    qed
  qed simp
  then show thesis using that by blast
qed

lemma g_chars_split:
  assumes "g_chars cs = as @ (t, w) # bs"
  obtains xs c ys where "cs = xs @ c # ys" and "as = g_chars xs" and "t = [c]" and "w = 1"
    and "bs = g_chars ys"
  using assms unfolding g_chars_def by (auto simp: map_eq_append_conv map_eq_Cons_conv)

lemma g_chars_append:
  assumes "g_chars cs = as @ bs"
  obtains xs ys where "cs = xs @ ys" and "as = g_chars xs" and "bs = g_chars ys"
  using assms unfolding g_chars_def by (auto simp: map_eq_append_conv)

end
