(* ===== verification/Row_Inv.thy ===== *)
theory Row_Inv
  imports Row Glyphs
begin

text \<open>
  The row's representation invariant and the refinement of its operations. \<open>row_rep r gs\<close> says that the
  record \<open>r\<close>, in whichever layout, holds the glyphs \<open>gs\<close>; the lemmas show that the read operations
  return what \<open>gs\<close> says and that each write turns a representation of \<open>gs\<close> into one of the abstract
  write of \<open>gs\<close>, whatever fast path it takes.
\<close>

section \<open>Offsets and the trailing flag\<close>

lemma and_exp_nat: "(x::nat) AND 2 ^ n = (if bit x n then 2 ^ n else 0)"
  by (rule bit_eqI) (auto simp: bit_simps)

lemma and_OFFSET_MASK: "x AND OFFSET_MASK = x mod 32768"
proof -
  have "x AND mask 15 = x mod 2 ^ 15" by (simp only: flip: take_bit_eq_mask take_bit_eq_mod)
  moreover have "(mask 15 :: nat) = 32767" by (simp add: mask_eq_exp_minus_1)
  ultimately show ?thesis by (simp add: OFFSET_MASK_def)
qed

lemma and_TRAILING_FLAG: "x AND TRAILING_FLAG = (if odd (x div 32768) then 32768 else 0)"
  using and_exp_nat [of x 15] by (simp add: TRAILING_FLAG_def bit_iff_odd)

lemma or_TRAILING_FLAG [row_simps]:
  assumes "x < 32768" shows "x OR TRAILING_FLAG = x + 32768"
proof -
  have "x AND TRAILING_FLAG = 0" using assms and_TRAILING_FLAG [of x] by simp
  then show ?thesis using disjunctive_add_eq_or [of x TRAILING_FLAG] by (simp add: TRAILING_FLAG_def)
qed

lemma offset_bits [row_simps]:
  assumes "x < 32768"
  shows "x AND OFFSET_MASK = x" "x AND TRAILING_FLAG = 0"
    "(x + 32768) AND OFFSET_MASK = x" "(x + 32768) AND TRAILING_FLAG = 32768"
proof -
  have "(x + 32768) div 32768 = 1" using assms by (simp add: div_add_self2)
  then show "(x + 32768) AND TRAILING_FLAG = 32768" by (simp add: and_TRAILING_FLAG)
qed (use assms in \<open>simp_all add: and_OFFSET_MASK and_TRAILING_FLAG\<close>)

definition shift_offset :: "int \<Rightarrow> nat \<Rightarrow> nat" where
  "shift_offset delta off = to_u16 (int (off AND TRAILING_FLAG) OR (int (off AND OFFSET_MASK) + delta))"

lemma shift_offset_plain:
  assumes "x < 32768" and "y < 32768" and "int y = int x + delta"
  shows "shift_offset delta x = y"
  using assms(2) by (simp add: shift_offset_def row_simps assms(1) flip: assms(3)) (simp add: wrap_simps)

lemma shift_offset_trailing:
  assumes "x < 32768" and "y < 32768" and "int y = int x + delta"
  shows "shift_offset delta (x + 32768) = y + 32768"
proof -
  have "int 32768 OR int y = int (y OR TRAILING_FLAG)"
    by (simp add: TRAILING_FLAG_def of_nat_or_eq or.commute)
  also have "\<dots> = int (y + 32768)" using or_TRAILING_FLAG [OF assms(2)] by simp
  finally have "int 32768 OR int y = int (y + 32768)" .
  then show ?thesis
    using assms(2) by (simp add: shift_offset_def row_simps assms(1) flip: assms(3)) (simp add: to_u16_def)
qed

section \<open>The column map of a glyph list\<close>

fun enc :: "nat \<Rightarrow> glyph list \<Rightarrow> nat list" where
  "enc off [] = []"
| "enc off ((t, w) # gs) = off # replicate (w - 1) (off + 32768) @ enc (off + length t) gs"

definition enc_cols :: "nat \<Rightarrow> glyph list \<Rightarrow> nat list" where
  "enc_cols off gs = enc off gs @ [off + length (gtext gs)]"

lemma enc_append [simp]: "enc off (as @ bs) = enc off as @ enc (off + length (gtext as)) bs"
  by (induction off as rule: enc.induct) (auto simp: add.assoc)

lemma enc_cols_append: "enc_cols off (as @ bs) = enc off as @ enc_cols (off + length (gtext as)) bs"
  by (simp add: enc_cols_def add.assoc)

lemma enc_cols_Cons [simp]:
  "enc_cols off ((t, w) # gs) = off # replicate (w - 1) (off + 32768) @ enc_cols (off + length t) gs"
  by (simp add: enc_cols_def add.assoc)

lemma length_enc [simp]: "gpos gs \<Longrightarrow> length (enc off gs) = gwidth gs"
  by (induction off gs rule: enc.induct) auto

lemma length_enc_cols [simp]: "gpos gs \<Longrightarrow> length (enc_cols off gs) = Suc (gwidth gs)"
  by (simp add: enc_cols_def)

lemma enc_g_chars: "enc off (g_chars cs) = [off..<off + length cs]"
  by (induction cs arbitrary: off) (simp_all add: upt_conv_Cons del: upt_Suc)

lemma enc_cols_g_chars: "enc_cols off (g_chars cs) = [off..<off + length cs + 1]"
  by (simp add: enc_cols_def enc_g_chars)

lemma shift_enc:
  assumes "off + length (gtext gs) < 32768" and "off' + length (gtext gs) < 32768"
    and "int off' = int off + delta"
  shows "map (shift_offset delta) (enc off gs) = enc off' gs"
  using assms
proof (induction off gs arbitrary: off' rule: enc.induct)
  case (2 off t w gs)
  then have "map (shift_offset delta) (enc (off + length t) gs) = enc (off' + length t) gs"
    by (intro "2.IH") auto
  moreover have "shift_offset delta off = off'" "shift_offset delta (off + 32768) = off' + 32768"
    using 2 by (auto intro!: shift_offset_plain shift_offset_trailing)
  ultimately show ?case by simp
qed simp

lemma shift_enc_cols:
  assumes "off + length (gtext gs) < 32768" and "off' + length (gtext gs) < 32768"
    and "int off' = int off + delta"
  shows "map (shift_offset delta) (enc_cols off gs) = enc_cols off' gs"
  using assms shift_enc [OF assms] by (simp add: enc_cols_def shift_offset_plain)

section \<open>Representation\<close>

definition layout_rep :: "row \<Rightarrow> glyph list \<Rightarrow> bool" where
  "layout_rep r gs \<longleftrightarrow>
     gpos gs \<and> gweight gs < 32768 \<and> length (r_columns r) = Suc (gwidth gs) \<and>
     (if r_filled r then gs = g_chars (replicate (gwidth gs) (r_fill_char r))
      else if r_single r then gs = g_chars (r_text r)
      else r_text r = gtext gs \<and> r_columns r = enc_cols 0 gs)"

definition attrs_rep :: "row \<Rightarrow> bool" where
  "attrs_rep r \<longleftrightarrow>
     length (r_attrs r) = row_width r \<and>
     (r_filled r \<longrightarrow> r_attrs_uniform r \<and> r_uniform_attr r = r_fill_attr r)"

definition row_rep :: "row \<Rightarrow> glyph list \<Rightarrow> bool" where
  "row_rep r gs \<longleftrightarrow> layout_rep r gs \<and> attrs_rep r"

text \<open>The attributes of the columns.\<close>

definition row_attrs :: "row \<Rightarrow> attr list" where
  "row_attrs r = (if r_attrs_uniform r then replicate (row_width r) (r_uniform_attr r) else r_attrs r)"

lemma layout_rep_gpos: "layout_rep r gs \<Longrightarrow> gpos gs"
  by (simp add: layout_rep_def)

lemma layout_rep_weight: "layout_rep r gs \<Longrightarrow> gweight gs < 32768"
  by (simp add: layout_rep_def)

lemma row_width_rep: "layout_rep r gs \<Longrightarrow> row_width r = gwidth gs"
  using gwidth_le_gweight [of gs] by (auto simp: layout_rep_def row_width_def u16_def)

lemma gwidth_bound: "layout_rep r gs \<Longrightarrow> gwidth gs < 32768"
  using gwidth_le_gweight [of gs] by (simp add: layout_rep_def)

lemma gtext_bound: "layout_rep r gs \<Longrightarrow> length (gtext gs) < 32768"
  using length_gtext_le_gweight [of gs] by (simp add: layout_rep_def)

text \<open>The explicit layout, on which the general paths work.\<close>

definition explicit_rep :: "row \<Rightarrow> glyph list \<Rightarrow> bool" where
  "explicit_rep r gs \<longleftrightarrow> layout_rep r gs \<and> \<not> r_filled r \<and> \<not> r_single r"

lemma explicit_repI:
  assumes "gpos gs" and "gweight gs < 32768" and "\<not> r_filled r" and "\<not> r_single r"
    and "r_text r = gtext gs" and "r_columns r = enc_cols 0 gs"
  shows "explicit_rep r gs"
  using assms by (simp add: explicit_rep_def layout_rep_def)

lemma explicit_repD:
  assumes "explicit_rep r gs"
  shows "gpos gs" "gweight gs < 32768" "\<not> r_filled r" "\<not> r_single r" "r_text r = gtext gs"
    "r_columns r = enc_cols 0 gs" "layout_rep r gs" "row_width r = gwidth gs"
  using assms row_width_rep [of r gs] by (auto simp: explicit_rep_def layout_rep_def)

section \<open>Reading\<close>

text \<open>The start of a glyph, and the end of the row.\<close>

lemma enc_cols_nth_start:
  assumes "gpos as" and "gpos bs"
  shows "enc_cols off (as @ bs) ! gwidth as = off + length (gtext as)"
  using assms by (cases bs) (auto simp: enc_cols_append nth_append enc_cols_def)

lemma enc_cols_nth_trailing:
  assumes "gpos as" and "0 < k" and "k < w"
  shows "enc_cols off (as @ (t, w) # bs) ! (gwidth as + k) = off + length (gtext as) + 32768"
  using assms by (auto simp: enc_cols_append nth_append enc_cols_def nth_Cons')

lemma col_offset_start:
  assumes "layout_rep r (as @ bs)"
  shows "col_offset r (gwidth as) = length (gtext as)"
proof -
  have pos: "gpos as" "gpos bs" and len: "length (r_columns r) = Suc (gwidth as + gwidth bs)"
    using assms by (simp_all add: layout_rep_def)
  have width: "row_width r = gwidth as + gwidth bs" using row_width_rep [OF assms] by simp
  have chars: "\<And>cs. as @ bs = g_chars cs \<Longrightarrow> gwidth as = length (gtext as)"
    by (metis g_chars_append g_chars_simps(4,5))
  have bound: "length (gtext as) < 32768" using gtext_bound [OF assms] by simp
  show ?thesis
  proof (cases "r_filled r \<or> r_single r")
    case True
    then show ?thesis
      using assms width chars by (auto simp: col_offset_def layout_rep_def split: if_splits)
  next
    case False
    then show ?thesis
      using assms pos len bound enc_cols_nth_start [of as bs 0]
      by (simp add: col_offset_def layout_rep_def row_simps)
  qed
qed

lemma col_offset_trailing:
  assumes "layout_rep r (as @ (t, w) # bs)" and "0 < k" and "k < w"
  shows "col_offset r (gwidth as + k) = length (gtext as)"
proof -
  have "\<not> (r_filled r \<or> r_single r)"
    using assms by (auto simp: layout_rep_def elim!: g_chars_split [OF sym] split: if_splits)
  then show ?thesis
    using assms gtext_bound [OF assms(1)] enc_cols_nth_trailing [of as k w 0 t bs]
    by (auto simp: col_offset_def layout_rep_def row_simps)
qed

lemma is_trailing_rep:
  assumes "layout_rep r (as @ (t, w) # bs)" and "k < w"
  shows "is_trailing r (gwidth as + k) \<longleftrightarrow> k \<noteq> 0"
proof (cases "r_filled r \<or> r_single r")
  case True
  then have "w = 1"
    using assms by (auto simp: layout_rep_def elim!: g_chars_split [OF sym] split: if_splits)
  then show ?thesis using True assms(2) by (simp add: is_trailing_def)
next
  case False
  have bound: "length (gtext as) < 32768" using gtext_bound [OF assms(1)] by simp
  show ?thesis
  proof (cases "k = 0")
    case True
    then show ?thesis
      using False assms bound enc_cols_nth_start [of as "(t, w) # bs" 0]
      by (auto simp: is_trailing_def layout_rep_def row_simps)
  next
    case k: False
    then show ?thesis
      using False assms bound enc_cols_nth_trailing [of as k w 0 t bs]
      by (auto simp: is_trailing_def layout_rep_def row_simps)
  qed
qed

lemma is_trailing_end:
  assumes "layout_rep r gs"
  shows "\<not> is_trailing r (gwidth gs)"
proof (cases "r_filled r \<or> r_single r")
  case True
  then show ?thesis by (simp add: is_trailing_def)
next
  case False
  then show ?thesis
    using assms gtext_bound [OF assms] enc_cols_nth_start [of gs "[]" 0]
    by (auto simp: is_trailing_def layout_rep_def row_simps)
qed

lemma is_trailing_boundary:
  assumes "layout_rep r (as @ bs)"
  shows "\<not> is_trailing r (gwidth as)"
proof (cases bs)
  case Nil
  then show ?thesis using is_trailing_end [OF assms] by simp
next
  case (Cons g bs')
  obtain t w where "g = (t, w)" by (cases g)
  moreover then have "1 \<le> w" using assms Cons by (simp add: layout_rep_def)
  ultimately show ?thesis using is_trailing_rep [of r as t w bs' 0] assms Cons by simp
qed

text \<open>The loops over trailing columns.\<close>

lemma takeWhile_upt:
  assumes "i \<le> m" and "m \<le> n" and "\<And>c. i \<le> c \<Longrightarrow> c < m \<Longrightarrow> P c" and "m < n \<Longrightarrow> \<not> P m"
  shows "takeWhile P [i..<n] = [i..<m]"
proof -
  have split: "[i..<n] = [i..<m] @ [m..<n]"
    using assms(1,2) by (metis le_add_diff_inverse upt_add_eq_append)
  have "takeWhile P [m..<n] = []"
    using assms(4) by (cases "m < n") (simp_all add: upt_conv_Cons)
  moreover have "takeWhile P ([i..<m] @ [m..<n]) = [i..<m] @ takeWhile P [m..<n]"
    by (rule takeWhile_append2) (use assms(3) in simp)
  ultimately show ?thesis by (simp add: split)
qed

lemma skip_trailing_rep:
  assumes "layout_rep r (as @ (t, w) # bs)" and "k < w"
  shows "skip_trailing r (Suc (gwidth as + k)) = gwidth as + w"
proof -
  have "takeWhile (is_trailing r) [Suc (gwidth as + k)..<row_width r] = [Suc (gwidth as + k)..<gwidth as + w]"
  proof (rule takeWhile_upt)
    fix c assume "Suc (gwidth as + k) \<le> c" and "c < gwidth as + w"
    then show "is_trailing r c"
      using is_trailing_rep [OF assms(1), of "c - gwidth as"] by simp
  next
    show "\<not> is_trailing r (gwidth as + w)"
      using is_trailing_boundary [of r "as @ [(t, w)]" bs] assms(1) by simp
  qed (use assms row_width_rep [OF assms(1)] in simp_all)
  then show ?thesis using assms(2) by (simp add: skip_trailing_def)
qed

lemma lead_of_rep:
  assumes "layout_rep r (as @ (t, w) # bs)" and "k < w"
  shows "lead_of r (gwidth as + k) = gwidth as"
  using assms(2)
proof (induction k)
  case 0
  have "\<not> is_trailing r (gwidth as)" using is_trailing_rep [OF assms(1), of 0] 0 by simp
  then show ?case by (cases "gwidth as") simp_all
next
  case (Suc k)
  then show ?case using is_trailing_rep [OF assms(1), of "Suc k"] by simp
qed

lemma glyph_at_rep:
  assumes rep: "layout_rep r (as @ (t, w) # bs)" and "k < w"
  shows "glyph_at r (gwidth as + k) = t"
proof -
  have width: "gwidth as + k < row_width r" using assms row_width_rep [OF rep] by simp
  show ?thesis
  proof (cases "r_filled r \<or> r_single r")
    case True
    then consider "r_filled r" "as @ (t, w) # bs = g_chars (replicate (gwidth as + (w + gwidth bs)) (r_fill_char r))"
      | "\<not> r_filled r" "r_single r" "as @ (t, w) # bs = g_chars (r_text r)"
      using rep by (auto simp: layout_rep_def split: if_splits)
    then show ?thesis
    proof cases
      case 1
      from 1(2) [symmetric] obtain xs c ys where "replicate (gwidth as + (w + gwidth bs)) (r_fill_char r) = xs @ c # ys" "t = [c]"
        by (rule g_chars_split)
      then have "c \<in> set (replicate (gwidth as + (w + gwidth bs)) (r_fill_char r))" by simp
      then have "c = r_fill_char r" by (metis in_set_replicate)
      then show ?thesis using 1(1) width \<open>t = [c]\<close> by (simp add: glyph_at_def)
    next
      case 2
      from 2(3) [symmetric] obtain xs c ys where "r_text r = xs @ c # ys" "as = g_chars xs" "t = [c]" "w = 1"
        by (rule g_chars_split)
      then show ?thesis using 2 width assms(2) by (simp add: glyph_at_def)
    qed
  next
    case False
    have start: "col_offset r (gwidth as + k) = length (gtext as)"
      using col_offset_start [OF rep] col_offset_trailing [OF rep, of k] assms(2) by (cases "k = 0") auto
    have stop: "col_offset r (gwidth as + w) = length (gtext as) + length t"
      using col_offset_start [of r "as @ [(t, w)]" bs] rep by simp
    have "r_text r = gtext as @ t @ gtext bs" using rep False by (simp add: layout_rep_def)
    then show ?thesis
      using False width start stop skip_trailing_rep [OF rep assms(2)]
      by (simp add: glyph_at_def Let_def subseq_def)
  qed
qed

lemma glyph_width_rep:
  assumes rep: "layout_rep r (as @ (t, w) # bs)" and "k < w"
  shows "glyph_width r (gwidth as + k) = (if k = 0 then w else 0)"
proof (cases "r_filled r \<or> r_single r")
  case True
  then have "w = 1"
    using assms by (auto simp: layout_rep_def elim!: g_chars_split [OF sym] split: if_splits)
  then show ?thesis using True assms row_width_rep [OF rep] by (simp add: glyph_width_def)
next
  case False
  then show ?thesis
    using assms row_width_rep [OF rep] is_trailing_rep [OF assms] skip_trailing_rep [OF rep, of 0]
    by (simp add: glyph_width_def)
qed

text \<open>What a caller reads of a row: its glyphs, column by column.\<close>

definition row_glyphs :: "row \<Rightarrow> glyph list" where
  "row_glyphs r =
     map (\<lambda>c. (glyph_at r c, glyph_width r c)) (filter (\<lambda>c. \<not> is_trailing r c) [0..<row_width r])"

lemma row_glyphs_prefix:
  assumes "layout_rep r (as @ bs)"
  shows "map (\<lambda>c. (glyph_at r c, glyph_width r c)) (filter (\<lambda>c. \<not> is_trailing r c) [0..<gwidth as]) = as"
  using assms
proof (induction as arbitrary: bs rule: rev_induct)
  case (snoc g as)
  obtain t w where g: "g = (t, w)" by (cases g)
  have rep: "layout_rep r (as @ (t, w) # bs)" using snoc.prems g by simp
  have w: "1 \<le> w" using rep by (simp add: layout_rep_def)
  have start: "\<not> is_trailing r (gwidth as)" using is_trailing_rep [OF rep, of 0] w by simp
  have rest: "filter (\<lambda>c. \<not> is_trailing r c) [Suc (gwidth as)..<gwidth as + w] = []"
  proof -
    have "\<forall>c \<in> set [Suc (gwidth as)..<gwidth as + w]. is_trailing r c"
    proof
      fix c assume c: "c \<in> set [Suc (gwidth as)..<gwidth as + w]"
      then obtain k where "c = gwidth as + Suc k" using less_iff_Suc_add [of "gwidth as" c] by auto
      then show "is_trailing r c" using is_trailing_rep [OF rep, of "Suc k"] c by simp
    qed
    then show ?thesis by (simp add: filter_empty_conv)
  qed
  have "[0..<gwidth as + w] = [0..<gwidth as] @ [gwidth as..<gwidth as + w]"
    by (rule upt_add_eq_append) simp
  moreover have "[gwidth as..<gwidth as + w] = gwidth as # [Suc (gwidth as)..<gwidth as + w]"
    using w by (simp add: upt_conv_Cons)
  ultimately show ?case
    using snoc.IH [OF rep] start rest glyph_at_rep [OF rep, of 0] glyph_width_rep [OF rep, of 0] w
    by (simp add: g)
qed simp

lemma row_glyphs_rep: "layout_rep r gs \<Longrightarrow> row_glyphs r = gs"
  using row_glyphs_prefix [of r gs "[]"] row_width_rep [of r gs] by (simp add: row_glyphs_def)

section \<open>Loops that store a range\<close>

lemma set_range_append:
  assumes "length A = i" and "length M = j - i"
  shows "set_range i j f (A @ M @ B) = A @ map f [i..<j] @ B"
  using assms
proof (induction M arbitrary: i A)
  case Nil
  then show ?case by (simp add: set_range_def)
next
  case (Cons m M)
  then have "[i..<j] = i # [Suc i..<j]" by (simp add: upt_conv_Cons)
  moreover have "set_range (Suc i) j f ((A @ [f i]) @ M @ B) = (A @ [f i]) @ map f [Suc i..<j] @ B"
    using Cons by (intro Cons.IH) auto
  ultimately show ?case using Cons.prems by (auto simp: set_range_def)
qed

lemma set_range_empty: "j \<le> i \<Longrightarrow> set_range i j f xs = xs"
  by (simp add: set_range_def)

lemma set_range_const: "i \<le> j \<Longrightarrow> j \<le> length xs \<Longrightarrow> set_range i j (\<lambda>_. v) xs = overwrite i (replicate (j - i) v) xs"
proof -
  assume "i \<le> j" "j \<le> length xs"
  have xs: "take i xs @ take (j - i) (drop i xs) @ drop (j - i) (drop i xs) = xs"
    by (metis append_take_drop_id)
  have "set_range i j (\<lambda>_. v) (take i xs @ take (j - i) (drop i xs) @ drop (j - i) (drop i xs)) =
      take i xs @ map (\<lambda>_. v) [i..<j] @ drop (j - i) (drop i xs)"
    using \<open>i \<le> j\<close> \<open>j \<le> length xs\<close> by (intro set_range_append) auto
  then show ?thesis
    using \<open>i \<le> j\<close> unfolding xs by (simp add: overwrite_def map_replicate_const)
qed

lemma iota_range_append:
  assumes "length A = i" and "length M = j - i" and "v + (j - i) \<le> 65536"
  shows "iota_range i j v (A @ M @ B) = A @ [v..<v + (j - i)] @ B"
proof -
  have "map (\<lambda>c. u16 (v + (c - i))) [i..<j] = [v..<v + (j - i)]"
    using assms(3) by (intro nth_equalityI) (simp_all add: u16_id)
  then show ?thesis using assms by (simp add: iota_range_def set_range_append)
qed

lemma iota_range_all: "length xs \<le> 65536 \<Longrightarrow> iota_range 0 (length xs) 0 xs = [0..<length xs]"
  using iota_range_append [of "[]" 0 xs "length xs" 0 "[]"] by simp

section \<open>Materialisation\<close>

lemma materialize_filled_frame [simp]:
  "r_columns (materialize_filled r) = r_columns r"
  "r_attrs (materialize_filled r) = r_attrs r"
  "row_width (materialize_filled r) = row_width r"
  "\<not> r_filled (materialize_filled r)"
  by (simp_all add: materialize_filled_def row_width_def)

lemma materialize_filled_rep:
  assumes "layout_rep r gs"
  shows "layout_rep (materialize_filled r) gs"
proof (cases "r_filled r")
  case True
  have "gs = g_chars (replicate (row_width r) (r_fill_char r))"
    using assms True row_width_rep [OF assms] by (simp add: layout_rep_def)
  then have chars: "g_chars (r_text (materialize_filled r)) = gs"
    using True by (simp add: materialize_filled_def)
  have "gpos gs" "gweight gs < 32768" "length (r_columns r) = Suc (gwidth gs)"
    using assms by (auto simp: layout_rep_def)
  then show ?thesis
    using True by (simp add: layout_rep_def chars) (simp add: materialize_filled_def)
next
  case False
  then show ?thesis using assms by (simp add: materialize_filled_def)
qed

lemma materialize_filled_attrs:
  assumes "attrs_rep r"
  shows "attrs_rep (materialize_filled r)" "row_attrs (materialize_filled r) = row_attrs r"
  using assms by (auto simp: attrs_rep_def row_attrs_def materialize_filled_def row_width_def)

lemma materialize_columns_frame [simp]:
  "r_attrs (materialize_columns_from_single_width_layout r) = r_attrs r"
  "r_attrs_uniform (materialize_columns_from_single_width_layout r) = r_attrs_uniform r"
  "r_uniform_attr (materialize_columns_from_single_width_layout r) = r_uniform_attr r"
  "r_filled (materialize_columns_from_single_width_layout r) = r_filled r"
  "r_fill_attr (materialize_columns_from_single_width_layout r) = r_fill_attr r"
  "r_text (materialize_columns_from_single_width_layout r) = r_text r"
  by (simp_all add: materialize_columns_from_single_width_layout_def)

lemma length_set_range [simp]: "length (set_range i j f xs) = length xs"
proof -
  have "length (fold (\<lambda>c ys. ys[c := f c]) cs xs) = length xs" for cs
    by (induction cs arbitrary: xs) simp_all
  then show ?thesis by (simp add: set_range_def)
qed

lemma materialize_columns_width [simp]:
  "row_width (materialize_columns_from_single_width_layout r) = row_width r"
proof -
  have "length (r_columns (materialize_columns_from_single_width_layout r)) = length (r_columns r)"
    by (simp add: materialize_columns_from_single_width_layout_def iota_range_def)
  then show ?thesis by (auto simp: row_width_def)
qed

lemma materialize_columns_rep:
  assumes "layout_rep r gs" and "\<not> r_filled r"
  shows "explicit_rep (materialize_columns_from_single_width_layout r) gs"
proof (cases "r_single r")
  case False
  then show ?thesis
    using assms by (simp add: explicit_rep_def materialize_columns_from_single_width_layout_def)
next
  case True
  have "gs = g_chars (r_text r)" and len: "length (r_columns r) = Suc (gwidth gs)"
    using assms True by (simp_all add: layout_rep_def)
  then have "enc_cols 0 gs = [0..<length (r_columns r)]" by (simp add: enc_cols_g_chars)
  moreover have "iota_range 0 (length (r_columns r)) 0 (r_columns r) = [0..<length (r_columns r)]"
    using len gwidth_bound [OF assms(1)] by (intro iota_range_all) simp
  ultimately show ?thesis
    using assms True \<open>gs = g_chars (r_text r)\<close>
    by (intro explicit_repI)
      (simp_all add: materialize_columns_from_single_width_layout_def layout_rep_def)
qed

section \<open>Frames\<close>

text \<open>The layout depends on five fields only, the attributes on the others and the width.\<close>

lemma layout_rep_cong:
  assumes "r_text r' = r_text r" and "r_columns r' = r_columns r" and "r_single r' = r_single r"
    and "r_filled r' = r_filled r" and "r_fill_char r' = r_fill_char r"
  shows "layout_rep r' gs = layout_rep r gs"
  using assms by (simp add: layout_rep_def)

lemma row_attrs_cong:
  assumes "row_width r' = row_width r" and "r_attrs r' = r_attrs r"
    and "r_attrs_uniform r' = r_attrs_uniform r" and "r_uniform_attr r' = r_uniform_attr r"
  shows "row_attrs r' = row_attrs r"
  using assms by (simp add: row_attrs_def)

lemma shift_columns_frame [simp]:
  "r_text (shift_columns_from from d r) = r_text r"
  "r_attrs (shift_columns_from from d r) = r_attrs r"
  "r_single (shift_columns_from from d r) = r_single r"
  "r_filled (shift_columns_from from d r) = r_filled r"
  "r_fill_char (shift_columns_from from d r) = r_fill_char r"
  "r_fill_attr (shift_columns_from from d r) = r_fill_attr r"
  "r_attrs_uniform (shift_columns_from from d r) = r_attrs_uniform r"
  "r_uniform_attr (shift_columns_from from d r) = r_uniform_attr r"
  "length (r_columns (shift_columns_from from d r)) = length (r_columns r)"
  by (simp_all add: shift_columns_from_def)

lemma blank_frame [simp]:
  "r_attrs (blank_glyph_cut_at n r) = r_attrs r"
  "r_single (blank_glyph_cut_at n r) = r_single r"
  "r_filled (blank_glyph_cut_at n r) = r_filled r"
  "r_fill_char (blank_glyph_cut_at n r) = r_fill_char r"
  "r_fill_attr (blank_glyph_cut_at n r) = r_fill_attr r"
  "r_attrs_uniform (blank_glyph_cut_at n r) = r_attrs_uniform r"
  "r_uniform_attr (blank_glyph_cut_at n r) = r_uniform_attr r"
  "length (r_columns (blank_glyph_cut_at n r)) = length (r_columns r)"
  by (simp_all add: blank_glyph_cut_at_def Let_def)

lemma row_width_length: "length (r_columns r') = length (r_columns r) \<Longrightarrow> row_width r' = row_width r"
  unfolding row_width_def by (metis length_0_conv)

lemma shift_columns_width [simp]: "row_width (shift_columns_from from d r) = row_width r"
  by (rule row_width_length) simp

lemma blank_width [simp]: "row_width (blank_glyph_cut_at n r) = row_width r"
  by (rule row_width_length) simp

section \<open>Cutting and shifting\<close>

lemma shift_columns_append:
  assumes "r_columns r = A @ enc_cols off bs" and "length A = from"
    and "off + length (gtext bs) < 32768" and "off' + length (gtext bs) < 32768"
    and "int off' = int off + delta"
  shows "r_columns (shift_columns_from from delta r) = A @ enc_cols off' bs"
proof -
  have "map (\<lambda>off. to_u16 (int (off AND TRAILING_FLAG) OR (int (off AND OFFSET_MASK) + delta)))
      (enc_cols off bs) = enc_cols off' bs"
    using shift_enc_cols [OF assms(3-5)] by (simp add: shift_offset_def [abs_def])
  then show ?thesis using assms(1,2) by (simp add: shift_columns_from_def)
qed

lemma enc_gspaces: "enc off (gspaces n) = [off..<off + n]"
  by (simp add: gspaces_chars enc_g_chars)

lemma blank_glyph_cut_at_rep:
  assumes "explicit_rep r gs"
  shows "explicit_rep (blank_glyph_cut_at n r) (g_cut n gs)"
proof (cases "n < gwidth gs")
  case False
  then show ?thesis
    using assms explicit_repD [OF assms] by (simp add: blank_glyph_cut_at_def g_cut_def)
next
  case True
  obtain as t w bs k where gs: "gs = as @ (t, w) # bs" and n: "n = gwidth as + k" and k: "k < w"
    using glyph_split [OF True] by blast
  note D = explicit_repD [OF assms]
  have pos: "gpos as" "gpos bs" and weight: "gweight as + max (length t) w + gweight bs < 32768"
    using D(1,2) by (simp_all add: gs)
  have rep: "layout_rep r (as @ (t, w) # bs)" using D(7) gs by simp
  show ?thesis
  proof (cases "k = 0")
    case True
    then show ?thesis
      using assms k pos is_trailing_rep [OF rep, of 0] g_cut_boundary [of as n "(t, w) # bs"]
      by (simp add: blank_glyph_cut_at_def n gs)
  next
    case False
    let ?start = "length (gtext as)"
    let ?r = "r\<lparr>r_text := gtext as @ replicate w 0x20 @ gtext bs,
        r_columns := (enc 0 as @ [?start..<?start + w]) @ enc_cols (?start + length t) bs\<rparr>"
    have bounds: "length (gtext as) \<le> gweight as" "length (gtext bs) \<le> gweight bs" "gwidth as \<le> gweight as"
      "gwidth bs \<le> gweight bs" by (simp_all add: length_gtext_le_gweight gwidth_le_gweight)
    have trailing: "is_trailing r n" using is_trailing_rep [OF rep k] False by (simp add: n)
    have e: "skip_trailing r (Suc n) = gwidth as + w" using skip_trailing_rep [OF rep k] by (simp add: n)
    have lead: "lead_of r n = gwidth as" using lead_of_rep [OF rep k] by (simp add: n)
    have start: "col_offset r (gwidth as) = ?start" by (rule col_offset_start [OF rep])
    have stop: "col_offset r (gwidth as + w) = ?start + length t"
      using col_offset_start [of r "as @ [(t, w)]" bs] rep by simp
    have cols: "set_range (gwidth as) (gwidth as + w) (\<lambda>c. u16 (?start + (c - gwidth as)))
        (r_columns r) = (enc 0 as @ [?start..<?start + w]) @ enc_cols (?start + length t) bs"
    proof -
      have "r_columns r = enc 0 as @ enc ?start [(t, w)] @ enc_cols (?start + length t) bs"
        using D(6) gs by (simp add: enc_cols_def)
      then have "set_range (gwidth as) (gwidth as + w) (\<lambda>c. u16 (?start + (c - gwidth as))) (r_columns r) =
          enc 0 as @ map (\<lambda>c. u16 (?start + (c - gwidth as))) [gwidth as..<gwidth as + w]
          @ enc_cols (?start + length t) bs"
        using pos k by (simp only:) (rule set_range_append, auto)
      moreover have "map (\<lambda>c. u16 (?start + (c - gwidth as))) [gwidth as..<gwidth as + w] = [?start..<?start + w]"
        using weight bounds by (intro nth_equalityI) (simp_all add: u16_id)
      ultimately show ?thesis by simp
    qed
    have "blank_glyph_cut_at n r = shift_columns_from (gwidth as + w) (int w - int (length t)) ?r"
      using True trailing e lead start stop cols weight bounds D(5,8)
      by (simp add: blank_glyph_cut_at_def Let_def gs u16_id to_short_id)
    moreover have "r_columns (shift_columns_from (gwidth as + w) (int w - int (length t)) ?r) =
        (enc 0 as @ [?start..<?start + w]) @ enc_cols (?start + w) bs"
      by (rule shift_columns_append [where off = "?start + length t"])
        (use weight bounds pos in simp_all)
    moreover have "g_cut n gs = as @ gspaces w @ bs"
      using g_cut_straddle [OF pos(1) _ k] False by (simp add: gs n)
    moreover have "gpos (as @ gspaces w @ bs)" "gweight (as @ gspaces w @ bs) < 32768"
      using pos weight by simp_all
    ultimately show ?thesis
      using D(3,4) by (auto intro!: explicit_repI simp: enc_cols_append enc_gspaces)
  qed
qed

section \<open>Attribute writes\<close>

lemma set_attr_frame:
  assumes "\<not> r_filled r"
  shows "r_text (set_attr c a r) = r_text r" "r_columns (set_attr c a r) = r_columns r"
    "r_single (set_attr c a r) = r_single r" "\<not> r_filled (set_attr c a r)"
    "r_fill_char (set_attr c a r) = r_fill_char r" "row_width (set_attr c a r) = row_width r"
    "length (r_attrs (set_attr c a r)) = length (r_attrs r)"
  using assms
  by (simp_all add: set_attr_def Let_def materialize_filled_def materialize_attrs_def row_width_def)

lemma row_attrs_set_attr:
  assumes "\<not> r_filled r" and "length (r_attrs r) = row_width r"
  shows "row_attrs (set_attr c a r) = (row_attrs r)[c := a]"
  using assms
  by (auto simp: set_attr_def Let_def materialize_filled_def materialize_attrs_def row_width_def
      row_attrs_def list_update_beyond)

lemma length_row_attrs [simp]: "length (r_attrs r) = row_width r \<Longrightarrow> length (row_attrs r) = row_width r"
  by (simp add: row_attrs_def)

lemma fold_set_attr:
  assumes "\<not> r_filled r" and "length (r_attrs r) = row_width r" and "j \<le> row_width r"
  shows "r_text (fold (\<lambda>c. set_attr c a) [i..<j] r) = r_text r"
    "r_columns (fold (\<lambda>c. set_attr c a) [i..<j] r) = r_columns r"
    "r_single (fold (\<lambda>c. set_attr c a) [i..<j] r) = r_single r"
    "\<not> r_filled (fold (\<lambda>c. set_attr c a) [i..<j] r)"
    "r_fill_char (fold (\<lambda>c. set_attr c a) [i..<j] r) = r_fill_char r"
    "row_width (fold (\<lambda>c. set_attr c a) [i..<j] r) = row_width r"
    "length (r_attrs (fold (\<lambda>c. set_attr c a) [i..<j] r)) = row_width r"
    "row_attrs (fold (\<lambda>c. set_attr c a) [i..<j] r) = set_range i j (\<lambda>_. a) (row_attrs r)"
proof -
  have "r_text (fold (\<lambda>c. set_attr c a) cs r) = r_text r
    \<and> r_columns (fold (\<lambda>c. set_attr c a) cs r) = r_columns r
    \<and> r_single (fold (\<lambda>c. set_attr c a) cs r) = r_single r
    \<and> \<not> r_filled (fold (\<lambda>c. set_attr c a) cs r)
    \<and> r_fill_char (fold (\<lambda>c. set_attr c a) cs r) = r_fill_char r
    \<and> row_width (fold (\<lambda>c. set_attr c a) cs r) = row_width r
    \<and> length (r_attrs (fold (\<lambda>c. set_attr c a) cs r)) = row_width r
    \<and> row_attrs (fold (\<lambda>c. set_attr c a) cs r) = fold (\<lambda>c ys. ys[c := a]) cs (row_attrs r)" for cs
    using assms(1,2)
  proof (induction cs arbitrary: r)
    case (Cons c cs)
    show ?case
      using Cons.IH [of "set_attr c a r"] Cons.prems
      by (simp add: set_attr_frame row_attrs_set_attr)
  qed simp
  from this [of "[i..<j]"] show
    "r_text (fold (\<lambda>c. set_attr c a) [i..<j] r) = r_text r"
    "r_columns (fold (\<lambda>c. set_attr c a) [i..<j] r) = r_columns r"
    "r_single (fold (\<lambda>c. set_attr c a) [i..<j] r) = r_single r"
    "\<not> r_filled (fold (\<lambda>c. set_attr c a) [i..<j] r)"
    "r_fill_char (fold (\<lambda>c. set_attr c a) [i..<j] r) = r_fill_char r"
    "row_width (fold (\<lambda>c. set_attr c a) [i..<j] r) = row_width r"
    "length (r_attrs (fold (\<lambda>c. set_attr c a) [i..<j] r)) = row_width r"
    "row_attrs (fold (\<lambda>c. set_attr c a) [i..<j] r) = set_range i j (\<lambda>_. a) (row_attrs r)"
    by (simp_all add: set_range_def)
qed

lemma write_attr_range_frame [simp]:
  "r_text (write_attr_range s e a r) = r_text r"
  "r_columns (write_attr_range s e a r) = r_columns r"
  "r_single (write_attr_range s e a r) = r_single r"
  "r_filled (write_attr_range s e a r) = r_filled r"
  "r_fill_char (write_attr_range s e a r) = r_fill_char r"
  "row_width (write_attr_range s e a r) = row_width r"
  "length (r_attrs (write_attr_range s e a r)) = length (r_attrs r)"
  by (simp_all add: write_attr_range_def Let_def materialize_attrs_def row_width_def)

lemma overwrite_replicate_same:
  "i + k \<le> n \<Longrightarrow> overwrite i (replicate k a) (replicate n a) = replicate n a"
  by (simp add: overwrite_def flip: replicate_add)

lemma row_attrs_write_attr_range:
  assumes "length (r_attrs r) = row_width r" and "s < e" and "e \<le> row_width r"
  shows "row_attrs (write_attr_range s e a r) = overwrite s (replicate (e - s) a) (row_attrs r)"
proof -
  have e: "min e (row_width r) = e" using assms by simp
  consider "s = 0 \<and> e = row_width r" | "\<not> (s = 0 \<and> e = row_width r)" "r_attrs_uniform r" "a = r_uniform_attr r"
    | "\<not> (s = 0 \<and> e = row_width r)" "\<not> (r_attrs_uniform r \<and> a = r_uniform_attr r)"
    by blast
  then show ?thesis
  proof cases
    case 1
    then show ?thesis using assms by (simp add: write_attr_range_def row_attrs_def row_width_def)
  next
    case 2
    then show ?thesis
      using assms by (auto simp: write_attr_range_def row_attrs_def overwrite_replicate_same)
  next
    case 3
    then show ?thesis
      using assms e
      by (auto simp: write_attr_range_def Let_def row_attrs_def materialize_attrs_def set_range_const
          row_width_def)
  qed
qed

end
