(* ===== verification/Row_Write.thy ===== *)
theory Row_Write
  imports Row_Inv
begin

text \<open>
  The writes of a row refine the abstract write: one glyph (\<open>write_glyph\<close>, \<open>clear_cell\<close>), a measured
  run through each of its five paths (\<open>write_measured_run\<close>), and a single-width run.
\<close>

section \<open>Writing the column map\<close>

lemma set_glyph_columns:
  assumes "length A = i" and "length M = w" and "1 \<le> w"
  shows "set_range (Suc i) (i + w) (\<lambda>_. v) ((A @ M @ B)[i := x]) = A @ x # replicate (w - 1) v @ B"
proof -
  obtain m M' where M: "M = m # M'" using assms by (cases M) auto
  have "(A @ M @ B)[i := x] = (A @ [x]) @ M' @ B" using assms(1) M by auto
  moreover have "set_range (Suc i) (i + w) (\<lambda>_. v) ((A @ [x]) @ M' @ B) =
      (A @ [x]) @ map (\<lambda>_. v) [Suc i..<i + w] @ B"
    using assms M by (intro set_range_append) auto
  ultimately show ?thesis using assms by (simp add: map_replicate_const)
qed

text \<open>After the cuts at both ends of a write: whole glyphs before, inside and after it.\<close>

lemma cut_both_ends:
  assumes "explicit_rep r gs" and "col \<le> e" and "e \<le> gwidth gs"
  obtains ms where "explicit_rep (blank_glyph_cut_at e (blank_glyph_cut_at col r))
      (gtake col gs @ ms @ gdrop e gs)"
    and "gwidth (gtake col gs) = col" and "gwidth ms = e - col" and "gpos ms"
proof -
  have pos: "gpos gs" using explicit_repD [OF assms(1)] by simp
  obtain ms where ms: "g_cut e (g_cut col gs) = gtake col gs @ ms @ gdrop e gs" "gwidth ms = e - col" "gpos ms"
    using g_cut_cut [OF pos assms(2,3)] by blast
  have "explicit_rep (blank_glyph_cut_at e (blank_glyph_cut_at col r)) (g_cut e (g_cut col gs))"
    using assms(1) by (intro blank_glyph_cut_at_rep)
  then show thesis using that [of ms] ms assms gwidth_gtake [of col gs] by simp
qed

section \<open>One glyph\<close>

text \<open>The outcome of a write of \<open>new\<close> at \<open>col\<close> with attribute \<open>a\<close>.\<close>

definition wrote :: "row \<Rightarrow> glyph list \<Rightarrow> nat \<Rightarrow> glyph list \<Rightarrow> attr \<Rightarrow> row \<Rightarrow> bool" where
  "wrote r gs col new a r' \<longleftrightarrow>
     row_rep r' (g_write_run col new gs) \<and> \<not> r_filled r' \<and>
     row_attrs r' = overwrite col (replicate (gwidth new) a) (row_attrs r)"

lemma attrs_rep_unfilled: "\<not> r_filled r \<Longrightarrow> attrs_rep r \<longleftrightarrow> length (r_attrs r) = row_width r"
  by (simp add: attrs_rep_def)

lemma write_glyph_general_rep:
  assumes rep: "explicit_rep r gs" and attrs: "attrs_rep r"
    and w: "1 \<le> w" "col + w \<le> gwidth gs" and weight: "gweight (g_write col t w gs) < 32768"
  shows "wrote r gs col [(t, w)] a (write_glyph_general col t w a r)"
proof -
  let ?e = "col + w" and ?as = "gtake col gs" and ?bs = "gdrop (col + w) gs"
  let ?r1 = "blank_glyph_cut_at ?e (blank_glyph_cut_at col (r\<lparr>r_single := False\<rparr>))"
  note D = explicit_repD [OF rep]
  have r0: "r\<lparr>r_single := False\<rparr> = r" using D(4) by simp
  obtain ms where ms: "explicit_rep ?r1 (?as @ ms @ ?bs)" "gwidth ?as = col" "gwidth ms = w" "gpos ms"
    using cut_both_ends [OF rep, of col ?e] w r0 by auto
  note D1 = explicit_repD [OF ms(1)]
  have e16: "u16 ?e = ?e" using w gwidth_bound [OF D(7)] by (simp add: u16_id)
  let ?s = "length (gtext ?as)" and ?m = "length (gtext ms)"
  have g: "g_write col t w gs = ?as @ [(t, w)] @ ?bs" by (simp add: g_write_def g_write_run_def)
  have len: "?s + (length t + length (gtext ?bs)) < 32768" "?s + (?m + length (gtext ?bs)) < 32768"
    using weight D1(2) length_gtext_le_gweight [of "?as @ [(t, w)] @ ?bs"]
      length_gtext_le_gweight [of "?as @ ms @ ?bs"] by (simp_all add: g)
  have start: "col_offset ?r1 col = ?s"
    using col_offset_start [of ?r1 ?as "ms @ ?bs"] D1(7) ms(2) by simp
  have stop: "col_offset ?r1 ?e = ?s + ?m"
    using col_offset_start [of ?r1 "?as @ ms" ?bs] D1(7) ms(2,3) by simp
  have pos: "gpos ?as" "gpos ?bs" using D(1) by simp_all
  have cols: "set_range (col + 1) ?e (\<lambda>_. u16 (?s OR TRAILING_FLAG)) ((r_columns ?r1)[col := ?s]) =
      enc 0 (?as @ [(t, w)]) @ enc_cols (?s + ?m) ?bs"
  proof -
    have "r_columns ?r1 = enc 0 ?as @ enc ?s ms @ enc_cols (?s + ?m) ?bs"
      using D1(6) by (simp add: enc_cols_append)
    moreover have "u16 (?s OR TRAILING_FLAG) = ?s + 32768"
      using len by (simp add: row_simps u16_id)
    ultimately show ?thesis
      using set_glyph_columns [of "enc 0 ?as" col "enc ?s ms" w "?s + 32768" "enc_cols (?s + ?m) ?bs" ?s]
        pos ms w by simp
  qed
  let ?r2 = "?r1\<lparr>r_text := str_replace ?s ?m t (r_text ?r1),
      r_columns := set_range (col + 1) ?e (\<lambda>_. u16 (?s OR TRAILING_FLAG)) ((r_columns ?r1)[col := ?s])\<rparr>"
  let ?r3 = "shift_columns_from ?e (int (length t) - int ?m) ?r2"
  have r3: "write_glyph_general col t w a r = fold (\<lambda>c. set_attr c a) [col..<?e] ?r3"
    using len
    by (simp add: write_glyph_general_def Let_def e16 start stop u16_id to_short_id del: fold_simps)
  have "r_columns ?r3 = enc 0 (?as @ [(t, w)]) @ enc_cols (?s + length t) ?bs"
    by (rule shift_columns_append [where off = "?s + ?m"]) (use cols len pos ms w in simp_all)
  moreover have "r_text ?r3 = gtext (g_write col t w gs)"
    using D1(5) by (simp add: g)
  moreover have "\<not> r_filled ?r3" "\<not> r_single ?r3" using D D1 by simp_all
  moreover have "gpos (g_write col t w gs)" using pos w by (simp add: g)
  ultimately have rep3: "explicit_rep ?r3 (g_write col t w gs)"
    using weight by (intro explicit_repI) (simp_all add: g enc_cols_append)
  note D3 = explicit_repD [OF rep3]
  have width: "row_width ?r3 = row_width r"
    using D3(8) D(8) w by (simp add: g_write_def)
  have lattrs: "length (r_attrs ?r3) = row_width ?r3"
    unfolding width using attrs by (simp add: attrs_rep_def)
  have e3: "?e \<le> row_width ?r3" using width D(8) w by simp
  note F = fold_set_attr [OF D3(3) lattrs e3, of a col]
  let ?r4 = "fold (\<lambda>c. set_attr c a) [col..<?e] ?r3"
  have "layout_rep ?r4 (g_write col t w gs)"
    using D3(3,4,7) F by (subst layout_rep_cong [of ?r4 ?r3]) auto
  moreover have "attrs_rep ?r4" using F by (simp add: attrs_rep_def)
  moreover have "row_attrs ?r3 = row_attrs r"
    using width by (intro row_attrs_cong) simp_all
  moreover then have "row_attrs ?r4 = overwrite col (replicate w a) (row_attrs r)"
    using F(8) set_range_const [of col ?e "row_attrs r" a] w attrs D(8) by (simp add: attrs_rep_def)
  ultimately show ?thesis
    using F(4) unfolding r3 wrote_def row_rep_def by (simp add: g_write_def)
qed

lemma g_write_char:
  assumes "col < length cs"
  shows "g_write col [c] 1 (g_chars cs) = g_chars (cs[col := c])"
proof -
  have "g_chars cs = g_chars (take col cs) @ ([cs ! col], 1) # g_chars (drop (Suc col) cs)"
    using assms by (metis g_chars_simps(2,3) id_take_nth_drop)
  moreover have "col = gwidth (g_chars (take col cs))" using assms by simp
  ultimately show ?thesis
    using assms
    by (simp add: g_write_def g_write_run_def gtake_append gdrop_append upd_conv_take_nth_drop)
qed

lemma g_write_same_width:
  assumes "gpos as" and "1 \<le> w"
  shows "g_write (gwidth as) t w (as @ (t', w) # bs) = as @ (t, w) # bs"
  using assms by (simp add: g_write_def g_write_run_def gtake_append gdrop_append)

lemma write_glyph_single:
  assumes rep: "row_rep r gs" and "\<not> r_filled r" and "r_single r" and col: "col < gwidth gs"
  shows "wrote r gs col [([c], 1)] a
    (write_attr_range col (u16 (col + 1)) a (r\<lparr>r_text := (r_text r)[col := c]\<rparr>))"
proof -
  have L: "layout_rep r gs" using rep by (simp add: row_rep_def)
  have gs: "gs = g_chars (r_text r)" using L assms(2,3) by (simp add: layout_rep_def)
  have len: "length (r_text r) = gwidth gs" using gs by (metis g_chars_simps(4))
  have u: "u16 (col + 1) = col + 1" using col gwidth_bound [OF L] by (simp add: u16_id)
  have gw: "g_write col [c] 1 gs = g_chars ((r_text r)[col := c])"
    by (subst gs, rule g_write_char) (simp add: len col)
  let ?r1 = "r\<lparr>r_text := (r_text r)[col := c]\<rparr>"
  let ?r2 = "write_attr_range col (col + 1) a ?r1"
  have width1: "row_width ?r1 = row_width r" by (simp add: row_width_def)
  have attrs1: "row_attrs ?r1 = row_attrs r" by (rule row_attrs_cong) (simp_all add: width1)
  have la: "length (r_attrs ?r1) = row_width ?r1"
    using rep by (simp add: row_rep_def attrs_rep_def width1)
  have "layout_rep ?r2 (g_write col [c] 1 gs)"
    using L len gw gwidth_bound [OF L] \<open>\<not> r_filled r\<close> \<open>r_single r\<close> by (simp add: layout_rep_def)
  moreover have "row_attrs ?r2 = overwrite col (replicate 1 a) (row_attrs r)"
    using row_attrs_write_attr_range [OF la, of col "col + 1" a] col row_width_rep [OF L]
    by (simp add: attrs1 width1)
  moreover have "attrs_rep ?r2" using la \<open>\<not> r_filled r\<close> by (simp add: attrs_rep_def)
  ultimately show ?thesis
    using \<open>\<not> r_filled r\<close> u by (simp add: wrote_def row_rep_def g_write_def)
qed

lemma write_glyph_in_place:
  assumes rep: "explicit_rep r gs" and attrs: "attrs_rep r" and col: "col < gwidth gs"
    and "\<not> is_trailing r col" and "col + 1 = row_width r \<or> \<not> is_trailing r (col + 1)"
    and "col_offset r (col + 1) = col_offset r col + 1"
  shows "wrote r gs col [([c], 1)] a
    (set_attr col a (r\<lparr>r_text := (r_text r)[col_offset r col := c]\<rparr>))"
proof -
  note D = explicit_repD [OF rep]
  obtain as t w bs k where gs: "gs = as @ (t, w) # bs" and n: "col = gwidth as + k" and k: "k < w"
    using glyph_split [OF col] by blast
  have L: "layout_rep r (as @ (t, w) # bs)" using D(7) gs by simp
  have k0: "k = 0" using is_trailing_rep [OF L k] assms(4) n by simp
  have w1: "w = 1"
  proof (rule ccontr)
    assume "w \<noteq> 1"
    then have "1 < w" using k by simp
    then have "is_trailing r (col + 1)" using is_trailing_rep [OF L, of 1] n k0 by simp
    moreover have "col + 1 \<noteq> row_width r" using \<open>1 < w\<close> D(8) gs n k0 by simp
    ultimately show False using assms(5) by simp
  qed
  have start: "col_offset r col = length (gtext as)" using col_offset_start [OF L] n k0 by simp
  have stop: "col_offset r (col + 1) = length (gtext as) + length t"
    using col_offset_start [of r "as @ [(t, w)]" bs] L n k0 w1 by simp
  have t1: "length t = 1" using assms(6) start stop by simp
  have pos: "gpos as" "gpos bs" using D(1) gs by simp_all
  have gw: "g_write col [c] 1 gs = as @ ([c], 1) # bs"
    using g_write_same_width [OF pos(1), of 1 "[c]" t bs] gs n k0 w1 by simp
  let ?r1 = "r\<lparr>r_text := (r_text r)[length (gtext as) := c]\<rparr>"
  have rt: "(r_text r)[length (gtext as) := c] = gtext as @ [c] @ gtext bs"
    using D(5) gs t1 by (cases t) auto
  have cols: "enc_cols 0 (as @ ([c], 1) # bs) = enc_cols 0 gs"
    using gs t1 w1 by (simp add: enc_cols_append)
  have width1: "row_width ?r1 = row_width r" by (simp add: row_width_def)
  have attrs1: "row_attrs ?r1 = row_attrs r" by (rule row_attrs_cong) (simp_all add: width1)
  have wt: "max (length t) w = 1" using t1 w1 by simp
  have "explicit_rep ?r1 (as @ ([c], 1) # bs)"
    using D rt cols pos gs wt by (intro explicit_repI) simp_all
  note D1 = explicit_repD [OF this]
  have la: "length (r_attrs ?r1) = row_width ?r1" using attrs by (simp add: attrs_rep_def width1)
  note F = set_attr_frame [OF D1(3), of col a]
  have "layout_rep (set_attr col a ?r1) (as @ ([c], 1) # bs)"
    using D1(3,7) F by (subst layout_rep_cong [of _ ?r1]) simp_all
  moreover have "attrs_rep (set_attr col a ?r1)" using F la by (simp add: attrs_rep_def)
  moreover have "row_attrs (set_attr col a ?r1) = overwrite col (replicate 1 a) (row_attrs r)"
    using row_attrs_set_attr [OF D1(3) la, of col a] attrs1 attrs col D(8)
    by (simp add: overwrite_single attrs_rep_def)
  ultimately show ?thesis
    using F(4) gw by (simp add: wrote_def row_rep_def g_write_def start)
qed

lemma wrote_frame:
  assumes "row_attrs r1 = row_attrs r" and "wrote r1 gs col new a r'"
  shows "wrote r gs col new a r'"
  using assms by (simp add: wrote_def)

lemma write_glyph_wrote:
  assumes rep: "row_rep r gs" and col: "col < gwidth gs" and "0 < wc"
    and w: "w = (if int col + wc > int (gwidth gs) then gwidth gs - col else nat wc)"
    and weight: "gweight (g_write col t w gs) < 32768"
  shows "wrote r gs col [(t, w)] a (write_glyph col t wc a r)"
proof -
  let ?r = "materialize_filled r"
  have L: "layout_rep r gs" and A: "attrs_rep r" using rep by (simp_all add: row_rep_def)
  note A1 = materialize_filled_attrs [OF A]
  have L1: "layout_rep ?r gs" by (rule materialize_filled_rep [OF L])
  have width: "row_width r = gwidth gs" by (rule row_width_rep [OF L])
  have w_eq: "nat (if int col + wc > int (row_width r) then int (row_width r) - int col else wc) = w"
    using w width by (simp add: nat_minus_as_int)
  have w_range: "1 \<le> w" "col + w \<le> gwidth gs" using w col \<open>0 < wc\<close> by (auto split: if_splits)
  have u: "u16 (col + 1) = col + 1" using col gwidth_bound [OF L] by (simp add: u16_id)
  have guard: "\<not> (col \<ge> row_width r \<or> wc \<le> 0)" using col \<open>0 < wc\<close> width by simp
  show ?thesis
  proof (cases "r_single ?r \<and> w = 1 \<and> length t = 1")
    case True
    then have "write_glyph col t wc a r =
        write_attr_range col (u16 (col + 1)) a (?r\<lparr>r_text := (r_text ?r)[col := t ! 0]\<rparr>)"
      unfolding write_glyph_def Let_def w_eq using col \<open>0 < wc\<close> width by simp
    moreover have "wrote ?r gs col [([t ! 0], 1)] a
        (write_attr_range col (u16 (col + 1)) a (?r\<lparr>r_text := (r_text ?r)[col := t ! 0]\<rparr>))"
      using True col L1 A1 by (intro write_glyph_single) (simp_all add: row_rep_def)
    moreover have "[t ! 0] = t" using True by (cases t) simp_all
    ultimately show ?thesis using True wrote_frame [OF A1(2)] by simp
  next
    case not_single: False
    let ?r1 = "materialize_columns_from_single_width_layout ?r"
    have E: "explicit_rep ?r1 gs" using L1 by (intro materialize_columns_rep) simp_all
    note D = explicit_repD [OF E]
    have A2: "attrs_rep ?r1" using A1(1) by (simp add: attrs_rep_def)
    have "row_attrs ?r1 = row_attrs ?r" by (rule row_attrs_cong) simp_all
    then have RA: "row_attrs ?r1 = row_attrs r" using A1(2) by simp
    let ?fast = "w = 1 \<and> length t = 1 \<and> \<not> is_trailing ?r1 col
        \<and> col + 1 \<le> row_width ?r1 \<and> (col + 1 = row_width ?r1 \<or> \<not> is_trailing ?r1 (col + 1))
        \<and> col_offset ?r1 (col + 1) = col_offset ?r1 col + 1 \<and> col_offset ?r1 col < length (r_text ?r1)"
    have eq: "write_glyph col t wc a r =
        (if ?fast then set_attr col a (?r1\<lparr>r_text := (r_text ?r1)[col_offset ?r1 col := t ! 0]\<rparr>)
         else write_glyph_general col t w a ?r1)"
      unfolding write_glyph_def Let_def w_eq u if_not_P [OF guard] if_not_P [OF not_single] ..
    show ?thesis
    proof (cases ?fast)
      case True
      then have "wrote ?r1 gs col [([t ! 0], 1)] a (write_glyph col t wc a r)"
        unfolding eq if_P [OF True] using col by (intro write_glyph_in_place [OF E A2]) simp_all
      moreover have "[t ! 0] = t" using True by (cases t) simp_all
      ultimately show ?thesis using True wrote_frame [OF RA] by simp
    next
      case False
      have "wrote ?r1 gs col [(t, w)] a (write_glyph col t wc a r)"
        unfolding eq if_not_P [OF False]
        by (rule write_glyph_general_rep [OF E A2 w_range weight])
      then show ?thesis by (rule wrote_frame [OF RA])
    qed
  qed
qed

end
