(* ===== verification/Row_Runs.thy ===== *)
theory Row_Runs
  imports Row_Write
begin

text \<open>
  Runs of characters: each of the five paths of \<open>write_measured_run\<close>, and \<open>try_write_single_width_run\<close>,
  either refuses and leaves the glyphs as they were or writes exactly the glyphs of the run.
\<close>

section \<open>The layout loop\<close>

lemma layout_run_append:
  assumes "length A = cell" and "length M = sum_list ws" and "\<forall>w \<in> set ws. 1 \<le> w"
    and "length cs = length ws" and "cell + sum_list ws < 65536" and "off + length ws \<le> 32768"
  shows "layout_run cell off ws (A @ M @ B) = A @ enc off (g_run cs ws) @ B"
  using assms
proof (induction ws arbitrary: cell off cs A M)
  case (Cons w ws)
  then obtain c cs' where cs: "cs = c # cs'" by (cases cs) auto
  obtain M1 M2 where M: "M = M1 @ M2" and M1: "length M1 = w"
    using Cons.prems by (metis append_take_drop_id length_take min.absorb2 le_add1 sum_list.Cons)
  have off: "off < 32768" using Cons.prems by simp
  have "set_range (Suc cell) (cell + w) (\<lambda>_. u16 (off OR TRAILING_FLAG)) ((A @ M1 @ M2 @ B)[cell := off])
      = A @ off # replicate (w - 1) (off + 32768) @ M2 @ B"
    using Cons.prems off M1 by (subst set_glyph_columns) (simp_all add: row_simps u16_id)
  then have step: "layout_run cell off (w # ws) (A @ M @ B) =
      layout_run (cell + w) (Suc off) ws ((A @ off # replicate (w - 1) (off + 32768)) @ M2 @ B)"
    using Cons.prems by (simp add: M u16_id)
  have "layout_run (cell + w) (Suc off) ws ((A @ off # replicate (w - 1) (off + 32768)) @ M2 @ B) =
      (A @ off # replicate (w - 1) (off + 32768)) @ enc (Suc off) (g_run cs' ws) @ B"
    using Cons.prems cs M M1 by (intro Cons.IH) auto
  then show ?case unfolding step by (simp add: cs)
qed simp

text \<open>The column map of a run between two single-width stretches.\<close>

lemma run_columns:
  assumes "length P = length xs" and "P = [0..<length xs]" and "length M = sum_list ws"
    and "length Q = Suc (length ys)" and "\<forall>w \<in> set ws. 1 \<le> w" and "length cs = length ws"
    and "length xs + sum_list ws + length ys < 32768" and "length ws \<le> sum_list ws"
    and "e = length xs + sum_list ws"
  shows "iota_range e (e + length ys + 1) (u16 (length xs + length cs))
      (layout_run (length xs) (length xs) ws (P @ M @ Q)) =
     enc_cols 0 (g_chars xs @ g_run cs ws @ g_chars ys)"
proof -
  have lay: "layout_run (length xs) (length xs) ws (P @ M @ Q) =
      (P @ enc (length xs) (g_run cs ws)) @ Q @ []"
    using assms by (subst layout_run_append) auto
  have "gwidth (g_run cs ws) = sum_list ws" "gpos (g_run cs ws)" and txt': "gtext (g_run cs ws) = cs"
    using g_run_props [of cs ws] assms by auto
  then have "iota_range e (e + length ys + 1) (u16 (length xs + length cs))
      ((P @ enc (length xs) (g_run cs ws)) @ Q @ []) =
      (P @ enc (length xs) (g_run cs ws)) @ [u16 (length xs + length cs)..<u16 (length xs + length cs) + (e + length ys + 1 - e)] @ []"
    using assms by (intro iota_range_append) (simp_all add: u16_id)
  also have "\<dots> = enc_cols 0 (g_chars xs @ g_run cs ws @ g_chars ys)"
    using assms by (simp add: enc_cols_append enc_g_chars enc_cols_g_chars txt' u16_id)
  finally show ?thesis by (simp only: lay)
qed

lemma upt_split: "a \<le> b \<Longrightarrow> b \<le> c \<Longrightarrow> [a..<c] = [a..<b] @ [b..<c]"
  by (metis le_add_diff_inverse upt_add_eq_append)

lemma sum_list_ge_length: "\<forall>w \<in> set ws. (1::nat) \<le> w \<Longrightarrow> length ws \<le> sum_list ws"
  by (induction ws) auto

lemma g_write_run_chars:
  assumes "col + gwidth new \<le> length cs"
  shows "g_write_run col new (g_chars cs) = g_chars (take col cs) @ new @ g_chars (drop (col + gwidth new) cs)"
proof -
  have "g_chars cs = g_chars (take col cs) @ g_chars (drop col cs)" by (metis append_take_drop_id g_chars_simps(3))
  then have t: "gtake col (g_chars cs) = g_chars (take col cs)" using assms by simp
  have "g_chars cs = g_chars (take (col + gwidth new) cs) @ g_chars (drop (col + gwidth new) cs)"
    by (metis append_take_drop_id g_chars_simps(3))
  then have "gdrop (col + gwidth new) (g_chars cs) = g_chars (drop (col + gwidth new) cs)"
    using assms by simp
  with t show ?thesis by (simp add: g_write_run_def)
qed

section \<open>What a caller must supply\<close>

text \<open>
  The arguments of a measured run: with \<open>all_single\<close> one column per character (the widths are then
  read only when the single-width path refuses, never for a full row), otherwise one width of at
  least 1 per character; the columns add up to \<open>tot\<close> and fit.
\<close>

definition run_args :: "nat \<Rightarrow> nat \<Rightarrow> u32 \<Rightarrow> nat list \<Rightarrow> nat \<Rightarrow> bool \<Rightarrow> bool" where
  "run_args width col cs ws tot all_single \<longleftrightarrow>
     cs \<noteq> [] \<and> col + tot \<le> width \<and>
     (if all_single
      then tot = length cs \<and> (col = 0 \<and> tot = width \<or> ws = replicate (length cs) 1)
      else length cs = length ws \<and> sum_list ws = tot \<and> (\<forall>w \<in> set ws. 1 \<le> w))"

definition run_glyphs :: "u32 \<Rightarrow> nat list \<Rightarrow> bool \<Rightarrow> glyph list" where
  "run_glyphs cs ws all_single = (if all_single then g_chars cs else g_run cs ws)"

lemma run_glyphs_props:
  assumes "run_args width col cs ws tot all_single"
  shows "gwidth (run_glyphs cs ws all_single) = tot" "gpos (run_glyphs cs ws all_single)"
    "gtext (run_glyphs cs ws all_single) = cs" "length cs \<le> tot" "0 < tot"
proof -
  show "gwidth (run_glyphs cs ws all_single) = tot" "gpos (run_glyphs cs ws all_single)"
    "gtext (run_glyphs cs ws all_single) = cs"
    using assms g_run_props [of cs ws]
    by (auto simp: run_args_def run_glyphs_def split: if_splits)
  show "length cs \<le> tot"
    using assms sum_list_ge_length [of ws] by (auto simp: run_args_def split: if_splits)
  then show "0 < tot" using assms by (cases cs) (auto simp: run_args_def)
qed

text \<open>The last steps of the paths: the layout is in place, the attributes follow.\<close>

lemma wrote_by_attrs:
  assumes "r_text r' = r_text r1" and "r_columns r' = r_columns r1"
    and "\<not> r_filled r'" and "length (r_attrs r') = row_width r'"
    and "layout_rep r' (g_write_run col new gs)"
    and "row_attrs r' = overwrite col (replicate (gwidth new) a) (row_attrs r)"
  shows "wrote r gs col new a r'"
  using assms by (simp add: wrote_def row_rep_def attrs_rep_def)

section \<open>Filled row\<close>

lemma filled_path_wrote:
  assumes rep: "row_rep r gs" and args: "run_args (gwidth gs) col cs ws tot all_single"
    and path: "try_write_measured_run_on_filled_row col cs ws tot all_single a r = Some r'"
  shows "wrote r gs col (run_glyphs cs ws all_single) a r'"
proof -
  let ?new = "run_glyphs cs ws all_single" and ?c = "r_fill_char r" and ?e = "col + tot"
  let ?xs = "replicate col ?c" and ?ys = "replicate (gwidth gs - ?e) ?c"
  note P = run_glyphs_props [OF args]
  have L: "layout_rep r gs" and A: "attrs_rep r" using rep by (simp_all add: row_rep_def)
  have width: "row_width r = gwidth gs" by (rule row_width_rep [OF L])
  have fit: "?e \<le> gwidth gs" using args by (simp add: run_args_def)
  have u: "u16 ?e = ?e" using fit gwidth_bound [OF L] by (simp add: u16_id)
  have filled: "r_filled r" using path by (auto simp: try_write_measured_run_on_filled_row_def Let_def split: if_splits)
  then have gs: "gs = g_chars (replicate (gwidth gs) ?c)" using L by (simp add: layout_rep_def)
  have "g_write_run col ?new (g_chars (replicate (gwidth gs) ?c)) = g_chars ?xs @ ?new @ g_chars ?ys"
    using fit P by (subst g_write_run_chars) (simp_all add: take_replicate)
  then have gw: "g_write_run col ?new gs = g_chars ?xs @ ?new @ g_chars ?ys" using gs by simp
  have lc: "length (r_columns r) = Suc (gwidth gs)" using L by (simp add: layout_rep_def)
  define cols where "cols = (if all_single then iota_range 0 (length (r_columns r)) 0 (r_columns r)
      else iota_range ?e (gwidth gs + 1) (u16 (col + length cs))
             (layout_run col col (take (length cs) ws) (iota_range 0 col 0 (r_columns r))))"
  define r1 where "r1 = r\<lparr>r_text := ?xs @ cs @ ?ys, r_columns := cols, r_attrs_uniform := True,
      r_uniform_attr := r_fill_attr r\<rparr>"
  have r': "r' = (write_attr_range col ?e a r1)\<lparr>r_filled := False, r_single := all_single\<rparr>"
    using path by (auto simp: try_write_measured_run_on_filled_row_def Let_def u width r1_def cols_def
        split: if_splits)
  have lcols: "length cols = length (r_columns r)"
  proof -
    have "length (layout_run c o' ws xs) = length xs" for c o' ws xs
      by (induction c o' ws xs rule: layout_run.induct) simp_all
    then show ?thesis by (simp add: cols_def iota_range_def)
  qed
  have width1: "row_width r1 = gwidth gs" "row_width r' = gwidth gs"
    unfolding r' using lcols row_width_length [of r1 r] row_width_length [of "(write_attr_range col ?e a r1)\<lparr>r_filled := False, r_single := all_single\<rparr>" r1]
    by (simp_all add: r1_def width)
  have la: "length (r_attrs r1) = row_width r1" using A width width1 by (simp add: attrs_rep_def r1_def)
  have "row_attrs r1 = row_attrs r" using A filled width width1 by (simp add: row_attrs_def attrs_rep_def r1_def)
  then have ra: "row_attrs (write_attr_range col ?e a r1) = overwrite col (replicate tot a) (row_attrs r)"
    using row_attrs_write_attr_range [OF la, of col ?e a] fit P width1 by simp
  have "row_attrs r' = row_attrs (write_attr_range col ?e a r1)"
    unfolding r' by (rule row_attrs_cong) (simp_all add: row_width_def)
  with ra P(1) have attrs: "row_attrs r' = overwrite col (replicate (gwidth ?new) a) (row_attrs r)" by simp
  have weight: "gweight (g_chars ?xs @ ?new @ g_chars ?ys) < 32768"
    using gwidth_bound [OF L] fit args g_run_props(3) [of cs ws]
    by (auto simp: run_glyphs_def run_args_def split: if_splits)
  have "layout_rep r' (g_chars ?xs @ ?new @ g_chars ?ys)"
  proof (cases all_single)
    case True
    then show ?thesis
      using weight lcols lc fit args
      by (simp add: layout_rep_def r' r1_def run_glyphs_def run_args_def)
  next
    case False
    have "iota_range 0 col 0 (r_columns r) = [0..<col] @ subseq (r_columns r) col tot @ drop ?e (r_columns r)"
    proof -
      have "r_columns r = [] @ take col (r_columns r) @ subseq (r_columns r) col tot @ drop ?e (r_columns r)"
        by (simp add: subseq_def) (metis add.commute append_take_drop_id drop_drop)
      then have "iota_range 0 col 0 (r_columns r) = iota_range 0 col 0 ([] @ take col (r_columns r) @ subseq (r_columns r) col tot @ drop ?e (r_columns r))"
        by simp
      also have "\<dots> = [] @ [0..<0 + (col - 0)] @ subseq (r_columns r) col tot @ drop ?e (r_columns r)"
        by (rule iota_range_append) (use lc fit gwidth_bound [OF L] in simp_all)
      finally show ?thesis by simp
    qed
    then have c1: "iota_range 0 col 0 (r_columns r) =
        [0..<col] @ subseq (r_columns r) col tot @ drop ?e (r_columns r)" .
    have W: "length cs = length ws" "\<forall>w \<in> set ws. 1 \<le> w" "sum_list ws = tot"
      using args False by (simp_all add: run_args_def)
    have sum: "?e + length ?ys + 1 = gwidth gs + 1" using fit by simp
    have "iota_range ?e (?e + length ?ys + 1) (u16 (length ?xs + length cs))
        (layout_run (length ?xs) (length ?xs) ws
          ([0..<col] @ subseq (r_columns r) col tot @ drop ?e (r_columns r))) =
        enc_cols 0 (g_chars ?xs @ g_run cs ws @ g_chars ?ys)"
      by (rule run_columns)
        (use W lc fit gwidth_bound [OF L] sum_list_ge_length [OF W(2)] in \<open>simp_all add: subseq_def\<close>)
    then have "cols = enc_cols 0 (g_chars ?xs @ g_run cs ws @ g_chars ?ys)"
      unfolding sum using False W(1) by (simp add: cols_def c1)
    then show ?thesis
      using weight lcols lc fit False P
      by (intro explicit_repD(7) [OF explicit_repI]) (simp_all add: r' r1_def run_glyphs_def)
  qed
  then show ?thesis
    unfolding wrote_def row_rep_def attrs_rep_def using attrs la width1
    by (simp add: gw r')
qed

section \<open>Full row, and a run on a single-width row\<close>

lemma length_layout_run [simp]: "length (layout_run c off ws xs) = length xs"
  by (induction c off ws xs rule: layout_run.induct) simp_all

lemma full_row_wrote:
  assumes rep: "row_rep r gs" and args: "run_args (gwidth gs) 0 cs ws (gwidth gs) all_single"
  shows "wrote r gs 0 (run_glyphs cs ws all_single) a (write_full_row cs ws all_single a r)"
proof -
  let ?new = "run_glyphs cs ws all_single" and ?r' = "write_full_row cs ws all_single a r"
  note P = run_glyphs_props [OF args]
  have L: "layout_rep r gs" and A: "attrs_rep r" using rep by (simp_all add: row_rep_def)
  have width: "row_width r = gwidth gs" by (rule row_width_rep [OF L])
  have lc: "length (r_columns r) = Suc (gwidth gs)" using L by (simp add: layout_rep_def)
  have width1: "row_width ?r' = gwidth gs"
    using row_width_length [of ?r' r] by (simp add: write_full_row_def width)
  have gw: "g_write_run 0 ?new gs = ?new" using L P(1) by (simp add: g_write_run_def layout_rep_def)
  have weight: "gweight ?new < 32768"
    using gwidth_bound [OF L] args g_run_props(3) [of cs ws]
    by (auto simp: run_glyphs_def run_args_def split: if_splits)
  have "layout_rep ?r' ?new"
  proof (cases all_single)
    case True
    then show ?thesis
      using weight lc args by (simp add: layout_rep_def write_full_row_def run_glyphs_def run_args_def)
  next
    case False
    have W: "length cs = length ws" "\<forall>w \<in> set ws. 1 \<le> w" "sum_list ws = gwidth gs"
      using args False by (simp_all add: run_args_def)
    have "r_columns r = [] @ take (gwidth gs) (r_columns r) @ drop (gwidth gs) (r_columns r)" by simp
    then have "layout_run 0 0 ws (r_columns r) = [] @ enc 0 (g_run cs ws) @ drop (gwidth gs) (r_columns r)"
      using layout_run_append [of "[]" 0 "take (gwidth gs) (r_columns r)" ws cs 0 "drop (gwidth gs) (r_columns r)"]
        W lc gwidth_bound [OF L] P(4) by simp
    moreover have "drop (gwidth gs) (r_columns r) = [r_columns r ! gwidth gs]"
      using lc by (metis Cons_nth_drop_Suc drop_all lessI order_refl)
    moreover have "length (enc 0 (g_run cs ws)) = gwidth gs"
      using P(1,2) False by (simp add: run_glyphs_def)
    ultimately have "(layout_run 0 0 ws (r_columns r))[gwidth gs := length cs] = enc_cols 0 (g_run cs ws)"
      using P(3) False by (simp add: enc_cols_def run_glyphs_def list_update_append)
    moreover have "u16 (length cs) = length cs" using P(4) gwidth_bound [OF L] by (simp add: u16_id)
    ultimately show ?thesis
      using weight False P W(1)
      by (intro explicit_repD(7) [OF explicit_repI]) (simp_all add: write_full_row_def run_glyphs_def width)
  qed
  moreover have "row_attrs ?r' = replicate (gwidth gs) a"
    unfolding row_attrs_def width1 by (simp add: write_full_row_def)
  ultimately show ?thesis
    unfolding wrote_def row_rep_def attrs_rep_def gw P(1) width1
    using A width by (simp add: write_full_row_def attrs_rep_def)
qed

lemma single_layout_path_wrote:
  assumes rep: "row_rep r gs" and args: "run_args (gwidth gs) col cs ws tot False"
    and path: "try_write_measured_run_on_single_width_layout col cs ws tot a r = Some r'"
  shows "wrote r gs col (g_run cs ws) a r'"
proof -
  let ?new = "g_run cs ws" and ?e = "col + tot"
  note P = run_glyphs_props [OF args, unfolded run_glyphs_def if_False]
  have L: "layout_rep r gs" and A: "attrs_rep r" using rep by (simp_all add: row_rep_def)
  have width: "row_width r = gwidth gs" by (rule row_width_rep [OF L])
  have fit: "?e \<le> gwidth gs" using args by (simp add: run_args_def)
  have W: "length cs = length ws" "\<forall>w \<in> set ws. 1 \<le> w" "sum_list ws = tot"
    using args by (simp_all add: run_args_def)
  have u: "u16 ?e = ?e" using fit gwidth_bound [OF L] by (simp add: u16_id)
  have layout: "\<not> r_filled r" "r_single r"
    using path by (auto simp: try_write_measured_run_on_single_width_layout_def Let_def split: if_splits)
  then have gs: "gs = g_chars (r_text r)" using L by (simp add: layout_rep_def)
  have lt: "length (r_text r) = gwidth gs" using gs by (metis g_chars_simps(4))
  let ?xs = "take col (r_text r)" and ?ys = "drop ?e (r_text r)"
  have "g_write_run col ?new (g_chars (r_text r)) = g_chars ?xs @ ?new @ g_chars ?ys"
    using fit P(1) lt by (subst g_write_run_chars) simp_all
  then have gw: "g_write_run col ?new gs = g_chars ?xs @ ?new @ g_chars ?ys" using gs by simp
  have lc: "length (r_columns r) = Suc (gwidth gs)" using L by (simp add: layout_rep_def)
  define cols where "cols = iota_range ?e (gwidth gs + 1) (u16 (col + length cs))
      (layout_run col col ws (iota_range 0 (length (r_columns r)) 0 (r_columns r)))"
  define r1 where "r1 = r\<lparr>r_text := str_replace col tot cs (r_text r), r_columns := cols\<rparr>"
  have r': "r' = (write_attr_range col ?e a r1)\<lparr>r_single := False\<rparr>"
    using path by (auto simp: try_write_measured_run_on_single_width_layout_def Let_def u width r1_def cols_def
        split: if_splits)
  have xs: "length ?xs = col" and ys: "?e + length ?ys + 1 = gwidth gs + 1"
    using fit lt by simp_all
  have "iota_range 0 (length (r_columns r)) 0 (r_columns r) = [0..<gwidth gs + 1]"
    using iota_range_all [of "r_columns r"] lc gwidth_bound [OF L] by simp
  also have "\<dots> = [0..<col] @ [col..<col + tot] @ [?e..<gwidth gs + 1]"
    using fit upt_split [of 0 col "gwidth gs + 1"] upt_split [of col ?e "gwidth gs + 1"] by simp
  finally have c1: "iota_range 0 (length (r_columns r)) 0 (r_columns r) =
      [0..<col] @ [col..<col + tot] @ [?e..<gwidth gs + 1]" .
  have "iota_range ?e (?e + length ?ys + 1) (u16 (length ?xs + length cs))
      (layout_run (length ?xs) (length ?xs) ws ([0..<col] @ [col..<col + tot] @ [?e..<gwidth gs + 1])) =
      enc_cols 0 (g_chars ?xs @ g_run cs ws @ g_chars ?ys)"
    by (rule run_columns)
      (use W lc lt fit gwidth_bound [OF L] sum_list_ge_length [OF W(2)] in simp_all)
  then have cols: "cols = enc_cols 0 (g_chars ?xs @ g_run cs ws @ g_chars ?ys)"
    unfolding cols_def c1 xs ys .
  have lcols: "length cols = length (r_columns r)" by (simp add: cols_def iota_range_def)
  have width1: "row_width r1 = gwidth gs"
    using lcols row_width_length [of r1 r] by (simp add: r1_def width)
  then have width2: "row_width r' = gwidth gs"
    using row_width_length [of r' "write_attr_range col ?e a r1"] by (simp add: r')
  have la: "length (r_attrs r1) = row_width r1" using A width width1 by (simp add: attrs_rep_def r1_def)
  have "row_attrs r1 = row_attrs r" by (rule row_attrs_cong) (simp_all add: width width1, simp_all add: r1_def)
  then have ra: "row_attrs (write_attr_range col ?e a r1) = overwrite col (replicate tot a) (row_attrs r)"
    using row_attrs_write_attr_range [OF la, of col ?e a] fit P width1 by simp
  have "row_attrs r' = row_attrs (write_attr_range col ?e a r1)"
    unfolding r' by (rule row_attrs_cong) (simp_all add: row_width_def)
  with ra P(1) have attrs: "row_attrs r' = overwrite col (replicate (gwidth ?new) a) (row_attrs r)" by simp
  have weight: "gweight (g_chars ?xs @ ?new @ g_chars ?ys) < 32768"
    using gwidth_bound [OF L] fit lt g_run_props(3) [OF W(1,2)] W(3) by simp
  have "layout_rep r' (g_chars ?xs @ ?new @ g_chars ?ys)"
    using weight cols layout P
    by (intro explicit_repD(7) [OF explicit_repI]) (simp_all add: r' r1_def str_replace_def)
  then show ?thesis
    unfolding wrote_def row_rep_def attrs_rep_def using attrs la width1 width2 layout
    by (simp add: gw r' r1_def)
qed

section \<open>In-place overwriting\<close>

lemma match_run_glyphs:
  assumes "layout_rep r (as @ rest)" and "match_run r (gwidth as) (length (gtext as)) ws = Some e"
    and "col_offset r e = length (gtext as) + length ws"
  shows "\<exists>ms bs. rest = ms @ bs \<and> map snd ms = ws \<and> (\<forall>g \<in> set ms. length (fst g) = 1)
    \<and> e = gwidth as + sum_list ws"
  using assms
proof (induction ws arbitrary: as rest)
  case Nil
  then show ?case by auto
next
  case (Cons w ws)
  note L = Cons.prems(1)
  have width: "row_width r = gwidth as + gwidth rest" using row_width_rep [OF L] by simp
  have guards: "gwidth as < row_width r" "w \<noteq> 0" "gwidth as + w \<le> row_width r"
    "list_all (\<lambda>k. is_trailing r (u16 (gwidth as + k)) \<and>
       col_offset r (u16 (gwidth as + k)) = length (gtext as)) [1..<w]"
    and rec: "match_run r (u16 (gwidth as + w)) (Suc (length (gtext as))) ws = Some e"
    using Cons.prems(2) by (auto split: if_splits)
  obtain g rest' where g: "rest = g # rest'" using guards(1) width by (cases rest) auto
  obtain t w' where tw: "g = (t, w')" by (cases g)
  have L2: "layout_rep r (as @ (t, w') # rest')" using L g tw by simp
  have L3: "layout_rep r ((as @ [(t, w')]) @ rest')" using L2 by simp
  have bound: "gwidth as + w < 32768" using guards(3) gwidth_bound [OF L] width by simp
  then have u: "u16 (gwidth as + w) = gwidth as + w" by (simp add: u16_id)
  have "\<not> w' < w"
  proof
    assume "w' < w"
    moreover have "1 \<le> w'" using L2 by (simp add: layout_rep_def)
    ultimately have "is_trailing r (gwidth as + w')"
      using guards(4) bound by (auto simp: list_all_iff u16_id)
    moreover have "\<not> is_trailing r (gwidth as + w')" using is_trailing_boundary [OF L3] by simp
    ultimately show False by simp
  qed
  moreover have "\<not> w < w'"
  proof
    assume w: "w < w'"
    then have tr: "is_trailing r (gwidth as + w)" "col_offset r (gwidth as + w) = length (gtext as)"
      using is_trailing_rep [OF L2 w] col_offset_trailing [OF L2 _ w] guards(2) by simp_all
    show False
    proof (cases ws)
      case Nil
      then show False using rec u Cons.prems(3) tr by simp
    next
      case (Cons x xs)
      then show False using rec u tr by (simp split: if_splits)
    qed
  qed
  ultimately have w: "w' = w" by simp
  have next_off: "col_offset r (gwidth as + w) = length (gtext as) + length t"
    using col_offset_start [OF L3] w by simp
  have t1: "length t = 1"
  proof (cases ws)
    case Nil
    then show ?thesis using rec u Cons.prems(3) next_off by simp
  next
    case (Cons x xs)
    then show ?thesis using rec u next_off by (simp split: if_splits)
  qed
  have rec': "match_run r (gwidth (as @ [(t, w')])) (length (gtext (as @ [(t, w')]))) ws = Some e"
    using rec u w t1 by simp
  have off': "col_offset r e = length (gtext (as @ [(t, w')])) + length ws"
    using Cons.prems(3) t1 by simp
  obtain ms bs where "rest' = ms @ bs" "map snd ms = ws" "\<forall>g \<in> set ms. length (fst g) = 1"
    "e = gwidth (as @ [(t, w')]) + sum_list ws"
    using Cons.IH [OF L3 rec' off'] by blast
  then have "rest = (g # ms) @ bs \<and> map snd (g # ms) = w # ws \<and> (\<forall>g \<in> set (g # ms). length (fst g) = 1)
      \<and> e = gwidth as + sum_list (w # ws)"
    using g tw w t1 by simp
  then show ?case by (intro exI [of _ "g # ms"] exI [of _ bs])
qed

lemma single_cells_glyphs:
  assumes "layout_rep r (as @ rest)" and "n \<le> gwidth rest"
    and "\<forall>i < n. single_cell r (gwidth as + i)"
  shows "\<exists>ms bs. rest = ms @ bs \<and> map snd ms = replicate n 1 \<and> (\<forall>g \<in> set ms. length (fst g) = 1)"
  using assms
proof (induction n arbitrary: as rest)
  case 0
  then show ?case by auto
next
  case (Suc n)
  note L = Suc.prems(1)
  have width: "row_width r = gwidth as + gwidth rest" using row_width_rep [OF L] by simp
  obtain g rest' where g: "rest = g # rest'" using Suc.prems(2) by (cases rest) auto
  obtain t w where tw: "g = (t, w)" by (cases g)
  have L2: "layout_rep r (as @ (t, w) # rest')" using L g tw by simp
  have L3: "layout_rep r ((as @ [(t, w)]) @ rest')" using L2 by simp
  have cell: "single_cell r (gwidth as)" using Suc.prems(3) by (metis add_0_right zero_less_Suc)
  have u: "u16 (gwidth as + 1) = gwidth as + 1"
    using gwidth_bound [OF L] width Suc.prems(2) by (simp add: u16_id)
  have w1: "1 \<le> w" using L2 by (simp add: layout_rep_def)
  have "\<not> 1 < w"
  proof
    assume w: "1 < w"
    then have "is_trailing r (gwidth as + 1)" using is_trailing_rep [OF L2 w] by simp
    moreover have "gwidth as + 1 < row_width r" using width g tw w by simp
    ultimately show False using cell u by (simp add: single_cell_def Let_def)
  qed
  with w1 have w: "w = 1" by simp
  have "col_offset r (gwidth as + 1) = length (gtext as) + length t"
    using col_offset_start [OF L3] w by simp
  then have t1: "length t = 1"
    using cell u col_offset_start [OF L2] by (simp add: single_cell_def Let_def)
  have cells: "\<forall>i < n. single_cell r (gwidth (as @ [(t, w)]) + i)"
  proof (intro allI impI)
    fix i assume "i < n"
    then show "single_cell r (gwidth (as @ [(t, w)]) + i)"
      using Suc.prems(3) [rule_format, of "Suc i"] w by simp
  qed
  have len: "n \<le> gwidth rest'" using Suc.prems(2) g tw w by simp
  obtain ms bs where "rest' = ms @ bs" "map snd ms = replicate n 1" "\<forall>g \<in> set ms. length (fst g) = 1"
    using Suc.IH [OF L3 len cells] by blast
  then have "rest = (g # ms) @ bs \<and> map snd (g # ms) = replicate (Suc n) 1
      \<and> (\<forall>g \<in> set (g # ms). length (fst g) = 1)"
    using g tw w t1 by simp
  then show ?case by (intro exI [of _ "g # ms"] exI [of _ bs])
qed

text \<open>One code point per glyph and the same widths: only the text changes.\<close>

lemma enc_same_shape_aux:
  assumes "map snd ms = map snd ns" and "\<forall>g \<in> set ms. length (fst g) = 1" and "\<forall>g \<in> set ns. length (fst g) = 1"
  shows "enc off ms = enc off ns \<and> length (gtext ms) = length (gtext ns) \<and> gwidth ms = gwidth ns
    \<and> gweight ms = gweight ns \<and> gpos ms = gpos ns \<and> length (gtext ms) = length ms"
  using assms
proof (induction ms arbitrary: ns off)
  case (Cons m ms)
  obtain n ns' where n: "ns = n # ns'" using Cons.prems(1) by (cases ns) auto
  show ?case
    using Cons.IH [of ns' "off + 1"] Cons.prems n by (cases m; cases n) simp
qed simp

lemma enc_same_shape:
  assumes "map snd ms = map snd ns" and "\<forall>g \<in> set ms. length (fst g) = 1" and "\<forall>g \<in> set ns. length (fst g) = 1"
  shows "enc off ms = enc off ns" "length (gtext ms) = length (gtext ns)" "gwidth ms = gwidth ns"
    "gweight ms = gweight ns" "gpos ms = gpos ns" "length (gtext ms) = length ms"
  using enc_same_shape_aux [OF assms, of off] by simp_all

lemma g_run_shape:
  assumes "length cs = length ws"
  shows "map snd (g_run cs ws) = ws" "\<forall>g \<in> set (g_run cs ws). length (fst g) = 1"
  using assms by (induction cs ws rule: list_induct2) auto

lemma overwrite_in_place_wrote:
  assumes L: "layout_rep r (as @ ms @ bs)" and A: "attrs_rep r" and layout: "\<not> r_filled r"
    and ms: "map snd ms = ws" "\<forall>g \<in> set ms. length (fst g) = 1"
    and len: "length cs = length ws" and ne: "ms \<noteq> []"
  shows "wrote r (as @ ms @ bs) (gwidth as) (g_run cs ws) a
    (write_attr_range (gwidth as) (gwidth as + gwidth ms) a
       (r\<lparr>r_text := overwrite (length (gtext as)) cs (r_text r)\<rparr>))"
proof -
  let ?new = "g_run cs ws" and ?gs = "as @ ms @ bs"
  note S = enc_same_shape [OF _ ms(2) g_run_shape(2) [OF len], unfolded g_run_shape(1) [OF len], OF ms(1)]
  let ?r1 = "r\<lparr>r_text := overwrite (length (gtext as)) cs (r_text r)\<rparr>"
  let ?r2 = "write_attr_range (gwidth as) (gwidth as + gwidth ms) a ?r1"
  have pos: "gpos as" "gpos ms" "gpos bs" using L by (simp_all add: layout_rep_def)
  have nt: "gtext ?new = cs"
    using len by (induction cs ws rule: list_induct2) auto
  have gw: "g_write_run (gwidth as) ?new ?gs = as @ ?new @ bs"
    using pos S(3) by (simp add: g_write_run_def gtake_append gdrop_append)
  have width: "row_width r = gwidth ?gs" by (rule row_width_rep [OF L])
  have width1: "row_width ?r1 = row_width r" by (simp add: row_width_def)
  have attrs1: "row_attrs ?r1 = row_attrs r" by (rule row_attrs_cong) (simp_all add: width1)
  have la: "length (r_attrs ?r1) = row_width ?r1" using A by (simp add: attrs_rep_def width1)
  have mpos: "0 < gwidth ms" using ne pos(2) by (cases ms) auto
  have "row_attrs ?r2 = overwrite (gwidth as) (replicate (gwidth ?new) a) (row_attrs r)"
    using row_attrs_write_attr_range [OF la, of "gwidth as" "gwidth as + gwidth ms" a] mpos width S(3)
    by (simp add: attrs1 width1)
  moreover have "layout_rep ?r2 (as @ ?new @ bs)"
  proof (cases "r_single r")
    case True
    then have gs: "g_chars (r_text r) = ?gs" using L layout by (simp add: layout_rep_def)
    obtain xs ys where xy: "r_text r = xs @ ys" "as = g_chars xs" "ms @ bs = g_chars ys"
      using gs by (rule g_chars_append)
    obtain ys1 ys2 where y: "ys = ys1 @ ys2" "ms = g_chars ys1" "bs = g_chars ys2"
      using xy(3) [symmetric] by (rule g_chars_append)
    have "ws = replicate (length cs) 1" using ms(1) y(2) len by (auto simp: g_chars_def map_replicate_const o_def)
    then have new: "?new = g_chars cs" using g_run_ones by metis
    have "length cs = length ys1" using S(3) y(2) new by simp
    then have "g_chars (overwrite (length (gtext as)) cs (r_text r)) = as @ ?new @ bs"
      using xy y new by simp
    then show ?thesis
      using L layout True S pos by (simp add: layout_rep_def)
  next
    case False
    then have E: "explicit_rep r ?gs" using L layout by (simp add: explicit_rep_def)
    note D = explicit_repD [OF E]
    have "length (gtext ms) = length cs" using S(6) ms(1) len by (metis length_map)
    then have "overwrite (length (gtext as)) cs (r_text r) = gtext (as @ ?new @ bs)"
      using D(5) nt by simp
    moreover have "enc_cols 0 ?gs = enc_cols 0 (as @ ?new @ bs)"
      using S(1) [of "length (gtext as)"] S(2) by (simp add: enc_cols_append)
    ultimately show ?thesis
      using D S by (intro explicit_repD(7) [OF explicit_repI]) simp_all
  qed
  ultimately show ?thesis
    using layout la by (simp add: wrote_def row_rep_def attrs_rep_def gw)
qed

lemma matching_path_wrote:
  assumes rep: "row_rep r gs" and args: "run_args (gwidth gs) col cs ws tot False"
    and path: "try_overwrite_matching_measured_run col cs ws tot a r = Some r'"
  shows "wrote r gs col (g_run cs ws) a r'"
proof -
  have L: "layout_rep r gs" and A: "attrs_rep r" using rep by (simp_all add: row_rep_def)
  have width: "row_width r = gwidth gs" by (rule row_width_rep [OF L])
  have fit: "col + tot \<le> gwidth gs" and tot: "0 < tot"
    using args run_glyphs_props(5) [OF args] by (simp_all add: run_args_def)
  have W: "length cs = length ws" "\<forall>w \<in> set ws. 1 \<le> w" "sum_list ws = tot"
    using args by (simp_all add: run_args_def)
  have u: "u16 (col + tot) = col + tot" using fit gwidth_bound [OF L] by (simp add: u16_id)
  let ?s = "col_offset r col"
  have P: "\<not> r_filled r" "\<not> is_trailing r col" "match_run r col ?s ws = Some (col + tot)"
    "col_offset r (col + tot) = ?s + length cs"
    "r' = write_attr_range col (col + tot) a (r\<lparr>r_text := overwrite ?s cs (r_text r)\<rparr>)"
    using path W(1) by (auto simp: try_overwrite_matching_measured_run_def Let_def u
        split: if_splits option.splits)
  have col: "col < gwidth gs" using fit tot by simp
  obtain as t w bs k where gs: "gs = as @ (t, w) # bs" and n: "col = gwidth as + k" and k: "k < w"
    using glyph_split [OF col] by blast
  have L2: "layout_rep r (as @ (t, w) # bs)" using L gs by simp
  have k0: "k = 0" using is_trailing_rep [OF L2 k] P(2) n by simp
  have start: "?s = length (gtext as)" using col_offset_start [OF L2] n k0 by simp
  obtain ms bs' where ms: "(t, w) # bs = ms @ bs'" "map snd ms = ws" "\<forall>g \<in> set ms. length (fst g) = 1"
    using match_run_glyphs [OF L2, of ws "col + tot"] P(3,4) start n k0 W(1) by auto
  have gs2: "gs = as @ ms @ bs'" using gs ms(1) by simp
  have "ms \<noteq> []" using ms(2) W(3) tot by auto
  moreover have "gwidth ms = tot" using ms(2) W(3) by (simp add: gwidth_def)
  ultimately show ?thesis
    using overwrite_in_place_wrote [of r as ms bs' ws cs a] L A P(1,5) ms(2,3) W(1) gs2 start n k0 by simp
qed

section \<open>A single-width run\<close>

lemma fold_overwrite:
  assumes "i + length cs \<le> length xs"
  shows "fold (\<lambda>k t. t[i + k := cs ! k]) [0..<length cs] xs = overwrite i cs xs"
proof -
  have "fold (\<lambda>k t. t[i + k := cs ! k]) [0..<length cs] xs =
      fold (\<lambda>c t. t[c := cs ! (c - i)]) (map (\<lambda>k. i + k) [0..<length cs]) xs"
    by (simp add: fold_map o_def)
  also have "map (\<lambda>k. i + k) [0..<length cs] = [i..<i + length cs]"
    by (intro nth_equalityI) simp_all
  also have "fold (\<lambda>c t. t[c := cs ! (c - i)]) [i..<i + length cs] xs =
      set_range i (i + length cs) (\<lambda>c. cs ! (c - i)) (take i xs @ take (length cs) (drop i xs) @ drop (length cs) (drop i xs))"
    unfolding set_range_def by (metis append_take_drop_id)
  also have "\<dots> = take i xs @ map (\<lambda>c. cs ! (c - i)) [i..<i + length cs] @ drop (length cs) (drop i xs)"
    using assms by (intro set_range_append) simp_all
  also have "map (\<lambda>c. cs ! (c - i)) [i..<i + length cs] = cs"
    by (intro nth_equalityI) simp_all
  finally show ?thesis by (simp add: overwrite_def add.commute)
qed

lemma single_run_wrote:
  assumes rep: "row_rep r gs" and ne: "cs \<noteq> []"
    and path: "try_write_single_width_run col cs a r = (r', True)"
  shows "wrote r gs col (g_chars cs) a r'" and "col + length cs \<le> gwidth gs"
proof -
  let ?r = "materialize_filled r" and ?e = "col + length cs"
  have L0: "layout_rep r gs" and A0: "attrs_rep r" using rep by (simp_all add: row_rep_def)
  have L: "layout_rep ?r gs" by (rule materialize_filled_rep [OF L0])
  note A = materialize_filled_attrs [OF A0]
  have width: "row_width r = gwidth gs" by (rule row_width_rep [OF L0])
  show fit: "?e \<le> gwidth gs"
    using path ne by (auto simp: try_write_single_width_run_def Let_def width split: if_splits)
  have u: "u16 ?e = ?e" "u16 (length cs) = length cs"
    using fit gwidth_bound [OF L] by (simp_all add: u16_id)
  have "wrote ?r gs col (g_run cs (replicate (length cs) 1)) a r'"
  proof (cases "r_single ?r")
    case True
    have gs: "gs = g_chars (r_text ?r)" using L True by (simp add: layout_rep_def)
    define xs ms bs where "xs = take col (r_text ?r)" and "ms = take (length cs) (drop col (r_text ?r))"
      and "bs = drop (length cs) (drop col (r_text ?r))"
    have t: "r_text ?r = xs @ ms @ bs" unfolding xs_def ms_def bs_def by (metis append_take_drop_id)
    have gs2: "gs = g_chars xs @ g_chars ms @ g_chars bs" using gs t by simp
    have lt: "length (r_text ?r) = gwidth gs" using gs by (metis g_chars_simps(4))
    have lx: "length xs = col" "length ms = length cs" using fit lt by (simp_all add: xs_def ms_def)
    have "r' = write_attr_range col ?e a (?r\<lparr>r_text := overwrite col cs (r_text ?r)\<rparr>)"
      using path True ne u fit by (auto simp: try_write_single_width_run_def Let_def width split: if_splits)
    moreover have "map snd (g_chars ms) = replicate (length cs) 1"
      using lx by (simp add: g_chars_def map_replicate_const o_def)
    moreover have "\<forall>g \<in> set (g_chars ms). length (fst g) = 1" by (auto simp: g_chars_def)
    moreover have "g_chars ms \<noteq> []" using lx ne by (cases ms) auto
    moreover have "layout_rep ?r (g_chars xs @ g_chars ms @ g_chars bs)" using L gs2 by simp
    ultimately show ?thesis
      using overwrite_in_place_wrote [of ?r "g_chars xs" "g_chars ms" "g_chars bs" "replicate (length cs) 1" cs a]
        A(1) lx gs2 by simp
  next
    case False
    have P: "list_all (\<lambda>i. single_cell ?r (u16 (col + i))) [0..<length cs]"
      "r' = write_attr_range col ?e a (?r\<lparr>r_text :=
         fold (\<lambda>i t. t[col_offset ?r (u16 (col + i)) := cs ! i]) [0..<length cs] (r_text ?r)\<rparr>)"
      using path False ne u fit by (auto simp: try_write_single_width_run_def Let_def width split: if_splits)
    have cells: "single_cell ?r (col + i)" if "i < length cs" for i
      using P(1) that fit gwidth_bound [OF L] by (simp add: list_all_iff u16_id)
    have col: "col < gwidth gs" using fit ne by (cases cs) auto
    obtain as t w rest k where gs: "gs = as @ (t, w) # rest" and n: "col = gwidth as + k" and k: "k < w"
      using glyph_split [OF col] by blast
    have L2: "layout_rep ?r (as @ (t, w) # rest)" using L gs by simp
    have "\<not> is_trailing ?r col" using cells [of 0] ne by (simp add: single_cell_def Let_def)
    then have k0: "k = 0" using is_trailing_rep [OF L2 k] n by simp
    obtain ms bs where ms: "(t, w) # rest = ms @ bs" "map snd ms = replicate (length cs) 1"
      "\<forall>g \<in> set ms. length (fst g) = 1"
      using single_cells_glyphs [OF L2, of "length cs"] cells fit gs n k0 by auto
    have gs2: "gs = as @ ms @ bs" using gs ms(1) by simp
    have lms: "length ms = length cs" using ms(2) by (metis length_map length_replicate)
    have off: "col_offset ?r (u16 (col + i)) = length (gtext as) + i" if "i < length cs" for i
    proof -
      have shape: "map snd (take i ms) = map snd (g_chars (replicate i 0))"
        using ms(2) that by (simp add: g_chars_def map_replicate_const o_def flip: take_map)
      have "\<forall>g \<in> set (take i ms). length (fst g) = 1" using ms(3) by (meson in_set_takeD)
      moreover have "\<forall>g \<in> set (g_chars (replicate i 0)). length (fst g) = 1" by (auto simp: g_chars_def)
      ultimately have "gwidth (take i ms) = i" "length (gtext (take i ms)) = i"
        using enc_same_shape(2,3) [OF shape] by simp_all
      moreover have "layout_rep ?r ((as @ take i ms) @ (drop i ms @ bs))"
        using L gs2 by (metis append_assoc append_take_drop_id)
      ultimately show ?thesis
        using col_offset_start [of ?r "as @ take i ms" "drop i ms @ bs"] n k0 that fit gwidth_bound [OF L]
        by (simp add: u16_id)
    qed
    have rt: "r_text ?r = gtext gs" using L False by (simp add: layout_rep_def)
    have shape: "map snd ms = map snd (g_chars cs)"
      using ms(2) by (simp add: g_chars_def map_replicate_const o_def)
    have g1: "\<forall>g \<in> set (g_chars cs). length (fst g) = 1" by (auto simp: g_chars_def)
    note S = enc_same_shape [OF shape ms(3) g1]
    have "fold (\<lambda>i t. t[col_offset ?r (u16 (col + i)) := cs ! i]) [0..<length cs] (r_text ?r) =
        fold (\<lambda>i t. t[length (gtext as) + i := cs ! i]) [0..<length cs] (r_text ?r)"
      using off by (intro fold_cong) auto
    also have "\<dots> = overwrite (length (gtext as)) cs (r_text ?r)"
      using S(2) rt gs2 by (intro fold_overwrite) simp
    finally have "r' = write_attr_range col ?e a (?r\<lparr>r_text := overwrite (length (gtext as)) cs (r_text ?r)\<rparr>)"
      using P(2) by simp
    moreover have "ms \<noteq> []" using lms ne by auto
    ultimately show ?thesis
      using overwrite_in_place_wrote [of ?r as ms bs "replicate (length cs) 1" cs a] L A(1) ms(2,3) S(3) gs2 n k0
      by simp
  qed
  then have "wrote ?r gs col (g_chars cs) a r'" using g_run_ones by metis
  then show "wrote r gs col (g_chars cs) a r'" by (rule wrote_frame [OF A(2)])
qed

lemma single_run_refused:
  assumes rep: "row_rep r gs" and path: "try_write_single_width_run col cs a r = (r', False)"
  shows "row_rep r' gs" "row_attrs r' = row_attrs r" "r' = materialize_filled r"
proof -
  have L: "layout_rep r gs" and A: "attrs_rep r" using rep by (simp_all add: row_rep_def)
  show r': "r' = materialize_filled r"
    using path by (auto simp: try_write_single_width_run_def Let_def split: if_splits)
  show "row_rep r' gs" "row_attrs r' = row_attrs r"
    unfolding r' row_rep_def using materialize_filled_rep [OF L] materialize_filled_attrs [OF A] by simp_all
qed

section \<open>The general path and the composition\<close>

lemma enc_cols_sentinel:
  "length (enc 0 xs) = n \<Longrightarrow> (enc_cols 0 xs)[n := length (gtext xs)] = enc_cols 0 xs"
  by (auto simp: enc_cols_def)

lemma columns_set: "r_columns (x\<lparr>r_columns := c, r_single := b\<rparr>) = c"
  by simp

lemma run_general_wrote:
  assumes rep: "explicit_rep r gs" and A: "attrs_rep r" and W: "length cs = length ws"
    "\<forall>w \<in> set ws. 1 \<le> w" "sum_list ws = tot" "0 < tot" "col + tot \<le> gwidth gs"
    and weight: "gweight (g_write_run col (g_run cs ws) gs) < 32768"
  shows "wrote r gs col (g_run cs ws) a (write_run_general col cs ws tot a r)"
proof -
  let ?e = "col + tot" and ?as = "gtake col gs" and ?bs = "gdrop (col + tot) gs" and ?new = "g_run cs ws"
  let ?r1 = "blank_glyph_cut_at ?e (blank_glyph_cut_at col r)"
  note D = explicit_repD [OF rep]
  note G = g_run_props [OF W(1,2)]
  obtain ms where ms: "explicit_rep ?r1 (?as @ ms @ ?bs)" "gwidth ?as = col" "gwidth ms = tot" "gpos ms"
    using cut_both_ends [OF rep, of col ?e] W by auto
  note D1 = explicit_repD [OF ms(1)]
  have e16: "u16 ?e = ?e" using W gwidth_bound [OF D(7)] by (simp add: u16_id)
  let ?s = "length (gtext ?as)" and ?m = "length (gtext ms)"
  have g: "g_write_run col ?new gs = ?as @ ?new @ ?bs" using G(1) W(3) by (simp add: g_write_run_def)
  have len: "?s + (length cs + length (gtext ?bs)) < 32768" "?s + (?m + length (gtext ?bs)) < 32768"
    using weight D1(2) length_gtext_le_gweight [of "?as @ ?new @ ?bs"]
      length_gtext_le_gweight [of "?as @ ms @ ?bs"] G(2) by (simp_all add: g)
  have start: "col_offset ?r1 col = ?s"
    using col_offset_start [of ?r1 ?as "ms @ ?bs"] D1(7) ms(2) by simp
  have stop: "col_offset ?r1 ?e = ?s + ?m"
    using col_offset_start [of ?r1 "?as @ ms" ?bs] D1(7) ms(2,3) by simp
  have pos: "gpos ?as" "gpos ?bs" using D(1) by simp_all
  let ?r2 = "?r1\<lparr>r_text := str_replace ?s ?m cs (r_text ?r1)\<rparr>"
  let ?r3 = "shift_columns_from ?e (int (length cs) - int ?m) ?r2"
  let ?r4 = "?r3\<lparr>r_columns := layout_run col ?s ws (r_columns ?r3)\<rparr>"
  let ?r5 = "write_attr_range col ?e a ?r4"
  let ?r6 = "?r5\<lparr>r_columns := (r_columns ?r5)[row_width ?r5 := u16 (length (r_text ?r5))], r_single := False\<rparr>"
  have r6: "write_run_general col cs ws tot a r = ?r6"
    using len W(1) by (simp add: write_run_general_def Let_def e16 start stop u16_id to_short_id)
  have "r_columns ?r3 = (enc 0 ?as @ enc ?s ms) @ enc_cols (?s + length cs) ?bs"
    by (rule shift_columns_append [where off = "?s + ?m"])
      (use D1(6) len pos ms in \<open>simp_all add: enc_cols_append\<close>)
  then have c3: "r_columns ?r3 = enc 0 ?as @ enc ?s ms @ enc_cols (?s + length cs) ?bs" by simp
  have bound: "col + tot < 32768" using W gwidth_bound [OF D(7)] by simp
  have c4: "layout_run col ?s ws (r_columns ?r3) = enc_cols 0 (?as @ ?new @ ?bs)"
    unfolding c3 using W(1-4) pos ms bound len G
    by (subst layout_run_append [where cs = cs]) (simp_all add: enc_cols_append)
  have t4: "r_text ?r5 = gtext (?as @ ?new @ ?bs)" using D1(5) G(2) by simp
  have gw: "gwidth (?as @ ?new @ ?bs) = gwidth gs"
    using g W G(1) gwidth_g_write_run [of col ?new gs] by simp
  have width4: "row_width ?r4 = gwidth gs"
  proof -
    have "length (r_columns ?r4) = length (r_columns r)" by simp
    then show ?thesis using row_width_length [of ?r4 r] D(8) by simp
  qed
  have la: "length (r_attrs ?r4) = row_width ?r4"
    unfolding width4 using A D(8) by (simp add: attrs_rep_def)
  have "row_attrs ?r4 = row_attrs r"
    by (rule row_attrs_cong) (simp_all only: width4 D(8), simp_all)
  then have ra: "row_attrs ?r5 = overwrite col (replicate tot a) (row_attrs r)"
    using row_attrs_write_attr_range [OF la, of col ?e a] W width4 by simp
  have sentinel: "(enc_cols 0 (?as @ ?new @ ?bs))[gwidth gs := length (gtext (?as @ ?new @ ?bs))] =
      enc_cols 0 (?as @ ?new @ ?bs)"
  proof -
    have "length (enc 0 (?as @ ?new @ ?bs)) = gwidth gs"
      using gw pos G(4) by (subst length_enc) simp_all
    then show ?thesis by (rule enc_cols_sentinel)
  qed
  have w5: "row_width ?r5 = gwidth gs" using width4 by simp
  have l5: "length (r_text ?r5) < 65536" unfolding t4 using len G(2) by simp
  have c5: "r_columns ?r5 = enc_cols 0 (?as @ ?new @ ?bs)" using c4 by simp
  have "r_columns ?r6 = (r_columns ?r5)[row_width ?r5 := u16 (length (r_text ?r5))]"
    by (rule columns_set)
  also have "\<dots> = (enc_cols 0 (?as @ ?new @ ?bs))[gwidth gs := length (gtext (?as @ ?new @ ?bs))]"
    unfolding c5 w5 t4 u16_id [OF l5 [unfolded t4]] ..
  finally have c6: "r_columns ?r6 = enc_cols 0 (?as @ ?new @ ?bs)" unfolding sentinel .
  have "explicit_rep ?r6 (?as @ ?new @ ?bs)"
    using pos G weight c6 t4 D1(3,4) by (intro explicit_repI) (simp_all add: g)
  note D6 = explicit_repD [OF this]
  have "row_attrs ?r6 = row_attrs ?r5"
    by (rule row_attrs_cong) (use D6(8) gw w5 in simp_all)
  then have "row_attrs ?r6 = overwrite col (replicate (gwidth ?new) a) (row_attrs r)"
    using ra G(1) W(3) by simp
  moreover have "attrs_rep ?r6"
    unfolding attrs_rep_def D6(8) gw using la width4 D6(3) by simp
  ultimately show ?thesis
    unfolding r6 wrote_def row_rep_def g using D6(3,7) by blast
qed

theorem write_measured_run_wrote:
  assumes rep: "row_rep r gs" and args: "run_args (gwidth gs) col cs ws tot all_single"
    and weight: "gweight (g_write_run col (run_glyphs cs ws all_single) gs) < 32768"
  shows "wrote r gs col (run_glyphs cs ws all_single) a (write_measured_run col cs ws tot all_single a r)"
proof -
  let ?new = "run_glyphs cs ws all_single" and ?r' = "write_measured_run col cs ws tot all_single a r"
  have L: "layout_rep r gs" and A: "attrs_rep r" using rep by (simp_all add: row_rep_def)
  have width: "row_width r = gwidth gs" by (rule row_width_rep [OF L])
  have ne: "cs \<noteq> []" and fit: "col + tot \<le> gwidth gs" and tot: "0 < tot"
    using args run_glyphs_props(5) [OF args] by (simp_all add: run_args_def)
  have u: "u16 (col + tot) = col + tot" using fit gwidth_bound [OF L] by (simp add: u16_id)
  show ?thesis
  proof (cases "try_write_measured_run_on_filled_row col cs ws tot all_single a r")
    case (Some r1)
    then have "?r' = r1" using ne by (simp add: write_measured_run_def)
    then show ?thesis using filled_path_wrote [OF rep args Some] by simp
  next
    case no_filled: None
    then have unfilled: "\<not> r_filled r"
      using fit tot ne by (simp add: try_write_measured_run_on_filled_row_def Let_def u width split: if_splits)
    show ?thesis
    proof (cases "col = 0 \<and> tot = gwidth gs")
      case True
      then have "?r' = write_full_row cs ws all_single a r"
        using ne no_filled width by (simp add: write_measured_run_def)
      then show ?thesis using full_row_wrote [of r gs cs ws all_single a] rep args True by simp
    next
      case not_full: False
      have not_full': "\<not> (col = 0 \<and> tot = row_width r)" using not_full width by simp
      show ?thesis
      proof (cases all_single)
        case True
        then have S: "tot = length cs" "ws = replicate (length cs) 1"
          using args not_full by (auto simp: run_args_def)
        have new: "?new = g_chars cs" "g_run cs ws = g_chars cs"
          using True S(2) g_run_ones by (simp add: run_glyphs_def, metis)
        obtain r1 ok where s: "try_write_single_width_run col cs a r = (r1, ok)" by fastforce
        show ?thesis
        proof (cases ok)
          case ok: True
          then have "?r' = r1"
            using ne no_filled not_full' True s by (auto simp: write_measured_run_def)
          moreover have "wrote r gs col (g_chars cs) a r1"
            using s ok by (intro single_run_wrote(1) [OF rep ne]) simp
          ultimately show ?thesis by (simp only: new)
        next
          case False
          then have s': "try_write_single_width_run col cs a r = (r1, False)" using s by simp
          note R = single_run_refused [OF rep s']
          have r1: "r1 = r" using R(3) unfilled by (simp add: materialize_filled_def)
          have "\<not> r_single r"
            using s False ne fit tot S unfilled width
            by (auto simp: try_write_single_width_run_def Let_def materialize_filled_def split: if_splits)
          then have "explicit_rep r gs" using L unfilled by (simp add: explicit_rep_def)
          then have "wrote r gs col (g_run cs ws) a (write_run_general col cs ws tot a r)"
            by (rule run_general_wrote) (use A S fit tot weight new in \<open>simp_all add: sum_list_replicate\<close>)
          moreover have "?r' = write_run_general col cs ws tot a r"
            using ne no_filled not_full' True s False r1 by (auto simp: write_measured_run_def)
          ultimately show ?thesis by (simp only: new)
        qed
      next
        case False
        have args': "run_args (gwidth gs) col cs ws tot False" using args False by simp
        have new: "?new = g_run cs ws" using False by (simp add: run_glyphs_def)
        have W: "length cs = length ws" "\<forall>w \<in> set ws. 1 \<le> w" "sum_list ws = tot"
          using args' by (simp_all add: run_args_def)
        show ?thesis
        proof (cases "try_write_measured_run_on_single_width_layout col cs ws tot a r")
          case (Some r1)
          then have "?r' = r1"
            using ne no_filled not_full' False by (auto simp: write_measured_run_def)
          then show ?thesis using single_layout_path_wrote [OF rep args' Some] new by simp
        next
          case no_single: None
          then have "\<not> r_single r"
            using fit tot ne unfilled W(1)
            by (simp add: try_write_measured_run_on_single_width_layout_def Let_def u width split: if_splits)
          then have E: "explicit_rep r gs" using L unfilled by (simp add: explicit_rep_def)
          show ?thesis
          proof (cases "try_overwrite_matching_measured_run col cs ws tot a r")
            case (Some r1)
            then have "?r' = r1"
              using ne no_filled no_single not_full' False by (auto simp: write_measured_run_def)
            then show ?thesis using matching_path_wrote [OF rep args' Some] new by simp
          next
            case None
            then have "?r' = write_run_general col cs ws tot a r"
              using ne no_filled no_single not_full' False by (auto simp: write_measured_run_def)
            then show ?thesis
              using run_general_wrote [OF E A W tot fit] weight new by simp
          qed
        qed
      qed
    qed
  qed
qed

end
