(* ===== verification/Row_Ops.thy ===== *)
theory Row_Ops
  imports Row_Runs
begin

text \<open>
  The properties of a row, stated on what a caller reads of it (\<open>row_glyphs\<close>, \<open>row_attrs\<close>), and the
  operations built from the writes: clearing, copying from another row, attribute writes, and the
  CHAR_INFO exchange.
\<close>

section \<open>The invariant over what is read\<close>

definition row_inv :: "row \<Rightarrow> bool" where
  "row_inv r \<longleftrightarrow> row_rep r (row_glyphs r)"

lemma row_rep_inv: "row_rep r gs \<Longrightarrow> row_inv r \<and> row_glyphs r = gs"
  using row_glyphs_rep [of r gs] by (simp add: row_inv_def row_rep_def)

lemma row_inv_width: "row_inv r \<Longrightarrow> gwidth (row_glyphs r) = row_width r"
  using row_width_rep by (fastforce simp: row_inv_def row_rep_def)

lemma wrote_inv:
  assumes "wrote r (row_glyphs r) col new a r'"
  shows "row_inv r' \<and> row_glyphs r' = g_write_run col new (row_glyphs r)
    \<and> row_attrs r' = overwrite col (replicate (gwidth new) a) (row_attrs r)"
  using assms row_rep_inv [of r' "g_write_run col new (row_glyphs r)"] by (simp add: wrote_def)

section \<open>Writing\<close>

text \<open>C2: Whatever layout the row is in and whichever path \<open>write_glyph\<close> takes, the row read back afterwards
  is the abstract write: the columns before \<open>col\<close> and from the end of the glyph on are unchanged, a
  wide glyph cut by either end has become spaces, and the glyph stands between them, clipped to the
  row; exactly the written columns get the attribute. The invariant holds again as long as the text
  fits the 15-bit offsets (a row of glyphs with at most as many code points as columns always does).\<close>
theorem write_glyph_refines:
  assumes "row_inv r" and "col < row_width r" and "0 < wc"
    and "gweight (g_write col t (min (nat wc) (row_width r - col)) (row_glyphs r)) < 32768"
  shows "row_inv (write_glyph col t wc a r)
    \<and> row_glyphs (write_glyph col t wc a r) = g_write col t (min (nat wc) (row_width r - col)) (row_glyphs r)
    \<and> row_attrs (write_glyph col t wc a r) =
        overwrite col (replicate (min (nat wc) (row_width r - col)) a) (row_attrs r)"
proof -
  let ?w = "min (nat wc) (row_width r - col)"
  have W: "gwidth (row_glyphs r) = row_width r" by (rule row_inv_width [OF assms(1)])
  have w: "?w = (if int col + wc > int (gwidth (row_glyphs r)) then gwidth (row_glyphs r) - col else nat wc)"
    using assms(2,3) W by auto
  have "wrote r (row_glyphs r) col [(t, ?w)] a (write_glyph col t wc a r)"
    by (rule write_glyph_wrote [OF _ _ assms(3) w])
      (use assms W in \<open>simp_all add: row_inv_def\<close>)
  from wrote_inv [OF this] show ?thesis by (simp add: g_write_def)
qed

theorem write_glyph_refines_witness:
  "row_glyphs (write_glyph 1 [0x4E2D] 2 0x1F (write_glyph 2 [0x6587] 2 0x07 (new_row 5 7))) =
     [([0x20], 1), ([0x4E2D], 2), ([0x20], 1), ([0x20], 1)]"
proof -
  let ?r = "write_glyph 2 [0x6587] 2 0x07 (new_row 5 7)"
  have "row_inv ?r" by code_simp
  moreover have "1 < row_width ?r" by code_simp
  moreover have "gweight (g_write 1 [0x4E2D] (min (nat 2) (row_width ?r - 1)) (row_glyphs ?r)) < 32768"
    by code_simp
  ultimately have "row_glyphs (write_glyph 1 [0x4E2D] 2 0x1F ?r) =
      g_write 1 [0x4E2D] (min (nat 2) (row_width ?r - 1)) (row_glyphs ?r)"
    using write_glyph_refines [of ?r 1 2 "[0x4E2D]" "0x1F"] by simp
  also have "\<dots> = [([0x20], 1), ([0x4E2D], 2), ([0x20], 1), ([0x20], 1)]" by code_simp
  finally show ?thesis .
qed

text \<open>C3: A measured run writes the same content through every one of its paths (a row still filled, the
  full row, a single-width row, an identical layout, the general rebuild): one glyph per character with
  its width at \<open>col\<close>, everything outside untouched apart from wide glyphs cut at the two ends, which
  become spaces, and the attribute on exactly the written columns.\<close>
theorem write_measured_run_refines:
  assumes "row_inv r" and "run_args (row_width r) col cs ws tot all_single"
    and "gweight (g_write_run col (run_glyphs cs ws all_single) (row_glyphs r)) < 32768"
  shows "row_inv (write_measured_run col cs ws tot all_single a r)
    \<and> row_glyphs (write_measured_run col cs ws tot all_single a r) =
        g_write_run col (run_glyphs cs ws all_single) (row_glyphs r)
    \<and> row_attrs (write_measured_run col cs ws tot all_single a r) =
        overwrite col (replicate tot a) (row_attrs r)"
proof -
  have W: "gwidth (row_glyphs r) = row_width r" by (rule row_inv_width [OF assms(1)])
  have args: "run_args (gwidth (row_glyphs r)) col cs ws tot all_single" using assms(2) W by simp
  have rep: "row_rep r (row_glyphs r)" using assms(1) by (simp add: row_inv_def)
  have "wrote r (row_glyphs r) col (run_glyphs cs ws all_single) a (write_measured_run col cs ws tot all_single a r)"
    by (rule write_measured_run_wrote [OF rep args assms(3)])
  from wrote_inv [OF this] show ?thesis by (simp add: run_glyphs_props(1) [OF args])
qed

theorem write_measured_run_refines_witness:
  "row_glyphs (write_measured_run 1 [0x61, 0x4E2D] [1, 2] 3 False 0x1F (write_glyph 3 [0x6587] 2 0x07 (new_row 6 7))) =
     [([0x20], 1), ([0x61], 1), ([0x4E2D], 2), ([0x20], 1), ([0x20], 1)]"
proof -
  let ?r = "write_glyph 3 [0x6587] 2 0x07 (new_row 6 7)"
  have "row_inv ?r" by code_simp
  moreover have "run_args (row_width ?r) 1 [0x61, 0x4E2D] [1, 2] 3 False" by code_simp
  moreover have "gweight (g_write_run 1 (run_glyphs [0x61, 0x4E2D] [1, 2] False) (row_glyphs ?r)) < 32768"
    by code_simp
  ultimately have "row_glyphs (write_measured_run 1 [0x61, 0x4E2D] [1, 2] 3 False 0x1F ?r) =
      g_write_run 1 (run_glyphs [0x61, 0x4E2D] [1, 2] False) (row_glyphs ?r)"
    using write_measured_run_refines [of ?r 1 "[0x61, 0x4E2D]" "[1, 2]" 3 False "0x1F"] by simp
  also have "\<dots> = [([0x20], 1), ([0x61], 1), ([0x4E2D], 2), ([0x20], 1), ([0x20], 1)]" by code_simp
  finally show ?thesis .
qed

text \<open>C7: \<open>try_write_single_width_run\<close> either writes one single-width glyph per character with the given
  attribute, or refuses and leaves what is read of the row as it was.\<close>
theorem try_write_single_width_run_refines:
  assumes "row_inv r" and "cs \<noteq> []"
  shows "row_inv (fst (try_write_single_width_run col cs a r))
    \<and> (if snd (try_write_single_width_run col cs a r)
       then row_glyphs (fst (try_write_single_width_run col cs a r)) = g_write_run col (g_chars cs) (row_glyphs r)
            \<and> row_attrs (fst (try_write_single_width_run col cs a r)) =
                overwrite col (replicate (length cs) a) (row_attrs r)
       else row_glyphs (fst (try_write_single_width_run col cs a r)) = row_glyphs r
            \<and> row_attrs (fst (try_write_single_width_run col cs a r)) = row_attrs r)"
proof -
  have rep: "row_rep r (row_glyphs r)" using assms(1) by (simp add: row_inv_def)
  obtain r' ok where e: "try_write_single_width_run col cs a r = (r', ok)" by fastforce
  show ?thesis
  proof (cases ok)
    case True
    with e have "try_write_single_width_run col cs a r = (r', True)" by simp
    from wrote_inv [OF single_run_wrote(1) [OF rep assms(2) this]] show ?thesis using e True by simp
  next
    case False
    with e have e': "try_write_single_width_run col cs a r = (r', False)" by simp
    from single_run_refused [OF rep e'] row_rep_inv [of r' "row_glyphs r"] show ?thesis using e False by simp
  qed
qed

theorem try_write_single_width_run_refines_witness:
  "snd (try_write_single_width_run 1 [0x61] 0x1F (write_glyph 1 [0x6587] 2 0x07 (new_row 5 7))) = False
   \<and> row_glyphs (fst (try_write_single_width_run 1 [0x61] 0x1F (write_glyph 1 [0x6587] 2 0x07 (new_row 5 7)))) =
     [([0x20], 1), ([0x6587], 2), ([0x20], 1), ([0x20], 1)]"
proof -
  let ?r = "write_glyph 1 [0x6587] 2 0x07 (new_row 5 7)"
  have "row_inv ?r" by code_simp
  moreover have s: "snd (try_write_single_width_run 1 [0x61] 0x1F ?r) = False" by code_simp
  ultimately have "row_glyphs (fst (try_write_single_width_run 1 [0x61] 0x1F ?r)) = row_glyphs ?r"
    using try_write_single_width_run_refines [of ?r "[0x61]" 1 "0x1F"] by simp
  also have "\<dots> = [([0x20], 1), ([0x6587], 2), ([0x20], 1), ([0x20], 1)]" by code_simp
  finally show ?thesis using s by blast
qed

section \<open>Thin rows\<close>

text \<open>
  A row whose glyphs have at most one code point each, which is all the screen buffer ever writes:
  its content always fits the offsets, so the writes need no other condition.
\<close>

definition row_ok :: "row \<Rightarrow> bool" where
  "row_ok r \<longleftrightarrow> row_inv r \<and> gthin (row_glyphs r)"

lemma row_okD:
  assumes "row_ok r"
  shows "row_rep r (row_glyphs r)" "layout_rep r (row_glyphs r)" "attrs_rep r" "gthin (row_glyphs r)"
    "gpos (row_glyphs r)" "gwidth (row_glyphs r) = row_width r" "row_width r < 32768"
    "length (row_attrs r) = row_width r"
proof -
  show rep: "row_rep r (row_glyphs r)" "gthin (row_glyphs r)"
    using assms by (simp_all add: row_ok_def row_inv_def)
  then show "layout_rep r (row_glyphs r)" "attrs_rep r" by (simp_all add: row_rep_def)
  then show "gpos (row_glyphs r)" "gwidth (row_glyphs r) = row_width r" "row_width r < 32768"
    "length (row_attrs r) = row_width r"
    using layout_rep_gpos row_width_rep gwidth_bound by (auto simp: attrs_rep_def)
qed

lemma row_okI: "row_rep r gs \<Longrightarrow> gthin gs \<Longrightarrow> row_ok r"
  using row_rep_inv [of r gs] by (simp add: row_ok_def)

lemma row_ok_new: "w < 32768 \<Longrightarrow> row_ok (new_row w a) \<and> row_glyphs (new_row w a) = gspaces w
    \<and> row_attrs (new_row w a) = replicate w (text_attribute a) \<and> row_width (new_row w a) = w"
  for w
proof -
  assume w: "w < 32768"
  have c: "gspaces w = g_chars (replicate w 0x20)" by (rule gspaces_chars)
  have width: "row_width (new_row w a) = w"
    using w by (simp add: new_row_def reset_fill_def row_empty_def row_width_def vec_resize_def u16_id)
  have "layout_rep (new_row w a) (gspaces w)"
    using w by (simp add: layout_rep_def c) (simp add: new_row_def reset_fill_def row_empty_def vec_resize_def)
  moreover have "attrs_rep (new_row w a)"
    unfolding attrs_rep_def width by (simp add: new_row_def reset_fill_def row_empty_def vec_resize_def)
  ultimately have "row_rep (new_row w a) (gspaces w)" by (simp add: row_rep_def)
  moreover have "row_attrs (new_row w a) = replicate w (text_attribute a)"
    unfolding row_attrs_def width by (simp add: new_row_def reset_fill_def)
  ultimately show ?thesis using width row_rep_inv row_okI by fastforce
qed

text \<open>The result of a reset: every column the same character, whatever the row held before.\<close>

lemma reset_fill_row:
  assumes "w < 32768"
  shows "row_ok (reset_fill w c a r)" "row_glyphs (reset_fill w c a r) = g_chars (replicate w c)"
    "row_attrs (reset_fill w c a r) = replicate w a" "row_width (reset_fill w c a r) = w"
proof -
  let ?r = "reset_fill w c a r"
  have lc: "length (r_columns ?r) = w + 1" "length (r_attrs ?r) = w"
    by (simp_all add: reset_fill_def vec_resize_def)
  then show width: "row_width ?r = w"
    using assms by (auto simp: row_width_def u16_def)
  have "layout_rep ?r (g_chars (replicate w c))"
    using assms lc by (simp add: layout_rep_def) (simp add: reset_fill_def)
  moreover have "attrs_rep ?r"
    unfolding attrs_rep_def width using lc by (simp add: reset_fill_def)
  ultimately have rep: "row_rep ?r (g_chars (replicate w c))" by (simp add: row_rep_def)
  then show "row_glyphs ?r = g_chars (replicate w c)" using row_rep_inv by blast
  show "row_ok ?r" by (rule row_okI [OF rep]) simp
  show "row_attrs ?r = replicate w a" unfolding row_attrs_def width by (simp add: reset_fill_def)
qed

text \<open>One write of a thin row, with all that is observed of the result.\<close>

lemma write_glyph_thin:
  assumes "row_ok r" and "col < row_width r" and "0 < wc" and "length t \<le> 1"
    and w: "w = min (nat wc) (row_width r - col)"
  shows "row_ok (write_glyph col t wc a r)"
    "row_glyphs (write_glyph col t wc a r) = g_write col t w (row_glyphs r)"
    "row_attrs (write_glyph col t wc a r) = overwrite col (replicate w a) (row_attrs r)"
    "row_width (write_glyph col t wc a r) = row_width r"
proof -
  note D = row_okD [OF assms(1)]
  have w1: "1 \<le> w" "col + w \<le> row_width r" using assms(2,3) w by auto
  have thin: "gthin (g_write col t w (row_glyphs r))" "gpos (g_write col t w (row_glyphs r))"
    using D(4,5) assms(4) w1 by (simp_all add: g_write_def)
  have gw: "gwidth (g_write col t w (row_glyphs r)) = row_width r"
    using w1 D(6) by (simp add: g_write_def)
  have weight: "gweight (g_write col t w (row_glyphs r)) < 32768"
    using gthin_weight [OF thin] gw D(7) by simp
  have weq: "w = (if int col + wc > int (gwidth (row_glyphs r)) then gwidth (row_glyphs r) - col else nat wc)"
    using assms(2,3) D(6) w by auto
  have col: "col < gwidth (row_glyphs r)" using assms(2) D(6) by simp
  have "wrote r (row_glyphs r) col [(t, w)] a (write_glyph col t wc a r)"
    by (rule write_glyph_wrote [OF D(1) col assms(3) weq weight])
  note res = wrote_inv [OF this]
  show g: "row_glyphs (write_glyph col t wc a r) = g_write col t w (row_glyphs r)"
    using res by (simp add: g_write_def)
  show ok: "row_ok (write_glyph col t wc a r)" using res thin by (simp add: row_ok_def g_write_def)
  show "row_attrs (write_glyph col t wc a r) = overwrite col (replicate w a) (row_attrs r)"
    using res by simp
  show "row_width (write_glyph col t wc a r) = row_width r"
    using row_okD(6) [OF ok] g gw by simp
qed

lemma clear_cell_thin:
  assumes "row_ok r" and "col < row_width r"
  shows "row_ok (clear_cell col a r)"
    "row_glyphs (clear_cell col a r) = g_write col [0x20] 1 (row_glyphs r)"
    "row_attrs (clear_cell col a r) = (row_attrs r)[col := a]"
    "row_width (clear_cell col a r) = row_width r"
  using write_glyph_thin [OF assms, of 1 "[0x20]" 1 a] assms row_okD(8) [OF assms(1)]
  by (simp_all add: clear_cell_def overwrite_single)

text \<open>Attribute writes leave the glyphs alone.\<close>

lemma set_attr_thin:
  assumes "row_ok r"
  shows "row_ok (set_attr c a r)" "row_glyphs (set_attr c a r) = row_glyphs r"
    "row_attrs (set_attr c a r) = (row_attrs r)[c := a]" "row_width (set_attr c a r) = row_width r"
proof -
  note D = row_okD [OF assms]
  let ?r = "materialize_filled r"
  note A = materialize_filled_attrs [OF D(3)]
  have la: "length (r_attrs ?r) = row_width ?r" using A(1) by (simp add: attrs_rep_def)
  have eq: "set_attr c a r = set_attr c a ?r"
    by (simp add: set_attr_def Let_def materialize_filled_def row_width_def)
  note F = set_attr_frame [of ?r c a, simplified]
  have L: "layout_rep (set_attr c a ?r) (row_glyphs r)"
    using materialize_filled_rep [OF D(2)] F by (subst layout_rep_cong [of _ ?r]) simp_all
  moreover have "attrs_rep (set_attr c a ?r)" using F la by (simp add: attrs_rep_def)
  ultimately have rep: "row_rep (set_attr c a ?r) (row_glyphs r)" by (simp add: row_rep_def)
  then show "row_glyphs (set_attr c a r) = row_glyphs r" using row_rep_inv eq by simp
  show "row_ok (set_attr c a r)" unfolding eq by (rule row_okI [OF rep D(4)])
  show "row_attrs (set_attr c a r) = (row_attrs r)[c := a]"
    unfolding eq using row_attrs_set_attr [of ?r c a] la A(2) by simp
  show "row_width (set_attr c a r) = row_width r" unfolding eq using F by simp
qed

lemma fill_attrs_thin:
  assumes "row_ok r" and "s \<le> e"
  shows "row_ok (fill_attrs s e a r)" "row_glyphs (fill_attrs s e a r) = row_glyphs r"
    "row_attrs (fill_attrs s e a r) =
       set_range s (min e (row_width r)) (\<lambda>_. a) (row_attrs r)"
    "row_width (fill_attrs s e a r) = row_width r"
proof -
  note D = row_okD [OF assms(1)]
  let ?r = "materialize_filled r" and ?r' = "fill_attrs s e a r"
  note A = materialize_filled_attrs [OF D(3)]
  have la: "length (r_attrs ?r) = row_width r" using A(1) by (simp add: attrs_rep_def)
  have frame: "r_text ?r' = r_text ?r" "r_columns ?r' = r_columns ?r" "r_single ?r' = r_single ?r"
    "\<not> r_filled ?r'" "r_fill_char ?r' = r_fill_char ?r"
    by (simp_all add: fill_attrs_def Let_def materialize_attrs_def)
  then show width: "row_width ?r' = row_width r" using row_width_length [of ?r' r] by simp
  have "layout_rep ?r' (row_glyphs r)"
    using materialize_filled_rep [OF D(2)] frame by (subst layout_rep_cong [of _ ?r]) simp_all
  moreover have "attrs_rep ?r'"
    unfolding attrs_rep_def width using frame(4) la by (simp add: fill_attrs_def Let_def materialize_attrs_def)
  ultimately have rep: "row_rep ?r' (row_glyphs r)" by (simp add: row_rep_def)
  then show "row_glyphs ?r' = row_glyphs r" using row_rep_inv by blast
  show "row_ok ?r'" by (rule row_okI [OF rep D(4)])
  show "row_attrs ?r' = set_range s (min e (row_width r)) (\<lambda>_. a) (row_attrs r)"
  proof (cases "s = 0 \<and> e \<ge> row_width r")
    case True
    then have "row_attrs ?r' = replicate (row_width r) a"
      unfolding row_attrs_def width by (simp add: fill_attrs_def)
    moreover have "set_range 0 (row_width r) (\<lambda>_. a) (row_attrs r) = replicate (row_width r) a"
      using set_range_const [of 0 "row_width r" "row_attrs r" a] D(8) by simp
    ultimately show ?thesis using True by (simp add: min_absorb2)
  next
    case False
    let ?r2 = "materialize_attrs ?r"
    have ra: "r_attrs ?r2 = row_attrs ?r" "\<not> r_attrs_uniform ?r2"
      using la by (simp_all add: materialize_attrs_def row_attrs_def)
    then have l2: "length (r_attrs ?r2) = row_width r" using A(2) D(8) by simp
    have "?r' = (if s \<ge> row_width r then ?r2
        else ?r2\<lparr>r_attrs := set_range s (min e (row_width r)) (\<lambda>_. a) (r_attrs ?r2)\<rparr>)"
      using False l2 by (auto simp: fill_attrs_def Let_def)
    moreover have "set_range s (min e (row_width r)) (\<lambda>_. a) (row_attrs r) = row_attrs r" if "s \<ge> row_width r"
      using that by (intro set_range_empty) simp
    ultimately show ?thesis
      using ra A(2) by (auto simp: row_attrs_def)
  qed
qed

section \<open>Copying from another row\<close>

text \<open>The attributes a copy gives the columns of glyphs: each glyph that of its leading column.\<close>

fun lead_attrs :: "row \<Rightarrow> nat \<Rightarrow> glyph list \<Rightarrow> attr list" where
  "lead_attrs src c [] = []"
| "lead_attrs src c ((t, w) # gs) = replicate w (attr_at src c) @ lead_attrs src (c + w) gs"

lemma length_lead_attrs [simp]: "length (lead_attrs src c gs) = gwidth gs"
  by (induction src c gs rule: lead_attrs.induct) auto

lemma lead_attrs_append:
  "lead_attrs src c (as @ bs) = lead_attrs src c as @ lead_attrs src (c + gwidth as) bs"
  by (induction src c as rule: lead_attrs.induct) (auto simp: add.assoc)

lemma overwrite_overwrite:
  assumes "d + length A + length B \<le> length xs"
  shows "overwrite (d + length A) B (overwrite d A xs) = overwrite d (A @ B) xs"
  using assms by (simp add: overwrite_def add_ac)

text \<open>The steps over the columns of one glyph: one write, the trailing columns are skipped.\<close>

lemma copy_one_glyph:
  assumes L: "layout_rep src (as @ (t, w) # bs)" and s: "s + i = gwidth as" and m: "1 \<le> m" "m \<le> w"
  shows "fold (copy_step src s d) [i..<i + m] r =
    write_glyph (u16 (d + i)) t (int w) (attr_at src (gwidth as)) r"
proof -
  have bound: "gwidth as + w < 32768" using gwidth_bound [OF L] by simp
  have lead: "copy_step src s d i r =
      write_glyph (u16 (d + i)) t (int w) (attr_at src (gwidth as)) r" for r
    using is_trailing_rep [OF L, of 0] glyph_at_rep [OF L, of 0] glyph_width_rep [OF L, of 0] m s bound
    by (simp add: copy_step_def Let_def u16_id)
  have skip: "copy_step src s d j r = r" if "i < j" "j < i + m" for j r
  proof -
    have "is_trailing src (gwidth as + (j - i))"
      using is_trailing_rep [OF L, of "j - i"] that m by simp
    moreover have "u16 (s + j) = gwidth as + (j - i)" using that s m bound by (simp add: u16_id)
    ultimately show ?thesis by (simp add: copy_step_def Let_def)
  qed
  have "fold (copy_step src s d) js r = r" if "\<forall>j \<in> set js. i < j \<and> j < i + m" for js r
    using that by (induction js arbitrary: r) (simp_all add: skip)
  then have "fold (copy_step src s d) [Suc i..<i + m] r = r" for r by simp
  moreover have "[i..<i + m] = i # [Suc i..<i + m]" using m by (simp add: upt_conv_Cons)
  ultimately show ?thesis using lead by simp
qed

text \<open>Whole glyphs that fit.\<close>

lemma copy_glyphs:
  assumes ok: "row_ok r" and L: "layout_rep src (as @ xs @ bs)" and thin: "gthin xs"
    and s: "s = gwidth as" and fit: "d + gwidth xs \<le> row_width r"
  shows "row_ok (fold (copy_step src s d) [0..<gwidth xs] r)
    \<and> row_glyphs (fold (copy_step src s d) [0..<gwidth xs] r) =
        (if xs = [] then row_glyphs r else g_write_run d xs (row_glyphs r))
    \<and> row_attrs (fold (copy_step src s d) [0..<gwidth xs] r) =
        overwrite d (lead_attrs src s xs) (row_attrs r)
    \<and> row_width (fold (copy_step src s d) [0..<gwidth xs] r) = row_width r"
  using L thin fit
proof (induction xs arbitrary: bs rule: rev_induct)
  case Nil
  show ?case using ok by simp
next
  case (snoc g xs)
  obtain t w where g: "g = (t, w)" by (cases g)
  have L: "layout_rep src ((as @ xs) @ (t, w) # bs)" using snoc.prems(1) g by simp
  have w: "1 \<le> w" using L by (simp add: layout_rep_def)
  let ?r1 = "fold (copy_step src s d) [0..<gwidth xs] r"
  have IH: "row_ok ?r1"
    "row_glyphs ?r1 = (if xs = [] then row_glyphs r else g_write_run d xs (row_glyphs r))"
    "row_attrs ?r1 = overwrite d (lead_attrs src s xs) (row_attrs r)" "row_width ?r1 = row_width r"
    using snoc.IH [of "(t, w) # bs"] snoc.prems L g by simp_all
  note D = row_okD [OF ok]
  have fit: "d + gwidth xs + w \<le> row_width r" using snoc.prems(3) g by simp
  have u: "u16 (d + gwidth xs) = d + gwidth xs" using fit D(7) by (simp add: u16_id)
  have "fold (copy_step src s d) [gwidth xs..<gwidth xs + w] ?r1 =
      write_glyph (u16 (d + gwidth xs)) t (int w) (attr_at src (gwidth (as @ xs))) ?r1"
    using s w by (intro copy_one_glyph [OF L]) simp_all
  moreover have "[0..<gwidth (xs @ [g])] = [0..<gwidth xs] @ [gwidth xs..<gwidth xs + w]"
    using g upt_add_eq_append [of 0 "gwidth xs" w] by simp
  ultimately have eq: "fold (copy_step src s d) [0..<gwidth (xs @ [g])] r =
      write_glyph (d + gwidth xs) t (int w) (attr_at src (s + gwidth xs)) ?r1"
    using s by (simp add: u)
  have t1: "length t \<le> 1" using snoc.prems(2) g by simp
  have m: "w = min (nat (int w)) (row_width ?r1 - (d + gwidth xs))" using fit IH(4) by simp
  have c: "d + gwidth xs < row_width ?r1" "(0::int) < int w" using fit w IH(4) by simp_all
  note W = write_glyph_thin [OF IH(1) c t1 m, of "attr_at src (s + gwidth xs)"]
  have pos: "gpos xs" using L by (simp add: layout_rep_def)
  have "g_write (d + gwidth xs) t w (row_glyphs ?r1) = g_write_run d (xs @ [g]) (row_glyphs r)"
  proof (cases "xs = []")
    case True
    then show ?thesis using g by (simp add: g_write_def)
  next
    case False
    then show ?thesis
      unfolding g_write_def g IH(2) if_not_P [OF False]
      using D(5,6) pos fit by (intro g_write_run_append) simp_all
  qed
  moreover have "overwrite (d + gwidth xs) (replicate w (attr_at src (s + gwidth xs)))
      (overwrite d (lead_attrs src s xs) (row_attrs r)) = overwrite d (lead_attrs src s (xs @ [g])) (row_attrs r)"
    using overwrite_overwrite [of d "lead_attrs src s xs" "replicate w (attr_at src (s + gwidth xs))" "row_attrs r"]
      fit D(8) by (simp add: lead_attrs_append g)
  ultimately show ?case using W IH eq by simp
qed

text \<open>
  A copy of columns that start at a glyph: the glyphs \<open>xs\<close> are those with their leading column in the
  range. They are written in full even when the last one ends beyond the copied range, clipped to the
  row only.
\<close>

lemma copy_from_thin:
  assumes ok: "row_ok r" and L: "layout_rep src (as @ xs @ bs)" and thin: "gthin xs"
    and s: "s = gwidth as" and N: "N = min n (min (row_width r - d) (row_width src - s))"
    and cover: "N \<le> gwidth xs" and last: "xs \<noteq> [] \<Longrightarrow> gwidth (butlast xs) < N"
  shows "row_ok (copy_from src s d n r)"
    "row_glyphs (copy_from src s d n r) =
       (if xs = [] then row_glyphs r else g_write_run d (gclip (row_width r - d) xs) (row_glyphs r))"
    "row_attrs (copy_from src s d n r) =
       overwrite d (take (row_width r - d) (lead_attrs src s xs)) (row_attrs r)"
    "row_width (copy_from src s d n r) = row_width r"
proof -
  have fold_eq: "copy_from src s d n r = fold (copy_step src s d) [0..<N] r"
    by (simp add: copy_from_def N)
  have "row_ok (copy_from src s d n r)
    \<and> row_glyphs (copy_from src s d n r) =
       (if xs = [] then row_glyphs r else g_write_run d (gclip (row_width r - d) xs) (row_glyphs r))
    \<and> row_attrs (copy_from src s d n r) =
       overwrite d (take (row_width r - d) (lead_attrs src s xs)) (row_attrs r)
    \<and> row_width (copy_from src s d n r) = row_width r"
  proof (cases xs rule: rev_cases)
    case Nil
    then show ?thesis using fold_eq cover ok by simp
  next
    case (snoc ys g)
    obtain t w where g: "g = (t, w)" by (cases g)
    have L1: "layout_rep src (as @ ys @ (t, w) # bs)" using L snoc g by simp
    have L2: "layout_rep src ((as @ ys) @ (t, w) # bs)" using L1 by simp
    have ltN: "gwidth ys < N" using last snoc by simp
    let ?W = "row_width r" and ?m = "N - gwidth ys" and ?w = "min w (row_width r - (d + gwidth ys))"
    have room: "d + gwidth ys < ?W" using ltN N by (simp add: less_diff_conv add.commute)
    let ?r1 = "fold (copy_step src s d) [0..<gwidth ys] r"
    have R1: "row_ok ?r1" "row_glyphs ?r1 = (if ys = [] then row_glyphs r else g_write_run d ys (row_glyphs r))"
      "row_attrs ?r1 = overwrite d (lead_attrs src s ys) (row_attrs r)" "row_width ?r1 = ?W"
      using copy_glyphs [OF ok L1 _ s, of d] thin snoc room by simp_all
    note D = row_okD [OF ok]
    have u: "u16 (d + gwidth ys) = d + gwidth ys" using room D(7) by (simp add: u16_id)
    have w: "1 \<le> w" using L1 by (simp add: layout_rep_def)
    have m: "1 \<le> ?m" "?m \<le> w" using ltN cover snoc g by simp_all
    have "[0..<N] = [0..<gwidth ys] @ [gwidth ys..<gwidth ys + ?m]"
      using upt_add_eq_append [of 0 "gwidth ys" ?m] ltN by simp
    moreover have "fold (copy_step src s d) [gwidth ys..<gwidth ys + ?m] ?r1 =
        write_glyph (u16 (d + gwidth ys)) t (int w) (attr_at src (gwidth (as @ ys))) ?r1"
      using s m by (intro copy_one_glyph [OF L2]) simp_all
    ultimately have eq: "copy_from src s d n r =
        write_glyph (d + gwidth ys) t (int w) (attr_at src (s + gwidth ys)) ?r1"
      using fold_eq s u by simp
    have t1: "length t \<le> 1" using thin snoc g by simp
    have wm: "?w = min (nat (int w)) (row_width ?r1 - (d + gwidth ys))" using R1(4) by simp
    have c: "d + gwidth ys < row_width ?r1" "(0::int) < int w" using room w R1(4) by simp_all
    note W = write_glyph_thin [OF R1(1) c t1 wm, of "attr_at src (s + gwidth ys)"]
    have pos: "gpos ys" using L1 by (simp add: layout_rep_def)
    have clip: "gclip (?W - d) xs = ys @ [(t, ?w)]"
      using pos room w snoc g by (simp add: gclip_append)
    have "g_write (d + gwidth ys) t ?w (row_glyphs ?r1) = g_write_run d (ys @ [(t, ?w)]) (row_glyphs r)"
    proof (cases "ys = []")
      case True
      then show ?thesis using R1(2) by (simp add: g_write_def)
    next
      case False
      then show ?thesis
        unfolding g_write_def R1(2) if_not_P [OF False]
        using D(5,6) pos room by (intro g_write_run_append) simp_all
    qed
    moreover have "overwrite (d + gwidth ys) (replicate ?w (attr_at src (s + gwidth ys)))
        (overwrite d (lead_attrs src s ys) (row_attrs r)) =
        overwrite d (take (?W - d) (lead_attrs src s xs)) (row_attrs r)"
    proof -
      have "take (?W - d) (lead_attrs src s xs) =
          lead_attrs src s ys @ replicate ?w (attr_at src (s + gwidth ys))"
        using room by (simp add: snoc lead_attrs_append g min_def)
      then show ?thesis
        using overwrite_overwrite [of d "lead_attrs src s ys" "replicate ?w (attr_at src (s + gwidth ys))"
            "row_attrs r"] room D(8) by simp
    qed
    ultimately show ?thesis using W R1 eq clip snoc by simp
  qed
  then show "row_ok (copy_from src s d n r)"
    "row_glyphs (copy_from src s d n r) =
       (if xs = [] then row_glyphs r else g_write_run d (gclip (row_width r - d) xs) (row_glyphs r))"
    "row_attrs (copy_from src s d n r) =
       overwrite d (take (row_width r - d) (lead_attrs src s xs)) (row_attrs r)"
    "row_width (copy_from src s d n r) = row_width r" by simp_all
qed

text \<open>C10: Copying a stretch of whole glyphs that fits reproduces exactly those glyphs at the destination, each
  with the attribute of its leading column, and leaves the rest of the row as an ordinary write does.\<close>
theorem copy_from_whole_glyphs:
  assumes "row_ok r" and "row_ok src" and "row_glyphs src = as @ xs @ bs" and "xs \<noteq> []"
    and "d + gwidth xs \<le> row_width r"
  shows "row_ok (copy_from src (gwidth as) d (gwidth xs) r)
    \<and> row_glyphs (copy_from src (gwidth as) d (gwidth xs) r) = g_write_run d xs (row_glyphs r)
    \<and> row_attrs (copy_from src (gwidth as) d (gwidth xs) r) =
        overwrite d (lead_attrs src (gwidth as) xs) (row_attrs r)"
proof -
  have L: "layout_rep src (as @ xs @ bs)" and thin: "gthin (as @ xs @ bs)" and pos: "gpos (as @ xs @ bs)"
    and width: "row_width src = gwidth (as @ xs @ bs)"
    using row_okD [OF assms(2)] assms(3) by simp_all
  have N: "gwidth xs = min (gwidth xs) (min (row_width r - d) (row_width src - gwidth as))"
    using assms(5) width by simp
  have last: "gwidth (butlast xs) < gwidth xs"
  proof -
    obtain ys t w where "xs = ys @ [(t, w)]" using assms(4) by (metis append_butlast_last_id surj_pair)
    then show ?thesis using pos by simp
  qed
  have "gclip (row_width r - d) xs = xs" "take (row_width r - d) (lead_attrs src (gwidth as) xs) = lead_attrs src (gwidth as) xs"
    using pos assms(5) by simp_all
  then show ?thesis
    using copy_from_thin [OF assms(1) L _ refl N order_refl last] thin assms(4) by simp
qed

theorem copy_from_whole_glyphs_witness:
  "row_glyphs (copy_from (write_glyph 1 [0x4E2D] 2 0x1F (new_row 4 7)) 1 0 2 (new_row 3 7)) =
     [([0x4E2D], 2), ([0x20], 1)]"
proof -
  let ?src = "write_glyph 1 [0x4E2D] 2 0x1F (new_row 4 7)"
  have "row_ok (new_row 3 7)" "row_ok ?src" by code_simp+
  moreover have "row_glyphs ?src = [([0x20], 1)] @ [([0x4E2D], 2)] @ [([0x20], 1)]" by code_simp
  moreover have "0 + gwidth [([0x4E2D], 2)] \<le> row_width (new_row 3 7)" by code_simp
  ultimately have "row_glyphs (copy_from ?src (gwidth [([0x20], 1)]) 0 (gwidth [([0x4E2D], 2)]) (new_row 3 7)) =
      g_write_run 0 [([0x4E2D], 2)] (row_glyphs (new_row 3 7))"
    using copy_from_whole_glyphs [of "new_row 3 7" ?src "[([0x20], 1)]" "[([0x4E2D], 2)]" "[([0x20], 1)]" 0] by simp
  also have "\<dots> = [([0x4E2D], 2), ([0x20], 1)]" by code_simp
  finally show ?thesis by simp
qed


section \<open>CHAR_INFO\<close>

text \<open>The two sides of a wide glyph, and the stored attribute.\<close>

lemma dbcs_flags_rep:
  assumes L: "layout_rep r (as @ (t, w) # bs)" and k: "k < w"
  shows "dbcs_flags r (gwidth as + k) =
    (if k \<noteq> 0 then COMMON_LVB_TRAILING_BYTE else if 1 < w then COMMON_LVB_LEADING_BYTE else 0)"
proof -
  have width: "row_width r = gwidth as + w + gwidth bs" using row_width_rep [OF L] by simp
  have bound: "gwidth as + w < 32768" using gwidth_bound [OF L] by simp
  have tr: "is_trailing r (gwidth as + k) \<longleftrightarrow> k \<noteq> 0" by (rule is_trailing_rep [OF L k])
  have "is_trailing r (gwidth as + 1) \<longleftrightarrow> 1 < w \<or> False"
  proof (cases "1 < w")
    case True
    then show ?thesis using is_trailing_rep [OF L, of 1] by simp
  next
    case False
    then have "w = 1" using L by (simp add: layout_rep_def)
    then show ?thesis using is_trailing_boundary [of r "as @ [(t, w)]" bs] L by simp
  qed
  then show ?thesis
    using tr k bound width by (auto simp: dbcs_flags_def u16_id)
qed

lemma attr_at_row_attrs: "attrs_rep r \<Longrightarrow> c < row_width r \<Longrightarrow> attr_at r c = row_attrs r ! c"
  by (simp add: attr_at_def row_attrs_def attrs_rep_def)

lemma attr_bits:
  assumes "text_attribute a = a"
  shows "text_attribute (a OR COMMON_LVB_LEADING_BYTE) = a" "text_attribute (a OR COMMON_LVB_TRAILING_BYTE) = a"
    "(a OR COMMON_LVB_LEADING_BYTE) AND COMMON_LVB_LEADING_BYTE \<noteq> 0"
    "(a OR COMMON_LVB_TRAILING_BYTE) AND COMMON_LVB_LEADING_BYTE = 0"
    "(a OR COMMON_LVB_TRAILING_BYTE) AND COMMON_LVB_TRAILING_BYTE \<noteq> 0"
    "a AND COMMON_LVB_LEADING_BYTE = 0" "a AND COMMON_LVB_TRAILING_BYTE = 0"
proof -
  have l: "a AND COMMON_LVB_LEADING_BYTE = (a AND NOT COMMON_LVB_SBCSDBCS) AND COMMON_LVB_LEADING_BYTE"
    "a AND COMMON_LVB_TRAILING_BYTE = (a AND NOT COMMON_LVB_SBCSDBCS) AND COMMON_LVB_TRAILING_BYTE"
    "a OR x = (a AND NOT COMMON_LVB_SBCSDBCS) OR x" for x
    using assms by (simp_all add: text_attribute_def)
  have c: "NOT COMMON_LVB_SBCSDBCS AND COMMON_LVB_LEADING_BYTE = 0"
    "NOT COMMON_LVB_SBCSDBCS AND COMMON_LVB_TRAILING_BYTE = 0"
    "COMMON_LVB_LEADING_BYTE AND NOT COMMON_LVB_SBCSDBCS = 0"
    "COMMON_LVB_TRAILING_BYTE AND NOT COMMON_LVB_SBCSDBCS = 0"
    "COMMON_LVB_TRAILING_BYTE AND COMMON_LVB_LEADING_BYTE = 0"
    "COMMON_LVB_LEADING_BYTE AND COMMON_LVB_LEADING_BYTE \<noteq> 0"
    "COMMON_LVB_TRAILING_BYTE AND COMMON_LVB_TRAILING_BYTE \<noteq> 0"
    by (simp_all add: COMMON_LVB_SBCSDBCS_def COMMON_LVB_LEADING_BYTE_def COMMON_LVB_TRAILING_BYTE_def)
  show "a AND COMMON_LVB_LEADING_BYTE = 0" "a AND COMMON_LVB_TRAILING_BYTE = 0"
    using l(1,2) c(1,2) by (simp_all add: and.assoc)
  then show "(a OR COMMON_LVB_LEADING_BYTE) AND COMMON_LVB_LEADING_BYTE \<noteq> 0"
    "(a OR COMMON_LVB_TRAILING_BYTE) AND COMMON_LVB_LEADING_BYTE = 0"
    "(a OR COMMON_LVB_TRAILING_BYTE) AND COMMON_LVB_TRAILING_BYTE \<noteq> 0"
    using c(5-7) by (simp_all add: bit.conj_disj_distrib2)
  show "text_attribute (a OR COMMON_LVB_LEADING_BYTE) = a" "text_attribute (a OR COMMON_LVB_TRAILING_BYTE) = a"
    using assms c(3,4) by (simp_all add: text_attribute_def bit.conj_disj_distrib2)
qed

text \<open>What CHAR_INFO can carry: one BMP code point per glyph, no high surrogate, one or two columns.\<close>

definition ci_glyph :: "glyph \<Rightarrow> bool" where
  "ci_glyph g \<longleftrightarrow> (case g of (t, w) \<Rightarrow>
     (w = 1 \<or> w = 2) \<and> (case t of [c] \<Rightarrow> 0 < c \<and> c \<le> 0xFFFF \<and> \<not> (0xD800 \<le> c \<and> c \<le> 0xDBFF) | _ \<Rightarrow> False))"

lemma to_char_info_nth:
  assumes ok: "row_ok r" and L: "layout_rep r (as @ ([c], w) # bs)" and k: "k < w" and c: "c \<le> 0xFFFF"
  shows "to_char_info r ! (gwidth as + k) =
    \<lparr>ci_char = c, ci_attributes = row_attrs r ! (gwidth as + k) OR
       (if k \<noteq> 0 then COMMON_LVB_TRAILING_BYTE else if 1 < w then COMMON_LVB_LEADING_BYTE else 0)\<rparr>"
proof -
  have "gwidth as + k < row_width r" using row_width_rep [OF L] k by simp
  then show ?thesis
    using glyph_at_rep [OF L k] dbcs_flags_rep [OF L k] attr_at_row_attrs row_okD(3) [OF ok] c
    by (simp add: to_char_info_def glyph_wchar_def)
qed

lemma fold_upt_append: "i \<le> j \<Longrightarrow> j \<le> k \<Longrightarrow> fold f [i..<k] s = fold f [j..<k] (fold f [i..<j] s)"
  by (metis fold_append comp_apply le_add_diff_inverse upt_add_eq_append)

lemma list_split_update:
  assumes "length A = n" and "length B = n" and "i < n"
  shows "(take i A @ drop i B)[i := A ! i] = take (Suc i) A @ drop (Suc i) B"
  using assms by (simp add: list_update_append take_Suc_conv_app_nth Cons_nth_drop_Suc [symmetric])

lemma restore_glyph:
  assumes ok: "row_ok r" and ok': "row_ok r'" and width: "row_width r' = row_width r"
    and gs: "row_glyphs r = as @ ([c], w) # bs" and w: "w = 1 \<or> w = 2"
    and c: "0 < c" "c \<le> 0xFFFF" "\<not> (0xD800 \<le> c \<and> c \<le> 0xDBFF)"
    and attrs: "\<forall>a \<in> set (row_attrs r). text_attribute a = a"
    and g': "row_glyphs r' = as @ gdrop (gwidth as) gs0" and gw: "gwidth gs0 = row_width r" "gpos gs0" "gthin gs0"
    and a': "row_attrs r' = take (gwidth as) (row_attrs r) @ drop (gwidth as) A0" and A0: "length A0 = row_width r"
    and step: "step = (\<lambda>i. from_char_info_cell i (u16 (0 + i)) (to_char_info r ! i))"
  shows "row_ok (fold step [gwidth as..<gwidth as + w] r')
    \<and> row_width (fold step [gwidth as..<gwidth as + w] r') = row_width r
    \<and> row_glyphs (fold step [gwidth as..<gwidth as + w] r') =
        (as @ [([c], w)]) @ gdrop (gwidth as + w) gs0
    \<and> row_attrs (fold step [gwidth as..<gwidth as + w] r') =
        take (gwidth as + w) (row_attrs r) @ drop (gwidth as + w) A0"
proof -
  let ?n = "gwidth as" and ?A = "row_attrs r"
  note D = row_okD [OF ok]
  have L: "layout_rep r (as @ ([c], w) # bs)" using D(2) gs by simp
  have pos: "gpos as" using D(5) gs by simp
  have fit: "?n + w \<le> row_width r" using D(6) gs by simp
  have u: "u16 (0 + ?n) = ?n" "u16 (?n + 1) = ?n + 1" using fit D(7) w by (auto simp: u16_id)
  have plain: "text_attribute (?A ! i) = ?A ! i" if "i < row_width r" for i
    using attrs that D(8) by simp
  have gwr: "g_write ?n [c] w (row_glyphs r') = (as @ [([c], w)]) @ gdrop (?n + w) gs0"
    using pos by (simp add: g_write_def g_write_run_def g' gdrop_append gdrop_gdrop)
  show ?thesis
  proof (cases "w = 1")
    case True
    have n: "?n < row_width r" using fit True by simp
    have ci: "to_char_info r ! ?n = \<lparr>ci_char = c, ci_attributes = ?A ! ?n\<rparr>"
      using to_char_info_nth [OF ok L _ c(2), of 0] True by simp
    have "step ?n r' = write_glyph ?n [c] 1 (?A ! ?n) r'"
      unfolding step ci from_char_info_cell_def Let_def u
      using c attr_bits [OF plain [OF n]] plain [OF n] by auto
    moreover have "[?n..<?n + w] = [?n]" using True by simp
    ultimately have eq: "fold step [?n..<?n + w] r' = write_glyph ?n [c] 1 (?A ! ?n) r'" by simp
    have "w = min (nat 1) (row_width r' - ?n)" using True n width by simp
    note W = write_glyph_thin [OF ok' _ _ _ this, of "[c]" "?A ! ?n"]
    have "overwrite ?n (replicate w (?A ! ?n)) (row_attrs r') = take (?n + w) ?A @ drop (?n + w) A0"
      using list_split_update [of ?A "row_width r" A0 ?n] n D(8) A0 True
      by (simp add: a' overwrite_single)
    then show ?thesis using W n width gwr unfolding eq by simp
  next
    case False
    then have w2: "w = 2" using w by simp
    have n: "?n < row_width r" "?n + 1 < row_width r" using fit w2 by simp_all
    have ci: "to_char_info r ! ?n = \<lparr>ci_char = c, ci_attributes = ?A ! ?n OR COMMON_LVB_LEADING_BYTE\<rparr>"
      "to_char_info r ! (?n + 1) = \<lparr>ci_char = c, ci_attributes = ?A ! (?n + 1) OR COMMON_LVB_TRAILING_BYTE\<rparr>"
      using to_char_info_nth [OF ok L _ c(2), of 0] to_char_info_nth [OF ok L _ c(2), of 1] w2 by simp_all
    let ?r1 = "write_glyph ?n [c] 2 (?A ! ?n) r'" and ?na = "attr_at r' (?n + 1)"
    have s1: "step ?n r' = set_attr (?n + 1) ?na ?r1"
      unfolding step ci from_char_info_cell_def Let_def u
      using c attr_bits [OF plain [OF n(1)]] n width by auto
    have u2: "u16 (0 + (?n + 1)) = ?n + 1" using u(2) by simp
    have s2: "step (?n + 1) q = set_attr (?n + 1) (?A ! (?n + 1)) q" for q
      unfolding step ci from_char_info_cell_def Let_def u2
      using c attr_bits [OF plain [OF n(2)]] by auto
    have "[?n..<?n + w] = [?n, ?n + 1]" using w2 by (simp add: upt_rec)
    then have eq: "fold step [?n..<?n + w] r' = set_attr (?n + 1) (?A ! (?n + 1)) (set_attr (?n + 1) ?na ?r1)"
      using s1 s2 by simp
    have wm: "w = min (nat 2) (row_width r' - ?n)" using w2 n width by simp
    have W: "row_ok ?r1" "row_glyphs ?r1 = g_write ?n [c] w (row_glyphs r')"
      "row_attrs ?r1 = overwrite ?n (replicate w (?A ! ?n)) (row_attrs r')" "row_width ?r1 = row_width r'"
      using write_glyph_thin [OF ok' _ _ _ wm, of "[c]" "?A ! ?n"] n width by simp_all
    note S1 = set_attr_thin [OF W(1), of "?n + 1" ?na]
    note S2 = set_attr_thin [OF S1(1), of "?n + 1" "?A ! (?n + 1)"]
    have la: "length (row_attrs r') = row_width r" using row_okD(8) [OF ok'] width by simp
    have "overwrite ?n (replicate w (?A ! ?n)) (row_attrs r') = (row_attrs r')[?n := ?A ! ?n, ?n + 1 := ?A ! ?n]"
      using overwrite_overwrite [of ?n "[?A ! ?n]" "[?A ! ?n]" "row_attrs r'"] n la w2
      by (simp add: overwrite_single numeral_2_eq_2)
    then have "row_attrs (set_attr (?n + 1) (?A ! (?n + 1)) (set_attr (?n + 1) ?na ?r1)) =
        (row_attrs r')[?n := ?A ! ?n, ?n + 1 := ?A ! (?n + 1)]"
      using S1(3) S2(3) W(3) by simp
    also have "\<dots> = take (?n + w) ?A @ drop (?n + w) A0"
      using list_split_update [of ?A "row_width r" A0 ?n] list_split_update [of ?A "row_width r" A0 "?n + 1"]
        n D(8) A0 w2 by (simp add: a')
    finally show ?thesis using S1 S2 W width gwr unfolding eq by simp
  qed
qed

text \<open>C11: Saving a row as CHAR_INFO and writing it back over any row of the same width restores it: the same
  glyphs with their widths and the same attribute in every column, for all that CHAR_INFO can carry
  (one BMP code point per glyph, one or two columns).\<close>
theorem char_info_roundtrip:
  assumes "row_ok r" and "row_ok r0" and "row_width r0 = row_width r"
    and "\<forall>g \<in> set (row_glyphs r). ci_glyph g" and "\<forall>a \<in> set (row_attrs r). text_attribute a = a"
  shows "row_glyphs (from_char_info (to_char_info r) (row_width r) 0 r0) = row_glyphs r
    \<and> row_attrs (from_char_info (to_char_info r) (row_width r) 0 r0) = row_attrs r"
proof -
  let ?r0 = "materialize_filled r0" and ?gs = "row_glyphs r" and ?A0 = "row_attrs r0"
  define step where "step = (\<lambda>i. from_char_info_cell i (u16 (0 + i)) (to_char_info r ! i))"
  note D0 = row_okD [OF assms(2)]
  note D = row_okD [OF assms(1)]
  have rep0: "row_rep ?r0 (row_glyphs r0)"
    using materialize_filled_rep [OF D0(2)] materialize_filled_attrs [OF D0(3)] by (simp add: row_rep_def)
  have ok0: "row_ok ?r0" "row_glyphs ?r0 = row_glyphs r0" "row_attrs ?r0 = ?A0"
    using row_okI [OF rep0 D0(4)] row_rep_inv [OF rep0] materialize_filled_attrs [OF D0(3)] by simp_all
  have "row_ok (fold step [0..<gwidth as] ?r0)
    \<and> row_width (fold step [0..<gwidth as] ?r0) = row_width r
    \<and> row_glyphs (fold step [0..<gwidth as] ?r0) = as @ gdrop (gwidth as) (row_glyphs r0)
    \<and> row_attrs (fold step [0..<gwidth as] ?r0) = take (gwidth as) (row_attrs r) @ drop (gwidth as) ?A0"
    if "?gs = as @ bs" for as bs
    using that
  proof (induction as arbitrary: bs rule: rev_induct)
    case Nil
    then show ?case using ok0 assms(3) by simp
  next
    case (snoc g as)
    obtain t w where g: "g = (t, w)" by (cases g)
    have gs: "?gs = as @ (t, w) # bs" using snoc.prems g by simp
    then have "ci_glyph (t, w)" using assms(4) by simp
    then obtain c where t: "t = [c]" and w: "w = 1 \<or> w = 2" and c: "0 < c" "c \<le> 0xFFFF" "\<not> (0xD800 \<le> c \<and> c \<le> 0xDBFF)"
      by (auto simp: ci_glyph_def split: list.splits)
    have gs': "?gs = as @ ([c], w) # bs" using gs t by simp
    let ?r1 = "fold step [0..<gwidth as] ?r0"
    have IH: "row_ok ?r1" "row_width ?r1 = row_width r" "row_glyphs ?r1 = as @ gdrop (gwidth as) (row_glyphs r0)"
      "row_attrs ?r1 = take (gwidth as) (row_attrs r) @ drop (gwidth as) ?A0"
      using snoc.IH [OF gs] by simp_all
    have eq: "fold step [0..<gwidth (as @ [g])] ?r0 = fold step [gwidth as..<gwidth as + w] ?r1"
      using fold_upt_append [of 0 "gwidth as" "gwidth as + w" step ?r0] g by simp
    show ?case
      unfolding eq
      using restore_glyph [OF assms(1) IH(1,2) gs' w c assms(5) IH(3) _ D0(5,4) IH(4) _ step_def]
        D0(6,8) assms(3) g t by simp
  qed
  from this [of ?gs "[]"] have all: "row_glyphs (fold step [0..<row_width r] ?r0) = ?gs"
    "row_attrs (fold step [0..<row_width r] ?r0) = row_attrs r"
    using D(6,8) D0(5,6,8) assms(3) by simp_all
  have "from_char_info (to_char_info r) (row_width r) 0 r0 = fold step [0..<row_width r] ?r0"
    using assms(3) by (simp add: from_char_info_def Let_def step_def)
  then show ?thesis using all by simp
qed

theorem char_info_roundtrip_witness:
  "row_glyphs (from_char_info (to_char_info (write_glyph 1 [0x4E2D] 2 0x1F (new_row 4 7))) 4 0
      (write_glyph 0 [0x6587] 2 0x2F (new_row 4 7))) = [([0x20], 1), ([0x4E2D], 2), ([0x20], 1)]"
proof -
  let ?r = "write_glyph 1 [0x4E2D] 2 0x1F (new_row 4 7)" and ?q = "write_glyph 0 [0x6587] 2 0x2F (new_row 4 7)"
  have "row_ok ?r" "row_ok ?q" "row_width ?q = row_width ?r" by code_simp+
  moreover have "\<forall>g \<in> set (row_glyphs ?r). ci_glyph g" by code_simp
  moreover have "\<forall>a \<in> set (row_attrs ?r). text_attribute a = a" by code_simp
  ultimately have "row_glyphs (from_char_info (to_char_info ?r) (row_width ?r) 0 ?q) = row_glyphs ?r"
    using char_info_roundtrip [of ?r ?q] by simp
  moreover have "row_width ?r = 4" by code_simp
  moreover have "row_glyphs ?r = [([0x20], 1), ([0x4E2D], 2), ([0x20], 1)]" by code_simp
  ultimately show ?thesis by simp
qed

end
