(* ===== verification/Line_Store.thy ===== *)
theory Line_Store
  imports Prelude
begin

text \<open>
  The interface between the screen buffer's row storage and the operations that work on several rows:
  logical lines addressed from 0, a read, and an update through the reference a read returns. What is
  stored behind it (the screen buffer keeps a ring) does not matter to the loops over rows that the
  fills, the scrolling and the erase sequences consist of.
\<close>

locale line_store =
  fixes lines :: "'s \<Rightarrow> 'r list"
    and get :: "'s \<Rightarrow> int \<Rightarrow> 'r"
    and update :: "int \<Rightarrow> ('r \<Rightarrow> 'r) \<Rightarrow> 's \<Rightarrow> 's"
    and inv :: "'s \<Rightarrow> bool"
    and ok :: "'s \<Rightarrow> 'r \<Rightarrow> bool"
  assumes get_line: "inv s \<Longrightarrow> 0 \<le> y \<Longrightarrow> y < int (length (lines s)) \<Longrightarrow> get s y = lines s ! nat y"
    and lines_update: "inv s \<Longrightarrow> 0 \<le> y \<Longrightarrow> y < int (length (lines s)) \<Longrightarrow>
          lines (update y f s) = (lines s)[nat y := f (lines s ! nat y)]"
    and line_ok: "inv s \<Longrightarrow> r \<in> set (lines s) \<Longrightarrow> ok s r"
    and update_inv: "inv s \<Longrightarrow> 0 \<le> y \<Longrightarrow> y < int (length (lines s)) \<Longrightarrow>
          ok s (f (lines s ! nat y)) \<Longrightarrow> inv (update y f s)"
    and ok_update: "ok (update y f s) = ok s"
    and update_update: "update y g (update y f s) = update y (\<lambda>r. g (f r)) s"
begin

lemma nth_ok: "inv s \<Longrightarrow> i < length (lines s) \<Longrightarrow> ok s (lines s ! i)"
  by (simp add: line_ok)

lemma fold_same_line:
  "fold (\<lambda>x. update y (g x)) (x # xs) s = update y (fold g (x # xs)) s"
proof (induction xs arbitrary: x s rule: rev_induct)
  case (snoc z xs)
  then show ?case by (simp add: update_update comp_def)
qed (simp add: update_update comp_def)

text \<open>A loop that updates each line of \<open>[i..j]\<close> once.\<close>

lemma fold_lines:
  assumes "inv s" and "0 \<le> i" and "j < int (length (lines s))"
    and f: "\<And>y r. i \<le> y \<Longrightarrow> y \<le> j \<Longrightarrow> ok s r \<Longrightarrow> ok s (f y r)"
  shows "inv (fold (\<lambda>y. update y (f y)) [i..j] s)"
    "lines (fold (\<lambda>y. update y (f y)) [i..j] s) =
       map (\<lambda>k. if i \<le> int k \<and> int k \<le> j then f (int k) (lines s ! k) else lines s ! k)
         [0..<length (lines s)]"
    "ok (fold (\<lambda>y. update y (f y)) [i..j] s) = ok s"
proof -
  have "inv (fold (\<lambda>y. update y (f y)) [i..j] s)
    \<and> lines (fold (\<lambda>y. update y (f y)) [i..j] s) =
       map (\<lambda>k. if i \<le> int k \<and> int k \<le> j then f (int k) (lines s ! k) else lines s ! k)
         [0..<length (lines s)]
    \<and> ok (fold (\<lambda>y. update y (f y)) [i..j] s) = ok s"
    using assms
  proof (induction i j arbitrary: s rule: upto.induct)
    case (1 i j)
    show ?case
    proof (cases "i \<le> j")
      case False
      have "map (\<lambda>k. if i \<le> int k \<and> int k \<le> j then f (int k) (lines s ! k) else lines s ! k)
          [0..<length (lines s)] = lines s"
        using False by (intro nth_equalityI) auto
      then show ?thesis using False 1(2) by simp
    next
      case True
      let ?s1 = "update i (f i) s"
      have i: "i < int (length (lines s))" "nat i < length (lines s)" using True 1(3,4) by linarith+
      have l1: "lines ?s1 = (lines s)[nat i := f i (lines s ! nat i)]"
        using lines_update [OF 1(2,3) i(1)] .
      have inv1: "inv ?s1"
        using 1(5) [of i] True nth_ok [OF 1(2) i(2)] by (intro update_inv 1(2,3) i(1)) simp
      have ok1: "ok ?s1 = ok s" by (rule ok_update)
      have IH: "inv (fold (\<lambda>y. update y (f y)) [i + 1..j] ?s1)
        \<and> lines (fold (\<lambda>y. update y (f y)) [i + 1..j] ?s1) =
           map (\<lambda>k. if i + 1 \<le> int k \<and> int k \<le> j then f (int k) (lines ?s1 ! k) else lines ?s1 ! k)
             [0..<length (lines ?s1)]
        \<and> ok (fold (\<lambda>y. update y (f y)) [i + 1..j] ?s1) = ok ?s1"
        using 1(3,4,5) l1 ok1 by (intro "1.IH" True inv1) auto
      have "map (\<lambda>k. if i + 1 \<le> int k \<and> int k \<le> j then f (int k) (lines ?s1 ! k) else lines ?s1 ! k)
             [0..<length (lines ?s1)] =
          map (\<lambda>k. if i \<le> int k \<and> int k \<le> j then f (int k) (lines s ! k) else lines s ! k)
             [0..<length (lines s)]"
      proof -
        obtain n where "i = int n" using 1(3) nonneg_int_cases by blast
        then show ?thesis using i l1 True by (intro nth_equalityI) (auto simp: nth_list_update)
      qed
      then show ?thesis using IH ok1 True by (simp add: upto_rec1)
    qed
  qed
  then show "inv (fold (\<lambda>y. update y (f y)) [i..j] s)"
    "lines (fold (\<lambda>y. update y (f y)) [i..j] s) =
       map (\<lambda>k. if i \<le> int k \<and> int k \<le> j then f (int k) (lines s ! k) else lines s ! k)
         [0..<length (lines s)]"
    "ok (fold (\<lambda>y. update y (f y)) [i..j] s) = ok s" by blast+
qed

end

end
