(* ===== verification/Screen_Inv.thy ===== *)
theory Screen_Inv
  imports Screen_Buffer Row_Ops Line_Store
begin

text \<open>
  The abstraction of the screen buffer, the list of its rows from the logical row 0 down, its
  invariant, and the proof that the ring implements the line store: an access or an update of the
  logical row \<open>y\<close> is an access or an update of entry \<open>y\<close> of that list.
\<close>

definition sb_lines :: "screen_buffer \<Rightarrow> row list" where
  "sb_lines b = drop (sb_origin b) (sb_rows b) @ take (sb_origin b) (sb_rows b)"

definition sb_ok :: "screen_buffer \<Rightarrow> row \<Rightarrow> bool" where
  "sb_ok b r \<longleftrightarrow> row_ok r \<and> row_width r = nat (cX (sb_size b))"

text \<open>The ring is in shape; and its rows are sound rows of the buffer's width.\<close>

definition sb_shape :: "screen_buffer \<Rightarrow> bool" where
  "sb_shape b \<longleftrightarrow>
     1 \<le> cX (sb_size b) \<and> cX (sb_size b) \<le> 32767 \<and> 1 \<le> cY (sb_size b) \<and> cY (sb_size b) \<le> 32767 \<and>
     length (sb_rows b) = nat (cY (sb_size b)) \<and> sb_origin b < length (sb_rows b)"

definition sb_inv :: "screen_buffer \<Rightarrow> bool" where
  "sb_inv b \<longleftrightarrow> sb_shape b \<and> (\<forall>r \<in> set (sb_rows b). sb_ok b r) \<and> vp_valid (sb_size b) (sb_viewport b)"

lemma sb_shapeD:
  assumes "sb_shape b"
  shows "1 \<le> cX (sb_size b)" "cX (sb_size b) \<le> 32767" "1 \<le> cY (sb_size b)" "cY (sb_size b) \<le> 32767"
    "length (sb_rows b) = nat (cY (sb_size b))" "sb_origin b < length (sb_rows b)"
    "short_coord (sb_size b)" "to_u16 (cX (sb_size b)) = nat (cX (sb_size b))"
  using assms by (simp_all add: sb_shape_def short_coord_def is_short_def to_u16_id)

lemma sb_invD:
  assumes "sb_inv b"
  shows "1 \<le> cX (sb_size b)" "cX (sb_size b) \<le> 32767" "1 \<le> cY (sb_size b)" "cY (sb_size b) \<le> 32767"
    "length (sb_rows b) = nat (cY (sb_size b))" "sb_origin b < length (sb_rows b)"
    "\<And>r. r \<in> set (sb_rows b) \<Longrightarrow> sb_ok b r" "vp_valid (sb_size b) (sb_viewport b)"
    "short_coord (sb_size b)" "to_u16 (cX (sb_size b)) = nat (cX (sb_size b))" "sb_shape b"
  using assms sb_shapeD [of b] by (simp_all add: sb_inv_def)

section \<open>The ring\<close>

lemma ring_index: "o' < n \<Longrightarrow> k < n \<Longrightarrow> (o' + k) mod n = (if o' + k < n then o' + k else o' + k - (n::nat))"
  by (simp add: le_mod_geq)

lemma ring_nth:
  assumes "o' < length xs" and "k < length xs"
  shows "(drop o' xs @ take o' xs) ! k = xs ! ((o' + k) mod length xs)"
  using assms by (auto simp: nth_append ring_index add.commute)

lemma ring_update:
  assumes "o' < length xs" and "k < length xs"
  shows "drop o' (xs[(o' + k) mod length xs := v]) @ take o' (xs[(o' + k) mod length xs := v]) =
    (drop o' xs @ take o' xs)[k := v]"
proof (rule nth_equalityI)
  fix i assume "i < length (drop o' (xs[(o' + k) mod length xs := v]) @ take o' (xs[(o' + k) mod length xs := v]))"
  then have i: "i < length xs" by simp
  have lt: "(o' + k) mod length xs < length xs" "(o' + i) mod length xs < length xs"
    using gr_implies_not_zero [OF assms(1)] by simp_all
  have "(o' + i) mod length xs = (o' + k) mod length xs \<longleftrightarrow> i = k"
    using assms i by (auto simp: ring_index split: if_splits)
  then show "(drop o' (xs[(o' + k) mod length xs := v]) @ take o' (xs[(o' + k) mod length xs := v])) ! i =
      (drop o' xs @ take o' xs)[k := v] ! i"
    using ring_nth [of o' "xs[(o' + k) mod length xs := v]" i] ring_nth [OF assms(1) i] assms i lt
    by (auto simp: nth_list_update)
qed (use assms in simp)

lemma length_sb_lines [simp]: "length (sb_lines b) = length (sb_rows b)"
  by (simp add: sb_lines_def)

lemma set_sb_lines: "set (sb_lines b) = set (sb_rows b)"
  unfolding sb_lines_def set_append by (metis append_take_drop_id set_append sup_commute)

lemma sb_inv_lines:
  "sb_inv b \<longleftrightarrow> sb_shape b \<and> (\<forall>r \<in> set (sb_lines b). sb_ok b r) \<and> vp_valid (sb_size b) (sb_viewport b)"
  by (simp add: sb_inv_def set_sb_lines)

lemma sb_lines_range: "sb_shape b \<Longrightarrow> y < int (length (sb_lines b)) \<Longrightarrow> y < cY (sb_size b)"
  by (simp add: sb_shape_def)

lemma sb_row_lines:
  assumes "sb_shape b" and "0 \<le> y" and "y < cY (sb_size b)"
  shows "sb_row b y = sb_lines b ! nat y"
  using assms ring_nth [of "sb_origin b" "sb_rows b" "nat y"]
  by (auto simp: sb_row_def physical_row_index_def sb_lines_def sb_shape_def)

lemma sb_lines_update:
  assumes "sb_shape b" and "0 \<le> y" and "y < cY (sb_size b)"
  shows "sb_lines (sb_update y f b) = (sb_lines b)[nat y := f (sb_lines b ! nat y)]"
  using assms ring_update [of "sb_origin b" "sb_rows b" "nat y"] ring_nth [of "sb_origin b" "sb_rows b" "nat y"]
  by (auto simp: sb_update_def physical_row_index_def sb_lines_def sb_shape_def)

lemma physical_row_index_lt: "sb_shape b \<Longrightarrow> physical_row_index b y < length (sb_rows b)"
  by (auto simp: physical_row_index_def sb_shape_def Let_def)

lemma sb_shape_update [simp]: "sb_shape (sb_update y f b) = sb_shape b"
  by (simp add: sb_shape_def)

lemma sb_ok_update [simp]: "sb_ok (sb_update y f b) = sb_ok b"
  by (simp add: sb_ok_def fun_eq_iff)

lemma sb_inv_update:
  assumes "sb_inv b" and "sb_ok b (f (sb_rows b ! physical_row_index b y))"
  shows "sb_inv (sb_update y f b)"
proof -
  have "sb_ok b r" if "r \<in> set (sb_rows (sb_update y f b))" for r
    using that set_update_subset_insert [of "sb_rows b" "physical_row_index b y"] assms(2) sb_invD(7) [OF assms(1)]
    by (auto simp: sb_update_def)
  then show ?thesis using assms(1) by (simp add: sb_inv_def)
qed

lemma sb_update_update: "sb_update y g (sb_update y f b) = sb_update y (\<lambda>r. g (f r)) b"
proof (cases "physical_row_index b y < length (sb_rows b)")
  case True
  then show ?thesis by (simp add: sb_update_def physical_row_index_def)
next
  case False
  then show ?thesis by (simp add: sb_update_def physical_row_index_def list_update_beyond)
qed

lemma sb_physical_line:
  assumes "sb_shape b" and "0 \<le> y" and "y < cY (sb_size b)"
  shows "sb_rows b ! physical_row_index b y = sb_lines b ! nat y"
  using sb_row_lines [OF assms] by (simp add: sb_row_def)

lemma sb_lines_ok: "sb_inv b \<Longrightarrow> r \<in> set (sb_lines b) \<Longrightarrow> sb_ok b r"
  using sb_invD(7) by (simp add: set_sb_lines)

interpretation sbl: line_store sb_lines sb_row sb_update sb_inv sb_ok
proof unfold_locales
  fix s :: screen_buffer and y assume "sb_inv s" "0 \<le> y" "y < int (length (sb_lines s))"
  then show "sb_row s y = sb_lines s ! nat y" using sb_row_lines sb_lines_range sb_invD(11) by blast
next
  fix s :: screen_buffer and y f assume "sb_inv s" "0 \<le> y" "y < int (length (sb_lines s))"
  then show "sb_lines (sb_update y f s) = (sb_lines s)[nat y := f (sb_lines s ! nat y)]"
    using sb_lines_update sb_lines_range sb_invD(11) by blast
next
  fix s :: screen_buffer and y f
  assume "sb_inv s" "0 \<le> y" "y < int (length (sb_lines s))" "sb_ok s (f (sb_lines s ! nat y))"
  then show "sb_inv (sb_update y f s)"
    using sb_inv_update sb_physical_line sb_lines_range sb_invD(11) by metis
qed (auto simp: sb_lines_ok sb_update_update)

text \<open>The same on the shape alone, for the steps between which some rows are not sound.\<close>

interpretation sbs: line_store sb_lines sb_row sb_update sb_shape "\<lambda>_ _. True"
proof unfold_locales
  fix s :: screen_buffer and y assume "sb_shape s" "0 \<le> y" "y < int (length (sb_lines s))"
  then show "sb_row s y = sb_lines s ! nat y" using sb_row_lines sb_lines_range by blast
next
  fix s :: screen_buffer and y f assume "sb_shape s" "0 \<le> y" "y < int (length (sb_lines s))"
  then show "sb_lines (sb_update y f s) = (sb_lines s)[nat y := f (sb_lines s ! nat y)]"
    using sb_lines_update sb_lines_range by blast
qed (auto simp: sb_update_update)

text \<open>A row operation that keeps the row's invariant and width can be applied to any row of the buffer.\<close>

definition row_keeps :: "(row \<Rightarrow> row) \<Rightarrow> bool" where
  "row_keeps f \<longleftrightarrow> (\<forall>r. row_ok r \<longrightarrow> row_ok (f r) \<and> row_width (f r) = row_width r)"

named_theorems row_keeps_intros \<open>row operations that keep the row's invariant and width\<close>

lemma row_keepsD: "row_keeps f \<Longrightarrow> sb_ok b r \<Longrightarrow> sb_ok b (f r)"
  by (simp add: row_keeps_def sb_ok_def)

lemma sb_inv_update_keeps: "sb_inv b \<Longrightarrow> row_keeps f \<Longrightarrow> sb_inv (sb_update y f b)"
  by (rule sb_inv_update, assumption)
    (rule row_keepsD, assumption, rule sb_invD(7), assumption, rule nth_mem, rule physical_row_index_lt, rule sb_invD(11))

lemma row_keeps_id [row_keeps_intros]: "row_keeps (\<lambda>r. r)"
  by (simp add: row_keeps_def)

lemma row_keeps_comp: "row_keeps f \<Longrightarrow> row_keeps g \<Longrightarrow> row_keeps (\<lambda>r. g (f r))"
  by (simp add: row_keeps_def)

lemma row_keeps_fold [row_keeps_intros]: "(\<And>x. row_keeps (f x)) \<Longrightarrow> row_keeps (fold f xs)"
proof (induction xs)
  case (Cons x xs)
  then show ?case using row_keeps_comp [of "f x" "fold f xs"] by (simp add: comp_def)
qed (simp add: row_keeps_def)

lemma row_keeps_write_glyph [row_keeps_intros]:
  assumes "length t \<le> 1" shows "row_keeps (write_glyph c t w a)"
  unfolding row_keeps_def
proof (intro allI impI)
  fix r assume ok: "row_ok r"
  show "row_ok (write_glyph c t w a r) \<and> row_width (write_glyph c t w a r) = row_width r"
  proof (cases "c < row_width r \<and> 0 < w")
    case True
    then show ?thesis using write_glyph_thin [OF ok _ _ assms] by auto
  next
    case False
    then have "write_glyph c t w a r = r" by (auto simp: write_glyph_def)
    then show ?thesis using ok by simp
  qed
qed

lemma row_keeps_clear_cell [row_keeps_intros]: "row_keeps (clear_cell c a)"
  unfolding clear_cell_def by (intro row_keeps_write_glyph) simp

lemma row_keeps_set_attr [row_keeps_intros]: "row_keeps (set_attr c a)"
  by (simp add: row_keeps_def set_attr_thin)

text \<open>What a row's columns hold: at most one code point, of the glyph that covers it.\<close>

lemma glyph_at_thin: "row_ok r \<Longrightarrow> length (glyph_at r c) \<le> 1"
proof (cases "c < row_width r")
  case True
  assume ok: "row_ok r"
  note D = row_okD [OF ok]
  have "c < gwidth (row_glyphs r)" using True D(6) by simp
  then obtain as t w bs k where "row_glyphs r = as @ (t, w) # bs" "c = gwidth as + k" "k < w"
    by (rule glyph_split)
  then show ?thesis using D(2,4) glyph_at_rep [of r as t w bs k] by simp
qed (simp add: glyph_at_def)

lemma row_keeps_copy_from [row_keeps_intros]:
  assumes "row_ok src" shows "row_keeps (copy_from src s d n)"
proof -
  have "row_keeps (copy_step src s d i)" for i
    unfolding copy_step_def Let_def
    using row_keeps_write_glyph [OF glyph_at_thin [OF assms]] row_keeps_id
    by (cases "is_trailing src (u16 (s + i))") simp_all
  then have f: "row_keeps (fold (copy_step src s d) xs)" for xs by (rule row_keeps_fold)
  show ?thesis
    unfolding row_keeps_def copy_from_def using f row_keeps_def by blast
qed

lemma r_attrs_self: "r\<lparr>r_attrs := r_attrs r\<rparr> = (r :: row)"
  by (rule row.equality) simp_all

lemma row_keeps_fill_attrs [row_keeps_intros]: "row_keeps (fill_attrs s e a)"
  unfolding row_keeps_def
proof (intro allI impI)
  fix r assume ok: "row_ok r"
  show "row_ok (fill_attrs s e a r) \<and> row_width (fill_attrs s e a r) = row_width r"
  proof (cases "s \<le> e")
    case True
    then show ?thesis using fill_attrs_thin [OF ok] by simp
  next
    case False
    then have empty: "set_range s (min e n) (\<lambda>_. a) xs = xs" for n and xs :: "attr list"
      by (intro set_range_empty) simp
    have "fill_attrs s e a r = materialize_attrs (materialize_filled r)"
      using False empty by (auto simp: fill_attrs_def Let_def r_attrs_self set_range_empty)
    moreover have "set_attr (row_width r) a r = materialize_attrs (materialize_filled r)"
    proof -
      note D = row_okD [OF ok]
      have "length (r_attrs (materialize_attrs (materialize_filled r))) = row_width r"
        using D(3) by (simp add: materialize_attrs_def attrs_rep_def)
      then show ?thesis by (simp add: set_attr_def Let_def)
    qed
    ultimately show ?thesis using set_attr_thin [OF ok] by metis
  qed
qed

lemma row_keeps_reset_fill:
  assumes "sb_inv b" shows "sb_ok b (reset_fill (to_u16 (cX (sb_size b))) c a r)"
  using reset_fill_row [of "nat (cX (sb_size b))"] sb_invD(1,2) [OF assms]
  by (simp add: sb_ok_def sb_invD(10) [OF assms])

end
