(* ===== verification/Screen_Text.thy ===== *)
theory Screen_Text
  imports Screen_Inv
begin

text \<open>
  Writing text to the screen buffer: \<open>write_text_row\<close>, the path of all console output. The measuring
  loop is the longest prefix that fits (\<open>fit_count\<close>), and the row gets one glyph per character of it,
  whichever of the row's paths the write takes.
\<close>

section \<open>Runs on rows of thin glyphs\<close>

lemma wrote_thin:
  assumes ok: "row_ok r" and w: "wrote r (row_glyphs r) col new a r'" and thin: "gthin new"
    and fit: "col + gwidth new \<le> row_width r"
  shows "row_ok r'" "row_glyphs r' = g_write_run col new (row_glyphs r)"
    "row_attrs r' = overwrite col (replicate (gwidth new) a) (row_attrs r)" "row_width r' = row_width r"
proof -
  note D = row_okD [OF ok]
  note res = wrote_inv [OF w]
  show ok': "row_ok r'" using res thin D(4) by (simp add: row_ok_def)
  show "row_width r' = row_width r" using row_okD(6) [OF ok'] res fit D(6) by simp
qed (use wrote_inv [OF w] in simp_all)

lemma run_weight:
  assumes ok: "row_ok r" and thin: "gthin new" and pos: "gpos new" and fit: "col + gwidth new \<le> row_width r"
  shows "gweight (g_write_run col new (row_glyphs r)) < 32768"
proof -
  note D = row_okD [OF ok]
  have "gweight (g_write_run col new (row_glyphs r)) = gwidth (g_write_run col new (row_glyphs r))"
    using D(4,5) thin pos by (intro gthin_weight) simp_all
  then show ?thesis using fit D(6,7) by simp
qed

lemma gthin_run_glyphs [simp]: "gthin (run_glyphs cs ws s)"
  by (simp add: run_glyphs_def)

lemma write_measured_run_thin:
  assumes ok: "row_ok r" and args: "run_args (row_width r) col cs ws tot s"
  shows "row_ok (write_measured_run col cs ws tot s a r)"
    "row_glyphs (write_measured_run col cs ws tot s a r) = g_write_run col (run_glyphs cs ws s) (row_glyphs r)"
    "row_attrs (write_measured_run col cs ws tot s a r) = overwrite col (replicate tot a) (row_attrs r)"
    "row_width (write_measured_run col cs ws tot s a r) = row_width r"
proof -
  note P = run_glyphs_props [OF args]
  have fit: "col + gwidth (run_glyphs cs ws s) \<le> row_width r" using args P(1) by (simp add: run_args_def)
  have args': "run_args (gwidth (row_glyphs r)) col cs ws tot s" using args row_okD(6) [OF ok] by simp
  note W = write_measured_run_wrote [OF row_okD(1) [OF ok] args' run_weight [OF ok gthin_run_glyphs P(2) fit]]
  from wrote_thin [OF ok W gthin_run_glyphs fit] P(1)
  show "row_ok (write_measured_run col cs ws tot s a r)"
    "row_glyphs (write_measured_run col cs ws tot s a r) = g_write_run col (run_glyphs cs ws s) (row_glyphs r)"
    "row_attrs (write_measured_run col cs ws tot s a r) = overwrite col (replicate tot a) (row_attrs r)"
    "row_width (write_measured_run col cs ws tot s a r) = row_width r" by simp_all
qed

lemma single_run_thin:
  assumes ok: "row_ok r" and ne: "cs \<noteq> []" and e: "try_write_single_width_run col cs a r = (r', done)"
  shows "row_ok r'" "row_width r' = row_width r"
    "done \<Longrightarrow> row_glyphs r' = g_write_run col (g_chars cs) (row_glyphs r)
       \<and> row_attrs r' = overwrite col (replicate (length cs) a) (row_attrs r)
       \<and> col + length cs \<le> row_width r"
    "\<not> done \<Longrightarrow> row_glyphs r' = row_glyphs r \<and> row_attrs r' = row_attrs r"
proof -
  note D = row_okD [OF ok]
  have yes: "row_ok r' \<and> row_width r' = row_width r \<and> row_glyphs r' = g_write_run col (g_chars cs) (row_glyphs r)
       \<and> row_attrs r' = overwrite col (replicate (length cs) a) (row_attrs r)
       \<and> col + length cs \<le> row_width r" if "done"
  proof -
    have e': "try_write_single_width_run col cs a r = (r', True)" using e that by simp
    note S = single_run_wrote [OF D(1) ne e']
    have "col + gwidth (g_chars cs) \<le> row_width r" using S(2) D(6) by simp
    from wrote_thin [OF ok S(1) _ this] S(2) D(6) show ?thesis by simp
  qed
  have no: "row_ok r' \<and> row_width r' = row_width r \<and> row_glyphs r' = row_glyphs r \<and> row_attrs r' = row_attrs r"
    if "\<not> done"
  proof -
    have e': "try_write_single_width_run col cs a r = (r', False)" using e that by simp
    note S = single_run_refused [OF D(1) e']
    show ?thesis using S row_okI [OF S(1) D(4)] row_rep_inv [OF S(1)] by simp
  qed
  show "row_ok r'" "row_width r' = row_width r" using yes no by blast+
  show "done \<Longrightarrow> row_glyphs r' = g_write_run col (g_chars cs) (row_glyphs r)
       \<and> row_attrs r' = overwrite col (replicate (length cs) a) (row_attrs r)
       \<and> col + length cs \<le> row_width r" using yes by blast
  show "\<not> done \<Longrightarrow> row_glyphs r' = row_glyphs r \<and> row_attrs r' = row_attrs r" using no by blast
qed

section \<open>Measuring\<close>

text \<open>How many glyphs of the widths \<open>ws\<close> fit in \<open>room\<close> columns.\<close>

fun fit_count :: "int \<Rightarrow> nat list \<Rightarrow> nat" where
  "fit_count room [] = 0"
| "fit_count room (w # ws) = (if int w > room then 0 else Suc (fit_count (room - int w) ws))"

lemma fit_count_le: "fit_count room ws \<le> length ws"
  by (induction room ws rule: fit_count.induct) auto

lemma fit_count_fits: "0 < fit_count room ws \<Longrightarrow> int (sum_list (take (fit_count room ws) ws)) \<le> room"
proof (induction room ws rule: fit_count.induct)
  case (2 room w ws)
  then show ?case by (cases "fit_count (room - int w) ws") (auto split: if_splits)
qed simp

lemma fit_count_maximal:
  "fit_count room ws < length ws \<Longrightarrow>
     int (sum_list (take (fit_count room ws) ws)) + int (ws ! fit_count room ws) > room"
  by (induction room ws rule: fit_count.induct) (auto split: if_splits)

definition all_ones :: "nat list \<Rightarrow> bool" where
  "all_ones ps \<longleftrightarrow> list_all (\<lambda>p. p = 1) ps"

lemma all_ones_replicate: "all_ones ps \<Longrightarrow> replicate (length ps) 1 = ps"
  by (rule replicate_length_same) (simp add: all_ones_def list_all_iff)

lemma all_ones_snoc [simp]: "all_ones (ps @ [w]) \<longleftrightarrow> all_ones ps \<and> w = 1"
  by (auto simp: all_ones_def)

lemma all_ones_sum: "all_ones ps \<Longrightarrow> sum_list ps = length ps"
  by (induction ps) (auto simp: all_ones_def)

lemma clamp_width_bounds: "1 \<le> clamp_width w" "clamp_width w \<le> 2"
  by (simp_all add: clamp_width_def)

lemma measure_row_spec:
  assumes "0 \<le> x" and "right \<le> 32767" and "sum_list ps < 65536"
  shows "measure_row cw x right chs (length ps) (sum_list ps) (all_ones ps) (if all_ones ps then [] else ps) =
    (let qs = ps @ take (fit_count (right + 1 - x - int (sum_list ps)) (map (\<lambda>c. clamp_width (cw c)) chs))
                 (map (\<lambda>c. clamp_width (cw c)) chs)
     in (length qs, sum_list qs, all_ones qs, if all_ones qs then [] else qs))"
  using assms(3)
proof (induction chs arbitrary: ps)
  case (Cons ch chs)
  let ?w = "clamp_width (cw ch)" and ?room = "right + 1 - x - int (sum_list ps)"
  show ?case
  proof (cases "int ?w > ?room")
    case True
    then have "x + int (sum_list ps) + int ?w - 1 > right" by linarith
    then show ?thesis using True by (simp add: Let_def)
  next
    case False
    then have go: "\<not> x + int (sum_list ps) + int ?w - 1 > right" by linarith
    then have small: "sum_list (ps @ [?w]) < 65536" using assms(1,2) by simp
    have buf: "(if \<not> (if ?w \<noteq> 1 then False else all_ones ps)
          then (if ?w \<noteq> 1 \<and> all_ones ps then replicate (length ps) 1 else if all_ones ps then [] else ps) @ [?w]
          else if ?w \<noteq> 1 \<and> all_ones ps then replicate (length ps) 1 else if all_ones ps then [] else ps) =
        (if all_ones (ps @ [?w]) then [] else ps @ [?w])"
      by (cases "all_ones ps") (simp_all add: all_ones_replicate [simplified])
    have "measure_row cw x right (ch # chs) (length ps) (sum_list ps) (all_ones ps) (if all_ones ps then [] else ps) =
        measure_row cw x right chs (length (ps @ [?w])) (sum_list (ps @ [?w])) (all_ones (ps @ [?w]))
          (if all_ones (ps @ [?w]) then [] else ps @ [?w])"
      using go small buf by (auto simp add: Let_def u16_id)
    also have "\<dots> = (let qs = (ps @ [?w]) @
            take (fit_count (right + 1 - x - int (sum_list (ps @ [?w]))) (map (\<lambda>c. clamp_width (cw c)) chs))
              (map (\<lambda>c. clamp_width (cw c)) chs)
        in (length qs, sum_list qs, all_ones qs, if all_ones qs then [] else qs))"
      by (rule Cons.IH [OF small])
    also have "right + 1 - x - int (sum_list (ps @ [?w])) = ?room - int ?w" by simp
    also have "(ps @ [?w]) @ take (fit_count (?room - int ?w) (map (\<lambda>c. clamp_width (cw c)) chs))
          (map (\<lambda>c. clamp_width (cw c)) chs) =
        ps @ take (fit_count ?room (map (\<lambda>c. clamp_width (cw c)) (ch # chs)))
          (map (\<lambda>c. clamp_width (cw c)) (ch # chs))"
      using False by simp
    finally show ?thesis .
  qed
qed simp

section \<open>One stretch of text\<close>

lemma write_row_text_thin:
  assumes ok: "row_ok r" and ne: "cs \<noteq> []" and len: "length cs = length ws" and pos: "\<forall>w \<in> set ws. 1 \<le> w"
    and fit: "col + sum_list ws \<le> row_width r"
    and r': "r' = write_row_text col cs (sum_list ws) (all_ones ws) (if all_ones ws then [] else ws) a r"
  shows "row_ok r'" "row_glyphs r' = g_write_run col (g_run cs ws) (row_glyphs r)"
    "row_attrs r' = overwrite col (replicate (sum_list ws) a) (row_attrs r)" "row_width r' = row_width r"
proof -
  have "row_ok r' \<and> row_glyphs r' = g_write_run col (g_run cs ws) (row_glyphs r)
    \<and> row_attrs r' = overwrite col (replicate (sum_list ws) a) (row_attrs r) \<and> row_width r' = row_width r"
  proof (cases "all_ones ws")
    case False
    then have args: "run_args (row_width r) col cs ws (sum_list ws) False"
      using ne len pos fit by (simp add: run_args_def)
    show ?thesis
      using write_measured_run_thin [OF ok args, of a] False r'
      by (simp add: write_row_text_def run_glyphs_def)
  next
    case True
    note sum = all_ones_sum [OF True]
    have ones: "ws = replicate (length cs) 1" using all_ones_replicate [OF True] len by simp
    have chars: "g_run cs ws = g_chars cs" using g_run_ones ones by metis
    show ?thesis
    proof (cases "col = 0 \<and> sum_list ws = row_width r")
      case full: True
      then have args: "run_args (row_width r) 0 cs [] (row_width r) True"
        using ne len sum by (simp add: run_args_def)
      show ?thesis
        using write_measured_run_thin [OF ok args, of a] True full r' chars
        by (simp add: write_row_text_def run_glyphs_def)
    next
      case part: False
      obtain r1 ok1 where e: "try_write_single_width_run col cs a r = (r1, ok1)" by fastforce
      note S = single_run_thin [OF ok ne e]
      show ?thesis
      proof (cases ok1)
        case True
        with part \<open>all_ones ws\<close> e r' have "r' = r1" by (auto simp: write_row_text_def Let_def)
        then show ?thesis using S True chars sum len by simp
      next
        case ref: False
        with part \<open>all_ones ws\<close> e r' have r1: "r' = write_measured_run col cs (replicate (length cs) 1) (sum_list ws) False a r1"
          by (auto simp: write_row_text_def Let_def)
        have "run_args (row_width r1) col cs (replicate (length cs) 1) (sum_list ws) False"
          using ne fit S(2) sum len by (auto simp: run_args_def sum_list_replicate)
        note W = write_measured_run_thin [OF S(1) this, of a]
        have "run_glyphs cs (replicate (length cs) 1) False = g_chars cs"
          using g_run_ones [of cs] by (simp add: run_glyphs_def)
        then show ?thesis using W S(2) S(4) [OF ref] r1 chars by simp
      qed
    qed
  qed
  then show "row_ok r'" "row_glyphs r' = g_write_run col (g_run cs ws) (row_glyphs r)"
    "row_attrs r' = overwrite col (replicate (sum_list ws) a) (row_attrs r)" "row_width r' = row_width r"
    by blast+
qed

lemma map_lines_update:
  "sb_inv b \<Longrightarrow> 0 \<le> y \<Longrightarrow> y < cY (sb_size b) \<Longrightarrow>
     map g (sb_lines (sb_update y f b)) = (map g (sb_lines b))[nat y := g (f (sb_lines b ! nat y))]"
  by (simp add: sb_lines_update sb_invD(11) map_update)

lemma sb_line_ok:
  assumes "sb_inv b" and "0 \<le> y" and "y < cY (sb_size b)"
  shows "row_ok (sb_lines b ! nat y)" "row_width (sb_lines b ! nat y) = nat (cX (sb_size b))"
  using sbl.nth_ok [OF assms(1), of "nat y"] assms sb_invD(5) [OF assms(1)] by (simp_all add: sb_ok_def)

text \<open>C16: \<open>write_text_row\<close> writes the longest prefix of the text that ends within the viewport's right edge:
  one glyph of its measured width per character on the cursor's row, the attribute on exactly those
  columns, whatever path the row takes; the cursor advances by the columns written, and \<open>row_end\<close> is
  reported exactly when text is left over or the cursor is past the right edge.\<close>
theorem write_text_row_refines:
  assumes inv: "sb_inv b" and ne: "txt' \<noteq> []"
    and x: "x = clamp (cX cur) (rLeft (sb_viewport b)) (rRight (sb_viewport b))"
    and y: "y = clamp (cY cur) (rTop (sb_viewport b)) (rBottom (sb_viewport b))"
    and ws: "ws = map (\<lambda>ch. clamp_width (char_width_for_mode U ch mode amb)) txt'"
    and k: "k = fit_count (rRight (sb_viewport b) + 1 - x) ws"
    and res: "write_text_row U cur txt' a mode amb b = (b', cur', n, row_end)"
  shows "sb_inv b' \<and> n = k \<and> cur' = coord (x + int (sum_list (take k ws))) y
    \<and> (row_end \<longleftrightarrow> k < length txt' \<or> cX cur' > rRight (sb_viewport b))
    \<and> map row_glyphs (sb_lines b') =
        (if k = 0 then map row_glyphs (sb_lines b)
         else (map row_glyphs (sb_lines b))[nat y :=
           g_write_run (nat x) (g_run (take k txt') (take k ws)) (row_glyphs (sb_lines b ! nat y))])
    \<and> map row_attrs (sb_lines b') =
        (map row_attrs (sb_lines b))[nat y :=
           overwrite (nat x) (replicate (sum_list (take k ws)) (text_attribute a)) (row_attrs (sb_lines b ! nat y))]"
proof -
  note I = sb_invD [OF inv]
  let ?v = "sb_viewport b" and ?us = "take k ws"
  have X: "0 \<le> x" "x \<le> rRight ?v" "rRight ?v < cX (sb_size b)"
    using I(1,8) clamp_bounds [of "rLeft ?v" "rRight ?v" "cX cur"] by (auto simp: x vp_valid_def valid_dimension_def)
  have Y: "0 \<le> y" "y < cY (sb_size b)"
    using I(3,8) clamp_bounds [of "rTop ?v" "rBottom ?v" "cY cur"] by (auto simp: y vp_valid_def valid_dimension_def)
  have lk: "length ?us = k" "length (take k txt') = k" using fit_count_le [of _ ws] k ws by simp_all
  have "measure_row (\<lambda>ch. char_width_for_mode U ch mode amb) x (rRight ?v) txt' 0 0 True [] =
      (length ?us, sum_list ?us, all_ones ?us, if all_ones ?us then [] else ?us)"
    using measure_row_spec [of x "rRight ?v" "[]" "\<lambda>ch. char_width_for_mode U ch mode amb" txt'] X I(2)
    by (simp add: all_ones_def ws k Let_def)
  then have M: "measure_row (\<lambda>ch. char_width_for_mode U ch mode amb) x (rRight ?v) txt' 0 0 True [] =
      (k, sum_list ?us, all_ones ?us, if all_ones ?us then [] else ?us)"
    unfolding lk .
  have sum: "x + int (sum_list ?us) \<le> rRight ?v + 1"
    using fit_count_fits [of "rRight ?v + 1 - x" ws] X by (cases "k = 0") (simp_all add: k)
  have cast: "to_short (x + int (sum_list ?us)) = x + int (sum_list ?us)" "to_u16 x = nat x"
    using sum X I(2) by (simp_all add: to_short_id to_u16_id)
  have "write_text_row U cur txt' a mode amb b =
      (if k \<noteq> 0 then sb_update y (write_row_text (nat x) (take k txt') (sum_list ?us) (all_ones ?us)
           (if all_ones ?us then [] else ?us) (text_attribute a)) b else b,
       coord (x + int (sum_list ?us)) y, k, x + int (sum_list ?us) > rRight ?v \<or> k < length txt')"
    unfolding write_text_row_def Let_def x [symmetric] y [symmetric] M using ne cast by simp
  then have R: "b' = (if k \<noteq> 0 then sb_update y (write_row_text (nat x) (take k txt') (sum_list ?us) (all_ones ?us)
               (if all_ones ?us then [] else ?us) (text_attribute a)) b else b)"
    "cur' = coord (x + int (sum_list ?us)) y" "n = k"
    "row_end \<longleftrightarrow> x + int (sum_list ?us) > rRight ?v \<or> k < length txt'"
    using res by simp_all
  note L = sb_line_ok [OF inv Y]
  show ?thesis
  proof (cases "k = 0")
    case True
    then show ?thesis
      using R inv Y by (auto simp: overwrite_def list_update_same_conv simp flip: map_update)
  next
    case False
    let ?f = "write_row_text (nat x) (take k txt') (sum_list ?us) (all_ones ?us)
               (if all_ones ?us then [] else ?us) (text_attribute a)"
    have "\<forall>w \<in> set ws. 1 \<le> w" unfolding ws using clamp_width_bounds(1) by (simp only: set_map ball_simps) simp
    then have pos: "\<forall>w \<in> set ?us. 1 \<le> w" by (meson in_set_takeD)
    have fit: "nat x + sum_list ?us \<le> row_width (sb_lines b ! nat y)" using sum X L(2) by linarith
    have ne': "take k txt' \<noteq> []" using False ne by simp
    note W = write_row_text_thin [OF L(1) ne' _ pos fit refl, of "text_attribute a"]
    have "sb_ok b (?f (sb_rows b ! physical_row_index b y))"
      using W lk L(2) sb_physical_line [OF I(11) Y] by (simp add: sb_ok_def)
    from sb_inv_update [of b ?f y, OF inv this] show ?thesis
      using R False W lk by (simp add: map_lines_update [OF inv Y] disj_commute)
  qed
qed

theorem write_text_row_refines_witness:
  "map row_glyphs (sb_lines (fst (write_text_row sample_unicode (coord 2 1) [0x61, 0x4E2D, 0x62] 0x1F graphemes False
      (sb_new (coord 5 2))))) =
     [[([0x20], 1), ([0x20], 1), ([0x20], 1), ([0x20], 1), ([0x20], 1)],
      [([0x20], 1), ([0x20], 1), ([0x61], 1), ([0x4E2D], 2)]]"
proof -
  let ?b = "sb_new (coord 5 2)" and ?t = "[0x61, 0x4E2D, 0x62]"
  obtain b' cur' n e where r: "write_text_row sample_unicode (coord 2 1) ?t 0x1F graphemes False ?b = (b', cur', n, e)"
    by (metis surj_pair)
  have inv: "sb_inv ?b" "?t \<noteq> []" by code_simp+
  have x: "2 = clamp (cX (coord 2 1)) (rLeft (sb_viewport ?b)) (rRight (sb_viewport ?b))"
    and y: "1 = clamp (cY (coord 2 1)) (rTop (sb_viewport ?b)) (rBottom (sb_viewport ?b))"
    and ws: "[1, 2, 1] = map (\<lambda>ch. clamp_width (char_width_for_mode sample_unicode ch graphemes False)) ?t"
    and k: "2 = fit_count (rRight (sb_viewport ?b) + 1 - 2) [1, 2, 1]"
    by code_simp+
  have "P \<and> Q \<and> R \<and> S \<and> A \<and> B \<Longrightarrow> A" for P Q R S A B by blast
  note this [OF write_text_row_refines [OF inv x y ws k r]]
  also have "(if (2::nat) = 0 then map row_glyphs (sb_lines ?b)
        else (map row_glyphs (sb_lines ?b))[nat 1 := g_write_run (nat 2) (g_run (take 2 ?t) (take 2 [1, 2, 1]))
               (row_glyphs (sb_lines ?b ! nat 1))]) =
     [[([0x20], 1), ([0x20], 1), ([0x20], 1), ([0x20], 1), ([0x20], 1)],
      [([0x20], 1), ([0x20], 1), ([0x61], 1), ([0x4E2D], 2)]]" by code_simp
  finally show ?thesis unfolding r fst_conv .
qed

end
