(* ===== verification/Screen_Scroll.thy ===== *)
theory Screen_Scroll
  imports Screen_Inv
begin

text \<open>
  Scrolling whole rows. The code has two fast paths, the ring (only the origin moves) and the move of
  row objects, after which the uncovered rows are refilled; both are the same shift of the list of
  rows. The rows that \<open>std::move\<close> leaves in an unspecified state are exactly refilled ones.
\<close>

text \<open>A list moved by \<open>dy\<close> places (up when negative), the uncovered places filled.\<close>

definition shift_list :: "int \<Rightarrow> 'a \<Rightarrow> 'a list \<Rightarrow> 'a list" where
  "shift_list dy v xs =
     (let n = length xs; k = min (nat \<bar>dy\<bar>) n
      in if dy < 0 then drop k xs @ replicate k v else replicate k v @ take (n - k) xs)"

lemma length_shift_list [simp]: "length (shift_list dy v xs) = length xs"
  by (auto simp: shift_list_def Let_def)

lemma set_shift_list: "set (shift_list dy v xs) \<subseteq> insert v (set xs)"
  by (auto simp: shift_list_def Let_def dest: in_set_takeD in_set_dropD split: if_splits)

lemma set_subseq: "set (subseq xs t n) \<subseteq> set xs"
  using set_take_subset [of n "drop t xs"] set_drop_subset [of t xs] unfolding subseq_def by blast

section \<open>Refilling rows\<close>

lemma map_range_replaced:
  assumes "i \<le> m" and "m \<le> length xs"
  shows "map (\<lambda>k. if i \<le> k \<and> k < m then v else xs ! k) [0..<length xs] =
    take i xs @ replicate (m - i) v @ drop m xs"
  using assms by (intro nth_equalityI) (auto simp: nth_append)

lemma fold_fill_rows:
  "fold (sb_fill_row c a) ys b =
     fold (\<lambda>y. sb_update y (reset_fill (to_u16 (cX (sb_size b))) c (text_attribute a))) ys b"
proof (induction ys arbitrary: b)
  case (Cons y ys)
  then show ?case by (simp add: sb_fill_row_def)
qed simp

lemma fold_update_frame:
  "sb_size (fold (\<lambda>y. sb_update y (f y)) ys b) = sb_size b"
  "sb_viewport (fold (\<lambda>y. sb_update y (f y)) ys b) = sb_viewport b"
  "sb_origin (fold (\<lambda>y. sb_update y (f y)) ys b) = sb_origin b"
  "length (sb_rows (fold (\<lambda>y. sb_update y (f y)) ys b)) = length (sb_rows b)"
  by (induction ys arbitrary: b) simp_all

lemma fill_rows_lines:
  assumes shape: "sb_shape b" and i: "i \<le> m" and m: "m \<le> length (sb_rows b)"
    and v: "\<And>r. g (reset_fill (nat (cX (sb_size b))) c (text_attribute a) r) = v"
    and b': "b' = fold (sb_fill_row c a) [int i..int m - 1] b"
  shows "map g (sb_lines b') = take i (map g (sb_lines b)) @ replicate (m - i) v @ drop m (map g (sb_lines b))"
    "sb_shape b'" "sb_size b' = sb_size b" "sb_viewport b' = sb_viewport b"
proof -
  let ?f = "reset_fill (nat (cX (sb_size b))) c (text_attribute a)"
  have b'': "b' = fold (\<lambda>y. sb_update y ?f) [int i..int m - 1] b"
    using sb_shapeD(8) [OF shape] by (simp add: b' fold_fill_rows)
  have len: "length (sb_lines b) = length (sb_rows b)" by simp
  have range: "int m - 1 < int (length (sb_lines b))" using m len by linarith
  note F = sbs.fold_lines(1,2) [where f = "\<lambda>_. ?f" and i = "int i", OF shape of_nat_0_le_iff range, folded b'']
  show "sb_shape b'" using F by simp
  have "sb_lines b' = map (\<lambda>k. if int i \<le> int k \<and> int k \<le> int m - 1 then ?f (sb_lines b ! k) else sb_lines b ! k)
      [0..<length (sb_lines b)]" using F by simp
  then have "map g (sb_lines b') =
      map (\<lambda>k. if i \<le> k \<and> k < m then v else map g (sb_lines b) ! k) [0..<length (map g (sb_lines b))]"
    using v by (auto intro!: nth_equalityI)
  also have "\<dots> = take i (map g (sb_lines b)) @ replicate (m - i) v @ drop m (map g (sb_lines b))"
    using i m by (intro map_range_replaced) simp_all
  finally show "map g (sb_lines b') = take i (map g (sb_lines b)) @ replicate (m - i) v @ drop m (map g (sb_lines b))" .
  show "sb_size b' = sb_size b" "sb_viewport b' = sb_viewport b"
    unfolding b'' by (simp_all add: fold_update_frame)
qed

section \<open>The ring path\<close>

lemma ring_moved:
  assumes shape: "sb_shape b" and k: "k < length (sb_rows b)"
    and b1: "b1 = b\<lparr>sb_origin := (sb_origin b + k) mod length (sb_rows b)\<rparr>"
  shows "sb_shape b1" "sb_lines b1 = drop k (sb_lines b) @ take k (sb_lines b)"
proof -
  note S = sb_shapeD [OF shape]
  have pos: "0 < length (sb_rows b)" using k by linarith
  then show "sb_shape b1" using shape by (simp add: b1 sb_shape_def)
  have o1: "(sb_origin b + k) mod length (sb_rows b) < length (sb_rows b)" using pos by simp
  show "sb_lines b1 = drop k (sb_lines b) @ take k (sb_lines b)"
  proof (rule nth_equalityI)
    fix i assume "i < length (sb_lines b1)"
    then have i: "i < length (sb_rows b)" by (simp add: b1)
    have "sb_lines b1 ! i = sb_rows b ! (((sb_origin b + k) mod length (sb_rows b) + i) mod length (sb_rows b))"
      using ring_nth [OF o1 i] by (simp add: sb_lines_def b1)
    also have "\<dots> = sb_rows b ! ((sb_origin b + (k + i) mod length (sb_rows b)) mod length (sb_rows b))"
      by (simp add: mod_add_left_eq mod_add_right_eq add.assoc)
    also have "\<dots> = sb_lines b ! ((k + i) mod length (sb_rows b))"
      using ring_nth [OF S(6), of "(k + i) mod length (sb_rows b)"] pos by (simp add: sb_lines_def)
    also have "\<dots> = (drop k (sb_lines b) @ take k (sb_lines b)) ! i"
      using ring_nth [of k "sb_lines b" i] k i by simp
    finally show "sb_lines b1 ! i = (drop k (sb_lines b) @ take k (sb_lines b)) ! i" .
  qed (simp add: b1)
qed

lemma scroll_ring_lines:
  assumes shape: "sb_shape b" and dy: "dy \<noteq> 0"
    and v: "\<And>r. g (reset_fill (nat (cX (sb_size b))) c (text_attribute a) r) = v"
    and b': "b' = scroll_ring dy c a b"
  shows "map g (sb_lines b') = shift_list dy v (map g (sb_lines b))" "sb_shape b'" "sb_size b' = sb_size b"
    "sb_viewport b' = sb_viewport b"
proof -
  note S = sb_shapeD [OF shape]
  define h where "h = length (sb_rows b)"
  define k where "k = min (nat (if dy < 0 then - dy else dy)) h"
  have h: "nat (cY (sb_size b)) = h" "cY (sb_size b) = int h" "length (sb_lines b) = h"
    using S by (simp_all add: h_def)
  have k: "k \<le> h" "0 < k" using dy S(6) by (auto simp: k_def h_def)
  have shift: "shift_list dy v (map g (sb_lines b)) =
      (if dy < 0 then drop k (map g (sb_lines b)) @ replicate k v
       else replicate k v @ take (h - k) (map g (sb_lines b)))"
    by (simp add: shift_list_def Let_def k_def h_def)
  have v': "g (reset_fill (nat (cX (sb_size (b\<lparr>sb_origin := n\<rparr>)))) c (text_attribute a) r) = v" for r n
    using v by simp
  have "map g (sb_lines b') = shift_list dy v (map g (sb_lines b)) \<and> sb_shape b' \<and> sb_size b' = sb_size b
    \<and> sb_viewport b' = sb_viewport b"
  proof (cases "k = h")
    case True
    have s0: "sb_shape (b\<lparr>sb_origin := 0\<rparr>)" using shape S(6) by (auto simp: sb_shape_def)
    have e: "b' = fold (sb_fill_row c a) [int 0..int h - 1] (b\<lparr>sb_origin := 0\<rparr>)"
      unfolding b' scroll_ring_def Let_def h(1) k_def [symmetric] unfolding if_P [OF True] h(2) by simp
    have len0: "length (sb_rows (b\<lparr>sb_origin := 0\<rparr>)) = h" by (simp add: h_def)
    have "map g (sb_lines b') = replicate h v"
      using fill_rows_lines(1) [where g = g and v = v, OF s0 _ _ v' e] len0 h(3) by simp
    then show ?thesis
      using fill_rows_lines(2-4) [where g = g and v = v, OF s0 _ _ v' e] len0 True h(3) shift by auto
  next
    case False
    then have lt: "k < length (sb_rows b)" using k(1) by (simp add: h_def)
    show ?thesis
    proof (cases "dy < 0")
      case True
      let ?b0 = "b\<lparr>sb_origin := (sb_origin b + k) mod length (sb_rows b)\<rparr>"
      note R = ring_moved [OF shape lt refl]
      have i: "int h - int k = int (h - k)" using k by simp
      have e: "b' = fold (sb_fill_row c a) [int (h - k)..int h - 1] ?b0"
        unfolding b' scroll_ring_def Let_def h(1) k_def [symmetric]
        unfolding if_not_P [OF False] if_P [OF True] h(2) i unfolding h_def ..
      have m: "h - k \<le> h" "h \<le> length (sb_rows ?b0)" by (simp_all add: h_def)
      note F = fill_rows_lines [where g = g and v = v, OF R(1) m v' e]
      show ?thesis using F R(2) True k h(3) shift by (simp add: drop_map take_map)
    next
      case up: False
      let ?b0 = "b\<lparr>sb_origin := (sb_origin b + (h - k)) mod length (sb_rows b)\<rparr>"
      have lt': "h - k < length (sb_rows b)" using k lt by (simp add: h_def)
      note R = ring_moved [OF shape lt' refl]
      have o': "sb_origin b + h - k = sb_origin b + (h - k)" using k by linarith
      have e: "b' = fold (sb_fill_row c a) [int 0..int k - 1] ?b0"
        unfolding b' scroll_ring_def Let_def h(1) k_def [symmetric]
        unfolding if_not_P [OF False] if_not_P [OF up] o' unfolding h_def by simp
      have m: "0 \<le> k" "k \<le> length (sb_rows ?b0)" using k by (simp_all add: h_def)
      note F = fill_rows_lines [where g = g and v = v, OF R(1) m v' e]
      show ?thesis using F R(2) up k h(3) shift by (simp add: drop_map take_map)
    qed
  qed
  then show "map g (sb_lines b') = shift_list dy v (map g (sb_lines b))" "sb_shape b'" "sb_size b' = sb_size b"
    "sb_viewport b' = sb_viewport b" by blast+
qed

section \<open>The row-move path\<close>

lemma linearize_rows_lines:
  assumes "sb_shape b"
  shows "sb_shape (linearize_rows b)" "sb_lines (linearize_rows b) = sb_lines b"
    "sb_rows (linearize_rows b) = sb_lines b" "sb_size (linearize_rows b) = sb_size b"
    "sb_viewport (linearize_rows b) = sb_viewport b" "sb_origin (linearize_rows b) = 0"
    "sb_saved (linearize_rows b) = sb_saved b"
  using assms by (auto simp: linearize_rows_def sb_lines_def sb_shape_def)

lemma move_up_obs:
  assumes "k \<le> length seg"
  obtains J where "move_up mv k seg = drop k seg @ J" and "length J = k"
  using assms that by (simp add: move_up_def)

lemma move_down_obs:
  assumes "k \<le> length seg"
  obtains J where "move_down mv k seg = J @ take (length seg - k) seg" and "length J = k"
  using assms that by (simp add: move_down_def)

lemma scroll_rows_lines:
  assumes shape: "sb_shape b" and o0: "sb_origin b = 0" and dy: "dy \<noteq> 0"
    and n: "0 < n" "t + n \<le> length (sb_rows b)"
    and v: "\<And>r. g (reset_fill (nat (cX (sb_size b))) c (text_attribute a) r) = v"
    and b': "b' = scroll_rows mv (small_rect l (int t) r' (int (t + n) - 1)) dy c a b"
  shows "map g (sb_lines b') = take t (map g (sb_lines b))
           @ shift_list dy v (subseq (map g (sb_lines b)) t n) @ drop (t + n) (map g (sb_lines b))"
    "sb_shape b'" "sb_size b' = sb_size b" "sb_viewport b' = sb_viewport b"
proof -
  let ?L = "sb_rows b"
  let ?seg = "subseq (sb_rows b) t n"
  define k where "k = min (nat \<bar>dy\<bar>) n"
  have lines: "sb_lines b = ?L" using o0 by (simp add: sb_lines_def)
  have len: "length ?seg = n" using n by (simp add: subseq_def)
  have cnt: "min (if dy < 0 then - dy else dy) (int (t + n) - 1 - int t + 1) = int k" by (auto simp: k_def)
  have ends: "nat (int t) = t" "nat (int (t + n) - 1 + 1) = t + n" "t + n - t = n" by simp_all
  have seg: "map g ?seg = subseq (map g ?L) t n" by (simp add: subseq_def take_map drop_map)
  have lseg: "length (subseq (map g ?L) t n) = n" using len seg by (metis length_map)
  have k: "0 < k" "k \<le> n" using dy n by (auto simp: k_def)
  have put: "sb_shape (b\<lparr>sb_rows := overwrite t seg1 ?L\<rparr>)"
    "sb_lines (b\<lparr>sb_rows := overwrite t seg1 ?L\<rparr>) = take t ?L @ seg1 @ drop (t + n) ?L"
    if "length seg1 = n" for seg1
    using shape that n o0 by (simp_all add: sb_shape_def sb_lines_def) (simp add: overwrite_def)
  have fill: "g (reset_fill (nat (cX (sb_size (b\<lparr>sb_rows := x\<rparr>)))) c (text_attribute a) r) = v" for r x
    using v by simp
  have "map g (sb_lines b') = take t (map g ?L) @ shift_list dy v (subseq (map g ?L) t n) @ drop (t + n) (map g ?L)
    \<and> sb_shape b' \<and> sb_size b' = sb_size b \<and> sb_viewport b' = sb_viewport b"
  proof (cases "dy < 0")
    case True
    obtain J where J: "(if int k = 1 then drop 1 ?seg @ [?seg ! 0] else move_up mv (nat (int k)) ?seg) = drop k ?seg @ J"
      and lJ: "length J = k"
    proof (cases "int k = 1")
      case True
      then show thesis using that [of "[?seg ! 0]"] by simp
    next
      case False
      obtain J where "move_up mv k ?seg = drop k ?seg @ J" "length J = k"
        using move_up_obs [of k ?seg mv] k len by metis
      then show thesis using that [of J] False by simp
    qed
    have l1: "length (drop k ?seg @ J) = n" using len lJ k by simp
    have bnd: "int (t + n) - 1 - int k + 1 = int (t + n - k)" using k by simp
    have e: "b' = fold (sb_fill_row c a) [int (t + n - k)..int (t + n) - 1]
        (b\<lparr>sb_rows := overwrite t (drop k ?seg @ J) ?L\<rparr>)"
      unfolding b' scroll_rows_def Let_def small_rect.select_convs cnt ends bnd J
      unfolding if_P [OF True] ..
    have m: "t + n - k \<le> t + n" "t + n \<le> length (sb_rows (b\<lparr>sb_rows := overwrite t (drop k ?seg @ J) ?L\<rparr>))"
      using n l1 by simp_all
    note F = fill_rows_lines [where g = g and v = v, OF put(1) [OF l1] m fill e]
    have "map g (sb_lines b') = take t (map g ?L) @ drop k (map g ?seg) @ replicate k v @ drop (t + n) (map g ?L)"
      using F(1) put(2) [OF l1] n k lJ len by (simp add: drop_map take_map)
    then show ?thesis using F(2-4) True len seg lseg by (simp add: shift_list_def Let_def k_def)
  next
    case False
    obtain J where J: "(if int k = 1 then ?seg ! (length ?seg - 1) # take (length ?seg - 1) ?seg
          else move_down mv (nat (int k)) ?seg) = J @ take (n - k) ?seg"
      and lJ: "length J = k"
    proof (cases "int k = 1")
      case True
      then show thesis using that [of "[?seg ! (length ?seg - 1)]"] len by simp
    next
      case False
      obtain J where "move_down mv k ?seg = J @ take (n - k) ?seg" "length J = k"
        using move_down_obs [of k ?seg mv] k len by metis
      then show thesis using that [of J] False by simp
    qed
    have l1: "length (J @ take (n - k) ?seg) = n" using len lJ k by simp
    have bnd: "int t + int k - 1 = int (t + k) - 1" by simp
    have e: "b' = fold (sb_fill_row c a) [int t..int (t + k) - 1]
        (b\<lparr>sb_rows := overwrite t (J @ take (n - k) ?seg) ?L\<rparr>)"
      unfolding b' scroll_rows_def Let_def small_rect.select_convs cnt ends bnd J
      unfolding if_not_P [OF False] ..
    have m: "t \<le> t + k" "t + k \<le> length (sb_rows (b\<lparr>sb_rows := overwrite t (J @ take (n - k) ?seg) ?L\<rparr>))"
      using n l1 k(2) by simp_all
    note F = fill_rows_lines [where g = g and v = v, OF put(1) [OF l1] m fill e]
    have "map g (sb_lines b') = take t (map g ?L) @ replicate k v @ take (n - k) (map g ?seg) @ drop (t + n) (map g ?L)"
      using F(1) put(2) [OF l1] n k lJ len by (simp add: drop_map take_map)
    then show ?thesis using F(2-4) False len seg lseg by (simp add: shift_list_def Let_def k_def)
  qed
  then show "map g (sb_lines b') = take t (map g (sb_lines b))
           @ shift_list dy v (subseq (map g (sb_lines b)) t n) @ drop (t + n) (map g (sb_lines b))"
    "sb_shape b'" "sb_size b' = sb_size b" "sb_viewport b' = sb_viewport b" by (simp_all add: lines)
qed

section \<open>The whole operation\<close>

lemma sb_clamp_id:
  assumes "0 \<le> rLeft r" "0 \<le> rTop r" "rRight r < cX (sb_size b)" "rBottom r < cY (sb_size b)"
  shows "sb_clamp b r = r"
  using assms by (intro small_rect.equality) (auto simp: sb_clamp_def)

lemma scroll_full_width:
  assumes shape: "sb_shape b" and dy: "dy \<noteq> 0" and n: "0 < n" "t + n \<le> length (sb_rows b)"
    and v: "\<And>r. g (reset_fill (nat (cX (sb_size b))) c (text_attribute a) r) = v"
    and sr: "sr = small_rect 0 (int t) (cX (sb_size b) - 1) (int (t + n) - 1)"
    and b': "b' = sb_scroll mv sr sr True (coord 0 (int t + dy)) c a b"
  shows "map g (sb_lines b') = take t (map g (sb_lines b))
           @ shift_list dy v (subseq (map g (sb_lines b)) t n) @ drop (t + n) (map g (sb_lines b))"
    "sb_shape b'" "sb_size b' = sb_size b" "sb_viewport b' = sb_viewport b"
proof -
  note S = sb_shapeD [OF shape]
  have h: "cY (sb_size b) = int (length (sb_rows b))" using S by simp
  have clamp: "sb_clamp b sr = sr" using n S(1) h by (intro sb_clamp_id) (simp_all add: sr)
  have valid: "rect_valid sr" using n S(1) by (simp add: rect_valid_def sr)
  have "map g (sb_lines b') = take t (map g (sb_lines b))
      @ shift_list dy v (subseq (map g (sb_lines b)) t n) @ drop (t + n) (map g (sb_lines b))
    \<and> sb_shape b' \<and> sb_size b' = sb_size b \<and> sb_viewport b' = sb_viewport b"
  proof (cases "t = 0 \<and> n = length (sb_rows b)")
    case True
    have "b' = scroll_ring dy c a b"
      using True dy valid clamp h by (simp add: b' sb_scroll_def Let_def) (simp add: sr)
    note R = scroll_ring_lines [where g = g and v = v, OF shape dy v this]
    have "subseq (map g (sb_lines b)) t n = map g (sb_lines b)" "t + n = length (map g (sb_lines b))"
      using True by (simp_all add: subseq_def)
    then show ?thesis using R True by simp
  next
    case False
    then have part: "\<not> (t = 0 \<and> int (t + n) - 1 = cY (sb_size b) - 1)" using h by auto
    have "b' = scroll_rows mv sr dy c a (linearize_rows b)"
      using part dy valid clamp by (auto simp add: b' sb_scroll_def Let_def sr)
    then have e: "b' = scroll_rows mv (small_rect 0 (int t) (cX (sb_size b) - 1) (int (t + n) - 1)) dy c a (linearize_rows b)"
      by (simp only: sr)
    note L = linearize_rows_lines [OF shape]
    have n': "t + n \<le> length (sb_rows (linearize_rows b))" using n L(3) by simp
    have v': "g (reset_fill (nat (cX (sb_size (linearize_rows b)))) c (text_attribute a) r) = v" for r
      using v L(4) by simp
    note R = scroll_rows_lines [where g = g and v = v, OF L(1,6) dy n(1) n' v' e]
    then show ?thesis using L by simp
  qed
  then show "map g (sb_lines b') = take t (map g (sb_lines b))
           @ shift_list dy v (subseq (map g (sb_lines b)) t n) @ drop (t + n) (map g (sb_lines b))"
    "sb_shape b'" "sb_size b' = sb_size b" "sb_viewport b' = sb_viewport b" by blast+
qed

text \<open>C19: Scrolling full-width rows shifts their contents by \<open>dy\<close> within the region and fills the uncovered
  rows with the fill character and attribute; rows outside the region are untouched and the buffer's
  invariant holds again. This is so on both fast paths, whatever state the library leaves a moved-from
  row in.\<close>
theorem scroll_whole_rows:
  assumes inv: "sb_inv b" and dy: "dy \<noteq> 0" and n: "0 < n" "int (t + n) \<le> cY (sb_size b)"
    and sr: "sr = small_rect 0 (int t) (cX (sb_size b) - 1) (int (t + n) - 1)"
    and b': "b' = sb_scroll mv sr sr True (coord 0 (int t + dy)) c a b"
  shows "sb_inv b'
    \<and> map row_glyphs (sb_lines b') = take t (map row_glyphs (sb_lines b))
        @ shift_list dy (g_chars (replicate (nat (cX (sb_size b))) c)) (subseq (map row_glyphs (sb_lines b)) t n)
        @ drop (t + n) (map row_glyphs (sb_lines b))
    \<and> map row_attrs (sb_lines b') = take t (map row_attrs (sb_lines b))
        @ shift_list dy (replicate (nat (cX (sb_size b))) (text_attribute a)) (subseq (map row_attrs (sb_lines b)) t n)
        @ drop (t + n) (map row_attrs (sb_lines b))"
proof -
  note I = sb_invD [OF inv]
  have w: "nat (cX (sb_size b)) < 32768" using I(2) by linarith
  have n': "t + n \<le> length (sb_rows b)" using n I(3,5) by linarith
  note F = scroll_full_width [OF I(11) dy n(1) n' _ sr b']
  note ok = F [where g = "sb_ok b" and v = True]
  have "sb_ok b (reset_fill (nat (cX (sb_size b))) c (text_attribute a) r)" for r
    using row_keeps_reset_fill [OF inv] I(10) by simp
  then have K: "map (sb_ok b) (sb_lines b') = take t (map (sb_ok b) (sb_lines b))
      @ shift_list dy True (subseq (map (sb_ok b) (sb_lines b)) t n) @ drop (t + n) (map (sb_ok b) (sb_lines b))"
    "sb_shape b'" "sb_size b' = sb_size b" "sb_viewport b' = sb_viewport b"
    using ok by simp_all
  have old: "set (map (sb_ok b) (sb_lines b)) \<subseteq> {True}" using sb_lines_ok [OF inv] by auto
  have "set (map (sb_ok b) (sb_lines b')) \<subseteq> {True}"
    unfolding K(1) set_append
    using old set_shift_list [of dy True "subseq (map (sb_ok b) (sb_lines b)) t n"]
      set_take_subset [of t "map (sb_ok b) (sb_lines b)"] set_drop_subset [of "t + n" "map (sb_ok b) (sb_lines b)"]
      set_subseq [of "map (sb_ok b) (sb_lines b)" t n]
    by blast
  then have "\<forall>r \<in> set (sb_lines b'). sb_ok b r" by auto
  moreover have "sb_ok b' = sb_ok b" using K(3) by (simp add: sb_ok_def fun_eq_iff)
  ultimately have "sb_inv b'" using K(2-4) I(8) by (simp add: sb_inv_lines)
  then show ?thesis
    using F(1) [where g = row_glyphs] F(1) [where g = row_attrs] reset_fill_row [OF w] by simp
qed

theorem scroll_whole_rows_witness:
  "map row_glyphs (sb_lines (sb_scroll (\<lambda>_. row_empty) (small_rect 0 1 1 2) (small_rect 0 1 1 2) True (coord 0 0) 0x2E 0x1F
      (sb_set_u32 (coord 0 2) 0x61 7 (sb_new (coord 2 4))))) =
     [g_chars [0x20, 0x20], g_chars [0x61, 0x20], g_chars [0x2E, 0x2E], g_chars [0x20, 0x20]]"
proof -
  let ?b = "sb_set_u32 (coord 0 2) 0x61 7 (sb_new (coord 2 4))"
  have inv: "sb_inv ?b" by code_simp
  have n: "0 < (2::nat)" "int (1 + 2) \<le> cY (sb_size ?b)" by code_simp+
  have sr: "small_rect 0 1 1 2 = small_rect 0 (int 1) (cX (sb_size ?b) - 1) (int (1 + 2) - 1)" by code_simp
  have d: "coord 0 0 = coord 0 (int 1 + - 1)" by simp
  have "A \<and> B \<and> C \<Longrightarrow> B" for A B C by blast
  note this [OF scroll_whole_rows [where mv = "\<lambda>_. row_empty" and c = "0x2E" and a = "0x1F", OF inv _ n sr refl, of "- 1", folded d]]
  also have "take 1 (map row_glyphs (sb_lines ?b))
        @ shift_list (- 1) (g_chars (replicate (nat (cX (sb_size ?b))) 0x2E)) (subseq (map row_glyphs (sb_lines ?b)) 1 2)
        @ drop (1 + 2) (map row_glyphs (sb_lines ?b)) =
      [g_chars [0x20, 0x20], g_chars [0x61, 0x20], g_chars [0x2E, 0x2E], g_chars [0x20, 0x20]]" by code_simp
  finally show ?thesis by simp
qed

end
