(* ===== verification/Screen_Keeps.thy ===== *)
theory Screen_Keeps
  imports Screen_Text Screen_Scroll
begin

text \<open>
  Every operation of the screen buffer keeps its invariant: the ring in shape, every row sound and of
  the buffer's width, the viewport inside the buffer.
\<close>

section \<open>Rows\<close>

lemma row_keeps_materialize [row_keeps_intros]: "row_keeps materialize_filled"
  unfolding row_keeps_def
proof (intro allI impI)
  fix r assume ok: "row_ok r"
  note D = row_okD [OF ok]
  have "row_rep (materialize_filled r) (row_glyphs r)"
    using materialize_filled_rep [OF D(2)] materialize_filled_attrs(1) [OF D(3)] by (simp add: row_rep_def)
  then show "row_ok (materialize_filled r) \<and> row_width (materialize_filled r) = row_width r"
    using row_okI D(4) by simp
qed

lemma row_keepsE: "row_keeps f \<Longrightarrow> row_ok r \<Longrightarrow> row_ok (f r) \<and> row_width (f r) = row_width r"
  by (simp add: row_keeps_def)

lemma row_keeps_dep:
  assumes "\<And>x. row_keeps (f x)" shows "row_keeps (\<lambda>r. f (h r) r)"
  using assms by (simp add: row_keeps_def)

lemma row_keeps_if: "row_keeps f \<Longrightarrow> row_keeps g \<Longrightarrow> row_keeps (\<lambda>r. if P r then f r else g r)"
  by (simp add: row_keeps_def)

lemma row_keeps_from_char_info_cell [row_keeps_intros]: "row_keeps (from_char_info_cell i col ci)"
proof -
  have wg: "row_keeps (write_glyph c [x] w a)" for c x w a by (intro row_keeps_write_glyph) simp
  have two: "row_ok r \<Longrightarrow> row_ok (set_attr c a (write_glyph c' [x] w a' r))
      \<and> row_width (set_attr c a (write_glyph c' [x] w a' r)) = row_width r" for r c a c' x w a'
    using row_keeps_comp [OF wg row_keeps_set_attr] unfolding row_keeps_def by blast
  have one: "row_ok r \<Longrightarrow> row_ok (write_glyph c [x] w a r) \<and> row_width (write_glyph c [x] w a r) = row_width r"
    for r c x w a using wg unfolding row_keeps_def by blast
  have att: "row_ok r \<Longrightarrow> row_ok (set_attr c a r) \<and> row_width (set_attr c a r) = row_width r" for r c a
    using row_keeps_set_attr unfolding row_keeps_def by blast
  show ?thesis
    unfolding row_keeps_def from_char_info_cell_def Let_def using two one att by (simp split: if_split)
qed

lemma row_keeps_from_char_info [row_keeps_intros]: "row_keeps (from_char_info src n d)"
proof -
  have "row_keeps (fold (\<lambda>i. from_char_info_cell i (u16 (d + i)) (src ! i)) xs)" for xs
    by (rule row_keeps_fold, rule row_keeps_from_char_info_cell)
  note F = this
  show ?thesis
    unfolding row_keeps_def from_char_info_def Let_def
  proof (intro allI impI)
    fix r assume "row_ok r"
    from row_keepsE [OF row_keeps_materialize this] row_keepsE [OF F, of "materialize_filled r"]
    show "row_ok (fold (\<lambda>i. from_char_info_cell i (u16 (d + i)) (src ! i))
          [0..<min n (row_width (materialize_filled r) - d)] (materialize_filled r))
      \<and> row_width (fold (\<lambda>i. from_char_info_cell i (u16 (d + i)) (src ! i))
          [0..<min n (row_width (materialize_filled r) - d)] (materialize_filled r)) = row_width r"
      by metis
  qed
qed

lemma row_keeps_fill_char_row [row_keeps_intros]: "row_keeps (fill_char_row c x n)"
proof -
  have 1: "row_keeps (fold (\<lambda>i. clear_cell (u16 (x + i)) default_attr) xs)" for xs
    by (rule row_keeps_fold, rule row_keeps_clear_cell)
  have "row_keeps (write_glyph (u16 (x + i)) [c] 1 a)" for i a by (intro row_keeps_write_glyph) simp
  then have "row_keeps (\<lambda>r. write_glyph (u16 (x + i)) [c] 1 (attr_at r (u16 (x + i))) r)" for i
    by (rule row_keeps_dep)
  then have 2: "row_keeps (fold (\<lambda>i r. write_glyph (u16 (x + i)) [c] 1 (attr_at r (u16 (x + i))) r) xs)" for xs
    by (rule row_keeps_fold)
  show ?thesis
    unfolding fill_char_row_def Let_def by (rule row_keeps_comp [OF 1 2])
qed

lemma row_keeps_write_chars_row [row_keeps_intros]: "row_keeps (\<lambda>r. fst (write_chars_row w x cs r))"
proof -
  have "row_ok r \<Longrightarrow> row_ok (fst (write_chars_row w x cs r)) \<and> row_width (fst (write_chars_row w x cs r)) = row_width r"
    for r
  proof (induction w x cs r rule: write_chars_row.induct)
    case (2 w x ch chs r)
    let ?cw = "clamp_width (char_width_console ch)"
    let ?r1 = "write_glyph (to_u16 x) [ch] (int ?cw) (attr_at r (to_u16 x)) r"
    let ?r2 = "if ?cw = 2 then set_attr (to_u16 (x + 1)) (attr_at r (to_u16 (x + 1))) ?r1 else ?r1"
    have wg: "row_keeps (write_glyph c [y] v a)" for c y v a by (intro row_keeps_write_glyph) simp
    have 1: "row_ok ?r1 \<and> row_width ?r1 = row_width r" using wg 2(2) unfolding row_keeps_def by blast
    have att: "row_ok (set_attr c a q) \<and> row_width (set_attr c a q) = row_width q" if "row_ok q" for q c a
      using that by (simp add: set_attr_thin)
    have r2: "row_ok ?r2 \<and> row_width ?r2 = row_width r"
    proof (cases "?cw = 2")
      case True
      then show ?thesis unfolding if_P [OF True] using att 1 by metis
    next
      case False
      then show ?thesis unfolding if_not_P [OF False] using 1 by blast
    qed
    show ?case
    proof (cases "x < w")
      case True
      from "2.IH" [OF _ refl refl refl refl] True r2 show ?thesis
        by (simp add: Let_def case_prod_beta del: One_nat_def)
    qed (use 2(2) in simp)
  qed simp
  then show ?thesis by (simp add: row_keeps_def)
qed

lemma row_keeps_write_attrs_row [row_keeps_intros]: "row_keeps (\<lambda>r. fst (write_attrs_row w x as r))"
proof -
  have "row_ok r \<Longrightarrow> row_ok (fst (write_attrs_row w x as r)) \<and> row_width (fst (write_attrs_row w x as r)) = row_width r"
    for r
    by (induction w x as r rule: write_attrs_row.induct) (simp_all add: Let_def case_prod_beta set_attr_thin)
  then show ?thesis by (simp add: row_keeps_def)
qed

lemma row_keeps_single_run [row_keeps_intros]: "row_keeps (\<lambda>r. fst (try_write_single_width_run c cs a r))"
  unfolding row_keeps_def
proof (intro allI impI)
  fix r assume ok: "row_ok r"
  show "row_ok (fst (try_write_single_width_run c cs a r))
    \<and> row_width (fst (try_write_single_width_run c cs a r)) = row_width r"
  proof (cases "cs = []")
    case True
    then have "fst (try_write_single_width_run c cs a r) = materialize_filled r"
      by (simp add: try_write_single_width_run_def Let_def)
    then show ?thesis using ok row_keeps_materialize unfolding row_keeps_def by metis
  next
    case False
    obtain r' e where "try_write_single_width_run c cs a r = (r', e)" by fastforce
    with single_run_thin(1,2) [OF ok False this] show ?thesis by simp
  qed
qed

section \<open>The loops over rows\<close>

lemma linear_fill_inv:
  assumes "\<And>s n. row_keeps (op s n)" and "sb_inv b"
  shows "sb_inv (fst (sb_linear_fill op x y count b))"
  using assms
proof (induction op x y count b rule: sb_linear_fill.induct)
  case (1 op x y count b)
  show ?case
  proof (cases "count > 0 \<and> y < cY (sb_size b)")
    case True
    let ?m = "if count < nat (cX (sb_size b)) - nat x then count else nat (cX (sb_size b)) - nat x"
    have "sb_inv (sb_update y (op (nat x) ?m) b)" by (rule sb_inv_update_keeps [OF 1(3) 1(2)])
    from "1.IH" [OF True refl refl refl 1(2) this] show ?thesis
      by (simp only: sb_linear_fill.simps [of op x y count b] Let_def if_P [OF True] case_prod_beta fst_conv)
  next
    case False
    show ?thesis
      by (simp only: sb_linear_fill.simps [of op x y count b] if_not_P [OF False] fst_conv 1(3))
  qed
qed

lemma write_linear_inv:
  assumes "\<And>x vs. row_keeps (\<lambda>r. fst (op x vs r))" and "sb_inv b"
  shows "sb_inv (fst (write_linear op x ys vs b))"
  using assms(2)
proof (induction ys arbitrary: x vs b)
  case (Cons y ys)
  show ?case
  proof (cases "vs = []")
    case False
    have "sb_inv (sb_update y (\<lambda>r. fst (op x vs r)) b)"
      by (rule sb_inv_update_keeps [OF Cons.prems assms(1)])
    from Cons.IH [OF this] show ?thesis
      by (simp only: write_linear.simps if_not_P [OF False] Let_def case_prod_beta fst_conv)
  qed (use Cons.prems in simp)
qed simp

section \<open>Scrolling and resizing\<close>

lemma sb_inv_from_obs:
  assumes inv: "sb_inv b" and "sb_shape b'" and "set (map (sb_ok b) (sb_lines b')) \<subseteq> {True}"
    and "sb_size b' = sb_size b" and "sb_viewport b' = sb_viewport b"
  shows "sb_inv b'"
proof -
  have "sb_ok b' = sb_ok b" using assms(4) by (simp add: sb_ok_def fun_eq_iff)
  then show ?thesis using assms(2-5) sb_invD(8) [OF inv] by (auto simp: sb_inv_lines)
qed

lemma sb_ok_obs: "sb_inv b \<Longrightarrow> set (map (sb_ok b) (sb_lines b)) \<subseteq> {True}"
  using sb_lines_ok by auto

lemma shifted_obs:
  assumes "set xs \<subseteq> {True}"
  shows "set (shift_list dy True xs) \<subseteq> {True}"
    "set (take t xs @ shift_list dy True (subseq xs t n) @ drop m xs) \<subseteq> {True}"
  using assms set_shift_list [of dy True xs] set_shift_list [of dy True "subseq xs t n"]
    set_take_subset [of t xs] set_drop_subset [of m xs] set_subseq [of xs t n]
  unfolding set_append by blast+

lemma reset_obs:
  "sb_inv b \<Longrightarrow> sb_ok b (reset_fill (nat (cX (sb_size b))) c a r) = True"
  using row_keeps_reset_fill [of b] sb_invD(10) [of b] by simp

lemma linearize_inv:
  assumes inv: "sb_inv b" shows "sb_inv (linearize_rows b)"
proof -
  note L = linearize_rows_lines [OF sb_invD(11) [OF inv]]
  show ?thesis by (rule sb_inv_from_obs [OF inv L(1) _ L(4,5)]) (simp only: L(2) sb_ok_obs [OF inv])
qed

lemma scroll_ring_inv:
  assumes "sb_inv b" and "dy \<noteq> 0" shows "sb_inv (scroll_ring dy c a b)"
proof -
  note R = scroll_ring_lines [where g = "sb_ok b" and v = True and c = c and a = a, OF sb_invD(11) [OF assms(1)] assms(2)
      reset_obs [OF assms(1)] refl]
  have "set (map (sb_ok b) (sb_lines (scroll_ring dy c a b))) \<subseteq> {True}"
    unfolding R(1) by (rule shifted_obs(1) [OF sb_ok_obs [OF assms(1)]])
  from sb_inv_from_obs [OF assms(1) R(2) this R(3,4)] show ?thesis .
qed

lemma scroll_rows_inv:
  assumes inv: "sb_inv b" and "sb_origin b = 0" and "dy \<noteq> 0"
    and r: "0 \<le> rTop r" "rTop r \<le> rBottom r" "rBottom r < cY (sb_size b)"
  shows "sb_inv (scroll_rows mv r dy c a b)"
proof -
  define t where "t = nat (rTop r)"
  define n where "n = nat (rBottom r - rTop r + 1)"
  have n: "0 < n" "t + n \<le> length (sb_rows b)"
    using r sb_invD(5) [OF inv] unfolding t_def n_def by linarith+
  have "r = small_rect (rLeft r) (int t) (rRight r) (int (t + n) - 1)"
    using r by (intro small_rect.equality) (simp_all add: t_def n_def)
  then have e: "scroll_rows mv r dy c a b =
      scroll_rows mv (small_rect (rLeft r) (int t) (rRight r) (int (t + n) - 1)) dy c a b" by metis
  note R = scroll_rows_lines [where g = "sb_ok b" and v = True and c = c and a = a, OF sb_invD(11) [OF inv] assms(2,3) n
      reset_obs [OF inv] e]
  have "set (map (sb_ok b) (sb_lines (scroll_rows mv r dy c a b))) \<subseteq> {True}"
    unfolding R(1) by (rule shifted_obs(2) [OF sb_ok_obs [OF inv]])
  from sb_inv_from_obs [OF inv R(2) this R(3,4)] show ?thesis .
qed

lemma sb_inv_set_row:
  assumes inv: "sb_inv b" and f: "row_keeps f"
  shows "sb_inv (b\<lparr>sb_rows := (sb_rows b)[i := f (sb_rows b ! i)]\<rparr>)"
proof (cases "i < length (sb_rows b)")
  case False
  then show ?thesis using inv by (simp add: list_update_beyond)
next
  case True
  have "sb_ok b (f (sb_rows b ! i))" using row_keepsD [OF f sb_invD(7) [OF inv nth_mem [OF True]]] .
  then have "\<forall>r \<in> set ((sb_rows b)[i := f (sb_rows b ! i)]). sb_ok b r"
    using set_update_subset_insert [of "sb_rows b" i] sb_invD(7) [OF inv] by blast
  then show ?thesis using inv by (simp add: sb_inv_def sb_shape_def sb_ok_def)
qed

lemma fold_set_row_inv:
  assumes "\<And>y. y \<in> set ys \<Longrightarrow> row_keeps (f y)" and "sb_inv b"
  shows "sb_inv (fold (\<lambda>y b. b\<lparr>sb_rows := (sb_rows b)[i y := f y (sb_rows b ! i y)]\<rparr>) ys b)"
  using assms
proof (induction ys arbitrary: b)
  case (Cons y ys)
  have "sb_inv (b\<lparr>sb_rows := (sb_rows b)[i y := f y (sb_rows b ! i y)]\<rparr>)"
    by (rule sb_inv_set_row [OF Cons.prems(2)]) (simp add: Cons.prems(1))
  from Cons.IH [OF _ this] Cons.prems(1) show ?case by simp
qed simp

lemma fold_inv: "(\<And>x s. P s \<Longrightarrow> P (f x s)) \<Longrightarrow> P s \<Longrightarrow> P (fold f xs s)"
  by (induction xs arbitrary: s) simp_all

lemma sb_fill_inv: "sb_inv b \<Longrightarrow> sb_inv (sb_fill r c a b)"
proof -
  assume inv: "sb_inv b"
  have wg: "row_keeps (write_glyph x [c] 1 a')" for x a' by (rule row_keeps_write_glyph) simp
  have "sb_inv (fold (\<lambda>y. fold (\<lambda>x. sb_update y (write_glyph (to_u16 x) [c] 1 a')) xs) ys b)" for xs ys a'
    using inv by (intro fold_inv [where P = sb_inv] sb_inv_update_keeps wg)
  then show ?thesis using inv by (simp add: sb_fill_def Let_def)
qed

lemma row_ok_reset:
  assumes "sb_inv b" shows "row_ok (reset_fill (to_u16 (cX (sb_size b))) c a r)"
  using row_keeps_reset_fill [OF assms] by (simp add: sb_ok_def)

lemma scroll_cells_inv:
  assumes inv: "sb_inv b" and r: "0 \<le> rTop sr" "rBottom sr < cY (sb_size b)"
  shows "sb_inv (scroll_cells sr clip dx dy c a b)"
proof -
  define sl where "sl = max (rLeft sr) (rLeft clip - dx)"
  define st where "st = max (rTop sr) (rTop clip - dy)"
  define sr' where "sr' = min (rRight sr) (rRight clip - dx)"
  define sb where "sb = min (rBottom sr) (rBottom clip - dy)"
  define saved where "saved = map (\<lambda>y. copy_from (sb_rows b ! nat (st + int y)) (to_u16 sl) 0 (to_u16 (sr' - sl + 1))
      (reset_fill (to_u16 (cX (sb_size b))) 0x20 (text_attribute a)
         (vec_resize (nat (sb - st + 1)) row_empty (sb_saved b) ! y))) [0..<nat (sb - st + 1)]"
  have ok: "row_ok (saved ! y)" if "y < nat (sb - st + 1)" for y
  proof -
    have "nat (st + int y) < length (sb_rows b)"
      using that r sb_invD(3,5) [OF inv] unfolding st_def sb_def by linarith
    then have "row_ok (sb_rows b ! nat (st + int y))"
      using sb_invD(7) [OF inv] nth_mem by (simp add: sb_ok_def)
    from row_keepsE [OF row_keeps_copy_from [OF this] row_ok_reset [OF inv]] that show ?thesis
      by (simp add: saved_def)
  qed
  have frame: "sb_inv (b\<lparr>sb_saved := x\<rparr>)" for x using inv by (simp add: sb_inv_def sb_shape_def sb_ok_def)
  have base: "sb_inv (if rect_valid fr then sb_fill fr c a (if m then b\<lparr>sb_saved := saved\<rparr> else b)
      else (if m then b\<lparr>sb_saved := saved\<rparr> else b))" for fr m
    using frame inv sb_fill_inv by simp
  have "sb_inv (fold (\<lambda>y b. b\<lparr>sb_rows := (sb_rows b)[nat (st + dy + int y) :=
      copy_from (saved ! y) 0 (to_u16 (sl + dx)) (to_u16 (sr' - sl + 1)) (sb_rows b ! nat (st + dy + int y))]\<rparr>)
      [0..<nat (sb - st + 1)] b2)" if "sb_inv b2" for b2
    by (rule fold_set_row_inv [OF _ that]) (auto intro!: row_keeps_copy_from ok)
  then show ?thesis
    unfolding scroll_cells_def Let_def sl_def [symmetric] st_def [symmetric] sr'_def [symmetric] sb_def [symmetric]
      saved_def [symmetric]
    using base by (auto split: if_splits)
qed

lemma sb_clamp_range:
  assumes "sb_shape b"
  shows "0 \<le> rTop (sb_clamp b r)" "rBottom (sb_clamp b r) < cY (sb_size b)"
    "0 \<le> rLeft (sb_clamp b r)" "rRight (sb_clamp b r) < cX (sb_size b)"
  using sb_shapeD(1-4) [OF assms] by (simp_all add: sb_clamp_def to_short_id)

lemma sb_scroll_inv:
  assumes inv: "sb_inv b" shows "sb_inv (sb_scroll mv sr clip use_clip dest c a b)"
proof -
  note L = linearize_rows_lines [OF sb_invD(11) [OF inv]]
  note C = sb_clamp_range [OF sb_invD(11) [OF inv], of sr]
  have ring: "sb_inv (scroll_ring dy c a b)" if "dy \<noteq> 0" for dy by (rule scroll_ring_inv [OF inv that])
  have rows: "sb_inv (scroll_rows mv (sb_clamp b sr) dy c a (linearize_rows b))"
    if "dy \<noteq> 0" "rTop (sb_clamp b sr) \<le> rBottom (sb_clamp b sr)" for dy
    using that C L(4,6) by (intro scroll_rows_inv linearize_inv [OF inv]) simp_all
  have cells: "sb_inv (scroll_cells (sb_clamp b sr) cl dx dy c a (linearize_rows b))" for cl dx dy
    using C L(4) by (intro scroll_cells_inv linearize_inv [OF inv]) simp_all
  show ?thesis
    unfolding sb_scroll_def Let_def rect_valid_def using inv ring rows cells by (simp split: if_split)
qed

lemma sb_new_inv:
  assumes "1 \<le> cX sz" "cX sz \<le> 32767" "1 \<le> cY sz" "cY sz \<le> 32767"
    and "vp_valid sz v"
  shows "sb_inv (sb_ensure_rows \<lparr>sb_size = sz, sb_viewport = v, sb_rows = rs, sb_saved = ss, sb_origin = n\<rparr>)"
proof -
  have "to_u16 (cX sz) = nat (cX sz)" "nat (cX sz) < 32768" using assms by (simp_all add: to_u16_id)
  then show ?thesis
    using assms row_ok_new [of "nat (cX sz)" default_attr]
    by (simp add: sb_ensure_rows_def sb_inv_def sb_shape_def sb_ok_def)
qed

lemma sb_resize_inv:
  assumes inv: "sb_inv b" and sz: "cX sz \<le> 32767" "cY sz \<le> 32767"
  shows "sb_inv (sb_resize sz b)"
proof -
  let ?sz = "coord (if cX sz < 1 then 1 else cX sz) (if cY sz < 1 then 1 else cY sz)"
  let ?b1 = "sb_ensure_rows ((linearize_rows b)\<lparr>sb_size := ?sz,
                sb_viewport := fst (vp_clamp_to_buffer ?sz (sb_viewport (linearize_rows b)))\<rparr>)"
  have range: "1 \<le> cX ?sz" "cX ?sz \<le> 32767" "1 \<le> cY ?sz" "cY ?sz \<le> 32767" "short_coord ?sz"
    using sz by (auto simp: short_coord_def is_short_def)
  have "vp_valid ?sz (fst (vp_clamp_to_buffer ?sz v))" for v
    unfolding vp_clamp_to_buffer_def by (rule set_rect_valid [OF range(5)])
  from sb_new_inv [OF range(1-4) this] have "sb_inv ?b1"
    by (cases "linearize_rows b") (simp add: sb_ensure_rows_def)
  moreover have "row_ok (sb_rows (linearize_rows b) ! y)"
    if "y \<in> set [0..<nat (if cY (sb_size (linearize_rows b)) < cY ?sz then cY (sb_size (linearize_rows b)) else cY ?sz)]" for y
  proof -
    note LI = linearize_inv [OF inv]
    have "y < length (sb_rows (linearize_rows b))" using that sb_invD(5) [OF LI] by (auto split: if_splits)
    then show ?thesis using sb_invD(7) [OF LI nth_mem] by (simp add: sb_ok_def)
  qed
  ultimately have "sb_inv (fold (\<lambda>y b'. b'\<lparr>sb_rows := (sb_rows b')[y :=
      copy_from (sb_rows (linearize_rows b) ! y) 0 0 (to_u16 (cX (sb_size (linearize_rows b)))) (sb_rows b' ! y)]\<rparr>)
      [0..<nat (if cY (sb_size (linearize_rows b)) < cY ?sz then cY (sb_size (linearize_rows b)) else cY ?sz)] ?b1)"
    by (intro fold_set_row_inv [where i = "\<lambda>y. y"] row_keeps_copy_from)
  then show ?thesis using inv by (simp only: sb_resize_def Let_def split: if_split) simp
qed

text \<open>C20: Every operation of the screen buffer keeps its invariant, for any coordinates, counts, texts and
  rectangles, inside the buffer or not: the ring stays in shape, every row sound and as wide as the buffer,
  and the viewport inside the buffer. (A size is at most 32767 by 32767; a glyph is one code point.)\<close>
theorem screen_operations_keep_invariant:
  assumes inv: "sb_inv b" and "length t \<le> 1" and "cX sz \<le> 32767" and "cY sz \<le> 32767"
  shows "sb_inv (sb_write_glyph p t w a b) \<and> sb_inv (fst (sb_try_write_single_width_run p cs a b))
    \<and> sb_inv (sb_set_attr p a b) \<and> sb_inv (sb_fill_attrs p n a b) \<and> sb_inv (sb_clear_cell p a b)
    \<and> sb_inv (fst (sb_fill_char c p n b)) \<and> sb_inv (fst (sb_fill_attr a p n b))
    \<and> sb_inv (fst (sb_write_char32 p cs b)) \<and> sb_inv (fst (sb_write_char32_linear p cs b))
    \<and> sb_inv (fst (sb_write_attr_seq p as b)) \<and> sb_inv (fst (sb_write_attr_seq_linear p as b))
    \<and> sb_inv (sb_row_from_ci y ci n d b) \<and> sb_inv (sb_clear a b) \<and> sb_inv (sb_resize sz b)
    \<and> sb_inv (sb_scroll mv sr clip use_clip dest c a b) \<and> sb_inv (sb_shift_rows mv dy a b)"
proof (intro conjI)
  note U = sb_inv_update_keeps [OF inv]
  have wc: "sb_inv (fst (write_linear (write_chars_row w) x ys vs b))" for w x ys vs
    by (rule write_linear_inv [OF _ inv]) (rule row_keeps_write_chars_row)
  have wa: "sb_inv (fst (write_linear (write_attrs_row w) x ys vs b))" for w x ys vs
    by (rule write_linear_inv [OF _ inv]) (rule row_keeps_write_attrs_row)
  show "sb_inv (sb_write_glyph p t w a b)"
    using inv U [OF row_keeps_write_glyph [OF assms(2)]] by (simp add: sb_write_glyph_def Let_def)
  show "sb_inv (fst (sb_try_write_single_width_run p cs a b))"
    using inv U [OF row_keeps_single_run] by (simp add: sb_try_write_single_width_run_def Let_def)
  show "sb_inv (sb_set_attr p a b)" using inv U [OF row_keeps_set_attr] by (simp add: sb_set_attr_def)
  show "sb_inv (sb_fill_attrs p n a b)" using inv U [OF row_keeps_fill_attrs] by (simp add: sb_fill_attrs_def)
  show "sb_inv (sb_clear_cell p a b)" using inv U [OF row_keeps_clear_cell] by (simp add: sb_clear_cell_def)
  show "sb_inv (fst (sb_fill_char c p n b))"
    using inv linear_fill_inv [OF row_keeps_fill_char_row inv] by (simp add: sb_fill_char_def)
  show "sb_inv (fst (sb_fill_attr a p n b))"
    using inv linear_fill_inv [OF _ inv, of "fill_attr_row a"] row_keeps_fill_attrs
    by (simp add: sb_fill_attr_def fill_attr_row_def)
  show "sb_inv (fst (sb_write_char32 p cs b))"
    using inv U [OF row_keeps_write_chars_row] by (simp add: sb_write_char32_def Let_def)
  show "sb_inv (fst (sb_write_char32_linear p cs b))"
    using inv wc by (simp add: sb_write_char32_linear_def)
  show "sb_inv (fst (sb_write_attr_seq p as b))"
    using inv U [OF row_keeps_write_attrs_row] by (simp add: sb_write_attr_seq_def Let_def)
  show "sb_inv (fst (sb_write_attr_seq_linear p as b))"
    using inv wa by (simp add: sb_write_attr_seq_linear_def)
  show "sb_inv (sb_row_from_ci y ci n d b)" using inv U [OF row_keeps_from_char_info] by (simp add: sb_row_from_ci_def)
  show "sb_inv (sb_clear a b)"
    using inv sb_invD [OF inv] row_ok_new [of "nat (cX (sb_size b))" a]
    by (auto simp: sb_clear_def sb_inv_def sb_shape_def sb_ok_def)
  show "sb_inv (sb_resize sz b)" by (rule sb_resize_inv [OF inv assms(3,4)])
  show "sb_inv (sb_scroll mv sr clip use_clip dest c a b)" by (rule sb_scroll_inv [OF inv])
  show "sb_inv (sb_shift_rows mv dy a b)" using inv sb_scroll_inv [OF inv] by (simp add: sb_shift_rows_def Let_def)
qed

theorem screen_operations_keep_invariant_witness:
  "sb_inv (sb_scroll (\<lambda>_. row_empty) (small_rect 0 0 5 9) (small_rect 1 1 3 3) True (coord (-1) 2) 0x4E2D 0x1F
      (sb_new (coord 6 4)))"
proof -
  have "sb_inv (sb_new (coord 6 4))" by code_simp
  from screen_operations_keep_invariant [OF this, of "[]" "coord 1 1"] show ?thesis by simp
qed

end
