(* ===== verification/Screen_Fill.thy ===== *)
theory Screen_Fill
  imports Screen_Keeps
begin

text \<open>
  The linear fills. Win32 counts cells in reading order, across rows; the code loops over rows. Seen as
  one long list, of attributes or of glyphs, a fill is a single overwrite. The locale says what the two
  kinds of list have in common: a width and an overwrite that respects concatenation.
\<close>

locale linear_store =
  fixes wd :: "'x list \<Rightarrow> nat"
    and put :: "nat \<Rightarrow> 'x list \<Rightarrow> 'x list \<Rightarrow> 'x list"
    and good :: "'x list \<Rightarrow> bool"
  assumes wd_append: "wd (A @ B) = wd A + wd B"
    and good_append: "good A \<Longrightarrow> good B \<Longrightarrow> good (A @ B)"
    and wd_Nil: "wd [] = 0"
    and good_Nil: "good []"
    and wd_put: "good R \<Longrightarrow> s + wd new \<le> wd R \<Longrightarrow> wd (put s new R) = wd R"
    and put_here: "good R \<Longrightarrow> s + wd new \<le> wd R \<Longrightarrow> put s new (R @ S) = put s new R @ S"
    and put_there: "good R \<Longrightarrow> put (wd R + s) new (R @ S) = R @ put s new S"
    and put_span: "good R \<Longrightarrow> s + wd n1 = wd R \<Longrightarrow> put s (n1 @ n2) (R @ S) = put s n1 R @ put 0 n2 S"
begin

lemma concat_props:
  assumes "\<forall>R \<in> set Rs. good R \<and> wd R = W"
  shows "wd (concat Rs) = length Rs * W" "good (concat Rs)"
  using assms by (induction Rs) (simp_all add: wd_append good_append wd_Nil good_Nil)

text \<open>A fill of one row, then of the rest, is one fill.\<close>

lemma put_rows:
  assumes Rs: "\<forall>R \<in> set Rs. good R \<and> wd R = W" and y: "y < length Rs" and x: "x + wd new \<le> W"
    and good': "good (put x new (Rs ! y))"
  shows "concat (Rs[y := put x new (Rs ! y)]) = put (y * W + x) new (concat Rs)"
    "x + wd new = W \<Longrightarrow> put (Suc y * W) new' (concat (Rs[y := put x new (Rs ! y)])) =
       put (y * W + x) (new @ new') (concat Rs)"
proof -
  let ?P = "take y Rs" and ?Q = "drop (Suc y) Rs" and ?R = "Rs ! y"
  have split: "Rs = ?P @ ?R # ?Q" "Rs[y := put x new ?R] = ?P @ put x new ?R # ?Q"
    using y by (simp_all add: id_take_nth_drop upd_conv_take_nth_drop)
  have P: "wd (concat ?P) = y * W" "good (concat ?P)"
    using concat_props [of ?P] Rs y by (auto dest: in_set_takeD)
  have R: "good ?R" "wd ?R = W" using Rs y by simp_all
  have c: "concat Rs = concat ?P @ ?R @ concat ?Q" using split(1) by (metis concat_append concat.simps(2))
  have c': "concat (Rs[y := put x new ?R]) = concat ?P @ put x new ?R @ concat ?Q"
    using split(2) by (metis concat_append concat.simps(2))
  have at: "put (y * W + x) v (concat ?P @ B) = concat ?P @ put x v B" for v B
    using put_there [OF P(2), of x v B] P(1) by simp
  show "concat (Rs[y := put x new ?R]) = put (y * W + x) new (concat Rs)"
    unfolding c c' at using put_here [OF R(1), of x new "concat ?Q"] x R(2) by simp
  show "put (Suc y * W) new' (concat (Rs[y := put x new ?R])) = put (y * W + x) (new @ new') (concat Rs)"
    if full: "x + wd new = W"
  proof -
    have w: "wd (concat ?P @ put x new ?R) = Suc y * W"
      using P(1) wd_put [OF R(1), of x new] full R(2) by (simp add: wd_append)
    have g: "good (concat ?P @ put x new ?R)" by (rule good_append [OF P(2) good'])
    have "put (Suc y * W + 0) new' ((concat ?P @ put x new ?R) @ concat ?Q) =
        (concat ?P @ put x new ?R) @ put 0 new' (concat ?Q)"
      using put_there [OF g, of 0 new' "concat ?Q"] w by simp
    then show ?thesis
      unfolding c c' at using put_span [OF R(1), of x new new' "concat ?Q"] full R(2) by simp
  qed
qed

text \<open>The loop of the linear fills, for an operation that overwrites a stretch of one row.\<close>

lemma linear_fill:
  assumes inv: "sb_inv b" and keeps: "\<And>s n. row_keeps (op s n)"
    and obs: "\<And>r. sb_ok b r \<Longrightarrow> good (obs r) \<and> wd (obs r) = nat (cX (sb_size b))"
    and fill: "\<And>n m. fill (n + m) = fill n @ fill m" "\<And>n. wd (fill n) = n"
    and op: "\<And>r s n. sb_ok b r \<Longrightarrow> 0 < n \<Longrightarrow> s + n \<le> nat (cX (sb_size b)) \<Longrightarrow>
        obs (op s n r) = put s (fill n) (obs r)"
    and x: "0 \<le> x" "x < cX (sb_size b)" and y: "0 \<le> y" "y < cY (sb_size b)" and n: "0 < count"
  shows "snd (sb_linear_fill op x y count b) =
      min count (nat (cX (sb_size b)) * nat (cY (sb_size b)) - (nat y * nat (cX (sb_size b)) + nat x))
    \<and> concat (map obs (sb_lines (fst (sb_linear_fill op x y count b)))) =
      put (nat y * nat (cX (sb_size b)) + nat x)
        (fill (min count (nat (cX (sb_size b)) * nat (cY (sb_size b)) - (nat y * nat (cX (sb_size b)) + nat x))))
        (concat (map obs (sb_lines b)))"
  using assms
proof (induction op x y count b rule: sb_linear_fill.induct)
  case (1 op x y count b)
  note inv = 1(2) and keeps = 1(3) and obs = 1(4) and fill = 1(5,6) and op = 1(7) and x = 1(8,9) and y = 1(10,11)
    and n = 1(12)
  define W where "W = nat (cX (sb_size b))"
  define H where "H = nat (cY (sb_size b))"
  define m where "m = (if count < nat (cX (sb_size b)) - nat x then count else nat (cX (sb_size b)) - nat x)"
  have mW': "m = (if count < W - nat x then count else W - nat x)" by (simp add: m_def W_def)
  let ?b1 = "sb_update y (op (nat x) m) b" and ?Y = "nat y" and ?X = "nat x"
  have go: "count > 0 \<and> y < cY (sb_size b)" using n y by simp
  have XW: "?X < W" "?Y < H" using x y unfolding W_def H_def by linarith+
  have m: "0 < m" "?X + m \<le> W" using n XW by (auto simp: mW')
  have len: "length (sb_lines b) = H" using sb_invD(5) [OF inv] by (simp add: H_def)
  have inv1: "sb_inv ?b1" by (rule sb_inv_update_keeps [OF inv keeps])
  let ?Rs = "map obs (sb_lines b)"
  have Rs: "\<forall>R \<in> set ?Rs. good R \<and> wd R = W" using obs sb_lines_ok [OF inv] by (simp add: W_def)
  have okY: "sb_ok b (sb_lines b ! ?Y)" using sbl.nth_ok [OF inv] len XW by simp
  have row: "obs (op ?X m (sb_lines b ! ?Y)) = put ?X (fill m) (?Rs ! ?Y)"
    using op [OF okY m(1)] m(2) len XW by (simp add: W_def)
  have lines1: "map obs (sb_lines ?b1) = ?Rs[?Y := put ?X (fill m) (?Rs ! ?Y)]"
    unfolding map_lines_update [OF inv y] row ..
  have good': "good (put ?X (fill m) (?Rs ! ?Y))"
    using obs [OF row_keepsD [OF keeps okY]] row by metis
  note P = put_rows [OF Rs, of ?Y ?X "fill m"]
  have P1: "concat (map obs (sb_lines ?b1)) = put (?Y * W + ?X) (fill m) (concat ?Rs)"
    unfolding lines1 using P(1) good' XW len m fill(2) by simp
  have eq: "sb_linear_fill op x y count b =
      (let (b1, k) = sb_linear_fill op 0 (y + 1) (count - m) ?b1 in (b1, m + k))"
    by (simp only: sb_linear_fill.simps [of op x y count b] if_P [OF go] Let_def m_def)
  have HW: "?Y * W + W \<le> H * W" using XW by (metis Suc_leI mult_Suc add.commute mult_le_mono1)
  show ?case
  proof (cases "count - m = 0 \<or> ?Y + 1 = H")
    case True
    have "sb_linear_fill op 0 (y + 1) (count - m) ?b1 = (?b1, 0)"
    proof -
      have "\<not> (count - m > 0 \<and> y + 1 < cY (sb_size ?b1))" using True y by (auto simp: H_def)
      then show ?thesis by (simp only: sb_linear_fill.simps [of op 0 "y + 1" "count - m" ?b1] if_False)
    qed
    then have "sb_linear_fill op x y count b = (?b1, m)" using eq by simp
    moreover have "m = min count (W * H - (?Y * W + ?X))"
    proof (cases "count - m = 0")
      case True
      then have "m = count" "count \<le> W - ?X" using m by (auto simp: mW' split: if_splits)
      then show ?thesis using HW XW by (simp add: mult.commute)
    next
      case False
      with True have "?Y + 1 = H" by simp
      then have "H * W = ?Y * W + W" by (metis add.commute mult_Suc plus_1_eq_Suc)
      moreover have "m = W - ?X" using False by (auto simp: mW' split: if_splits)
      ultimately show ?thesis using False XW by (simp add: mult.commute)
    qed
    ultimately show ?thesis using P1 by (simp add: W_def H_def)
  next
    case False
    then have rest: "0 < count - m" "y + 1 < cY (sb_size b)" using XW y by (auto simp: H_def)
    then have mW: "?X + m = W" using XW by (auto simp: mW' split: if_splits)
    have size: "sb_size ?b1 = sb_size b" "sb_ok ?b1 = sb_ok b" by simp_all
    have Y1: "nat (y + 1) = Suc ?Y" using y by simp
    let ?k = "min (count - m) (W * H - (Suc ?Y * W))"
    have IH: "snd (sb_linear_fill op 0 (y + 1) (count - m) ?b1) = ?k
      \<and> concat (map obs (sb_lines (fst (sb_linear_fill op 0 (y + 1) (count - m) ?b1)))) =
        put (Suc ?Y * W) (fill ?k) (concat (map obs (sb_lines ?b1)))"
    proof -
      have o: "\<And>r. sb_ok ?b1 r \<Longrightarrow> good (obs r) \<and> wd (obs r) = nat (cX (sb_size ?b1))"
        using obs by simp
      have p: "\<And>r s n. sb_ok ?b1 r \<Longrightarrow> 0 < n \<Longrightarrow> s + n \<le> nat (cX (sb_size ?b1)) \<Longrightarrow>
          obs (op s n r) = put s (fill n) (obs r)"
        using op by simp
      have z: "(0::int) \<le> 0" "0 < cX (sb_size ?b1)" "0 \<le> y + 1" "y + 1 < cY (sb_size ?b1)"
        using x y rest by simp_all
      from "1.IH" [OF go refl refl refl, folded m_def, OF inv1 keeps o fill p z rest(1)]
      show ?thesis by (simp add: Y1 W_def H_def)
    qed
    have "W * H - (?Y * W + ?X) = m + (W * H - Suc ?Y * W)"
      using HW mW by (simp add: mult.commute)
    moreover have "min count (m + j) = m + min (count - m) j" for j
      using rest(1) by (cases "j \<le> count - m") (auto simp: min_def)
    ultimately have k: "min count (W * H - (?Y * W + ?X)) = m + ?k" by simp
    have "put (Suc ?Y * W) (fill ?k) (concat (map obs (sb_lines ?b1))) =
        put (?Y * W + ?X) (fill (m + ?k)) (concat ?Rs)"
      unfolding lines1 fill(1) using P(2) [of "fill ?k"] good' XW len mW fill(2) by simp
    moreover obtain b2 k2 where e: "sb_linear_fill op 0 (y + 1) (count - m) ?b1 = (b2, k2)" by fastforce
    moreover have "sb_linear_fill op x y count b = (b2, m + k2)"
      unfolding eq e by simp
    ultimately show ?thesis
      using IH k unfolding W_def [symmetric] H_def [symmetric] by (simp only: fst_conv snd_conv)
  qed
qed

end

lemma span_arith: "s + a = r \<Longrightarrow> s + (a + c) - r = (c :: nat)"
  by simp

interpretation attr_store: linear_store length overwrite "\<lambda>_. True"
  by unfold_locales (auto simp: overwrite_def span_arith)

lemma gtake_prefix: "gpos as \<Longrightarrow> n \<le> gwidth as \<Longrightarrow> gtake n (as @ bs) = gtake n as"
proof (induction n as rule: gtake.induct)
  case (1 n)
  then show ?case by (cases bs) auto
qed auto

lemma gdrop_prefix: "gpos as \<Longrightarrow> n \<le> gwidth as \<Longrightarrow> gdrop n (as @ bs) = gdrop n as @ bs"
proof (induction n as rule: gdrop.induct)
  case (1 n)
  then show ?case by (cases bs) auto
qed auto

lemma g_write_run_local:
  assumes "gpos R"
  shows "s + gwidth new \<le> gwidth R \<Longrightarrow> g_write_run s new (R @ S) = g_write_run s new R @ S"
    "g_write_run (gwidth R + s) new (R @ S) = R @ g_write_run s new S"
    "s + gwidth n1 = gwidth R \<Longrightarrow> g_write_run s (n1 @ n2) (R @ S) = g_write_run s n1 R @ g_write_run 0 n2 S"
  using assms
  by (simp_all add: g_write_run_def gtake_append gdrop_append gtake_prefix gdrop_prefix span_arith)

interpretation glyph_store: linear_store gwidth g_write_run gpos
  by unfold_locales (auto simp: g_write_run_local)

section \<open>Filling one row\<close>

lemma fill_attr_row_ops:
  assumes ok: "sb_ok b r" and W: "cX (sb_size b) \<le> 32767" and fit: "s + n \<le> nat (cX (sb_size b))"
  shows "row_attrs (fill_attr_row a s n r) = overwrite s (replicate n (text_attribute a)) (row_attrs r)"
    "row_glyphs (fill_attr_row a s n r) = row_glyphs r"
proof -
  have r: "row_ok r" "row_width r = nat (cX (sb_size b))" using ok by (simp_all add: sb_ok_def)
  have u: "u16 s = s" "u16 (s + n) = s + n" using fit W by (simp_all add: u16_id)
  have "s \<le> s + n" by simp
  note F = fill_attrs_thin [OF r(1) this, of "text_attribute a"]
  have "set_range s (min (s + n) (row_width r)) (\<lambda>_. text_attribute a) (row_attrs r) =
      overwrite s (replicate n (text_attribute a)) (row_attrs r)"
    using set_range_const [of s "s + n" "row_attrs r"] fit r row_okD(8) [OF r(1)] by simp
  then show "row_attrs (fill_attr_row a s n r) = overwrite s (replicate n (text_attribute a)) (row_attrs r)"
    using F(3) by (simp add: fill_attr_row_def u)
  show "row_glyphs (fill_attr_row a s n r) = row_glyphs r" using F(2) by (simp add: fill_attr_row_def u)
qed

text \<open>Consecutive columns written one by one with single-width characters.\<close>

lemma write_columns:
  assumes ok: "row_ok r" and fit: "s + n \<le> row_width r" and n: "0 < n"
    and step: "\<And>i r'. i < n \<Longrightarrow> row_ok r' \<Longrightarrow> row_width r' = row_width r \<Longrightarrow>
        row_attrs r' = overwrite s (replicate i a) (row_attrs r) \<Longrightarrow> f i r' = write_glyph (u16 (s + i)) [c] 1 a r'"
  shows "row_ok (fold f [0..<n] r) \<and> row_width (fold f [0..<n] r) = row_width r
    \<and> row_glyphs (fold f [0..<n] r) = g_write_run s (g_chars (replicate n c)) (row_glyphs r)
    \<and> row_attrs (fold f [0..<n] r) = overwrite s (replicate n a) (row_attrs r)"
  using n fit step
proof (induction n)
  case (Suc n)
  note D = row_okD [OF ok]
  let ?r = "fold f [0..<n] r"
  have u: "u16 (s + n) = s + n" using Suc.prems(2) D(7) by (simp add: u16_id)
  have prev: "row_ok ?r \<and> row_width ?r = row_width r
    \<and> (0 < n \<longrightarrow> row_glyphs ?r = g_write_run s (g_chars (replicate n c)) (row_glyphs r))
    \<and> row_attrs ?r = overwrite s (replicate n a) (row_attrs r)"
  proof (cases "0 < n")
    case True
    have "row_ok ?r \<and> row_width ?r = row_width r
      \<and> row_glyphs ?r = g_write_run s (g_chars (replicate n c)) (row_glyphs r)
      \<and> row_attrs ?r = overwrite s (replicate n a) (row_attrs r)"
      using Suc.prems(2,3) by (intro Suc.IH [OF True]) simp_all
    then show ?thesis by blast
  qed (use ok in simp)
  then have P: "row_ok ?r" "row_width ?r = row_width r" "row_attrs ?r = overwrite s (replicate n a) (row_attrs r)"
    by blast+
  have last: "fold f [0..<Suc n] r = write_glyph (s + n) [c] 1 a ?r"
    using Suc.prems(3) [OF lessI P] u by simp
  have W: "row_ok (write_glyph (s + n) [c] 1 a ?r)"
    "row_glyphs (write_glyph (s + n) [c] 1 a ?r) = g_write (s + n) [c] 1 (row_glyphs ?r)"
    "row_attrs (write_glyph (s + n) [c] 1 a ?r) = overwrite (s + n) (replicate 1 a) (row_attrs ?r)"
    "row_width (write_glyph (s + n) [c] 1 a ?r) = row_width r"
    using write_glyph_thin [OF P(1), of "s + n" 1 "[c]" 1 a] Suc.prems(2) P(2) by simp_all
  have "g_write (s + n) [c] 1 (row_glyphs ?r) = g_write_run s (g_chars (replicate (Suc n) c)) (row_glyphs r)"
  proof (cases "0 < n")
    case False
    then show ?thesis by (simp add: g_write_def g_chars_def)
  next
    case True
    then have g: "row_glyphs ?r = g_write_run s (g_chars (replicate n c)) (row_glyphs r)" using prev by blast
    have "g_write_run (s + gwidth (g_chars (replicate n c))) [([c], 1)] (g_write_run s (g_chars (replicate n c)) (row_glyphs r)) =
        g_write_run s (g_chars (replicate n c) @ [([c], 1)]) (row_glyphs r)"
      using D(5,6) Suc.prems(2) by (intro g_write_run_append) simp_all
    moreover have "g_chars (replicate n c) @ [([c], 1)] = g_chars (replicate (Suc n) c)"
      by (simp add: g_chars_def replicate_append_same)
    ultimately show ?thesis by (simp add: g_write_def g)
  qed
  moreover have "overwrite (s + n) (replicate 1 a) (row_attrs ?r) = overwrite s (replicate (Suc n) a) (row_attrs r)"
    using overwrite_overwrite [of s "replicate n a" "[a]" "row_attrs r"] Suc.prems(2) D(8) P(3)
    by (simp add: replicate_append_same)
  ultimately show ?case using W last by simp
qed simp

lemma g_write_run_again:
  assumes "gpos gs" and "gpos n1" and "gwidth n1 = gwidth n2" and "s + gwidth n1 \<le> gwidth gs"
  shows "g_write_run s n2 (g_write_run s n1 gs) = g_write_run s n2 gs"
  using assms by (simp add: g_write_run_def gtake_append gdrop_append gwidth_gtake)

lemma overwrite_same: "length A = length B \<Longrightarrow> s + length A \<le> length xs \<Longrightarrow> overwrite s B (overwrite s A xs) = overwrite s B xs"
  by (simp add: overwrite_def)

lemma overwrite_nth: "i < length A \<Longrightarrow> s + length A \<le> length xs \<Longrightarrow> overwrite s A xs ! (s + i) = A ! i"
  by (simp add: overwrite_def nth_append)

lemma fill_char_row_ops:
  assumes ok: "sb_ok b r" and W: "cX (sb_size b) \<le> 32767" and fit: "s + n \<le> nat (cX (sb_size b))" and n: "0 < n"
  shows "row_attrs (fill_char_row c s n r) = overwrite s (replicate n default_attr) (row_attrs r)"
    "row_glyphs (fill_char_row c s n r) = g_write_run s (g_chars (replicate n c)) (row_glyphs r)"
proof -
  have r: "row_ok r" "row_width r = nat (cX (sb_size b))" using ok by (simp_all add: sb_ok_def)
  note D = row_okD [OF r(1)]
  have fit': "s + n \<le> row_width r" using fit r(2) by simp
  let ?f = "\<lambda>i. clear_cell (u16 (s + i)) default_attr"
  let ?r1 = "fold ?f [0..<n] r"
  let ?g = "\<lambda>i r. write_glyph (u16 (s + i)) [c] 1 (attr_at r (u16 (s + i))) r"
  have A: "row_ok ?r1 \<and> row_width ?r1 = row_width r
    \<and> row_glyphs ?r1 = g_write_run s (g_chars (replicate n 0x20)) (row_glyphs r)
    \<and> row_attrs ?r1 = overwrite s (replicate n default_attr) (row_attrs r)"
    by (rule write_columns [OF r(1) fit' n]) (simp add: clear_cell_def)
  then have A1: "row_ok ?r1" "row_width ?r1 = row_width r"
    "row_glyphs ?r1 = g_write_run s (g_chars (replicate n 0x20)) (row_glyphs r)"
    "row_attrs ?r1 = overwrite s (replicate n default_attr) (row_attrs r)" by blast+
  have keep: "overwrite s (replicate i default_attr) (row_attrs ?r1) ! (s + j) = default_attr" if "i < n" "j < n" for i j
  proof -
    have at: "row_attrs ?r1 ! (s + j) = default_attr"
      using overwrite_nth [of j "replicate n default_attr" s "row_attrs r"] that fit' D(8) A1(4) by simp
    show ?thesis
    proof (cases "j < i")
      case True
      then show ?thesis
        using overwrite_nth [of j "replicate i default_attr" s "row_attrs ?r1"] that fit' row_okD(8) [OF A1(1)] A1(2) by simp
    next
      case False
      then have "overwrite s (replicate i default_attr) (row_attrs ?r1) ! (s + j) = row_attrs ?r1 ! (s + j)"
        using that fit' row_okD(8) [OF A1(1)] A1(2) by (simp add: overwrite_def nth_append)
      then show ?thesis using at by simp
    qed
  qed
  have B: "row_ok (fold ?g [0..<n] ?r1) \<and> row_width (fold ?g [0..<n] ?r1) = row_width ?r1
    \<and> row_glyphs (fold ?g [0..<n] ?r1) = g_write_run s (g_chars (replicate n c)) (row_glyphs ?r1)
    \<and> row_attrs (fold ?g [0..<n] ?r1) = overwrite s (replicate n default_attr) (row_attrs ?r1)"
  proof (rule write_columns [OF A1(1) _ n])
    fix i r' assume i: "i < n" and r': "row_ok r'" "row_width r' = row_width ?r1"
      "row_attrs r' = overwrite s (replicate i default_attr) (row_attrs ?r1)"
    have u: "u16 (s + i) = s + i" using i fit' D(7) by (simp add: u16_id)
    have "attr_at r' (s + i) = row_attrs r' ! (s + i)"
      using i fit' r'(2) A1(2) by (intro attr_at_row_attrs row_okD(3) [OF r'(1)]) simp
    then show "?g i r' = write_glyph (u16 (s + i)) [c] 1 default_attr r'"
      using keep [OF i i] r'(3) u by simp
  qed (use fit' A1(2) in simp)
  have e: "fill_char_row c s n r = fold ?g [0..<n] ?r1" by (simp add: fill_char_row_def Let_def)
  show "row_attrs (fill_char_row c s n r) = overwrite s (replicate n default_attr) (row_attrs r)"
    unfolding e using B A1(4) fit' D(8) by (simp add: overwrite_same)
  show "row_glyphs (fill_char_row c s n r) = g_write_run s (g_chars (replicate n c)) (row_glyphs r)"
    unfolding e using B A1(3) fit' D(5,6) by (simp add: g_write_run_again)
qed

section \<open>The fills\<close>

text \<open>The screen in reading order: its attributes and its glyphs.\<close>

definition sb_attrs :: "screen_buffer \<Rightarrow> attr list" where
  "sb_attrs b = concat (map row_attrs (sb_lines b))"

definition sb_text :: "screen_buffer \<Rightarrow> glyph list" where
  "sb_text b = concat (map row_glyphs (sb_lines b))"

definition cell_index :: "screen_buffer \<Rightarrow> coord \<Rightarrow> nat" where
  "cell_index b p = nat (cY p) * nat (cX (sb_size b)) + nat (cX p)"

definition cells_from :: "screen_buffer \<Rightarrow> coord \<Rightarrow> nat" where
  "cells_from b p = nat (cX (sb_size b)) * nat (cY (sb_size b)) - cell_index b p"

lemma sb_ok_obs_attrs: "sb_ok b r \<Longrightarrow> True \<and> length (row_attrs r) = nat (cX (sb_size b))"
  using row_okD(8) [of r] by (simp add: sb_ok_def)

lemma sb_ok_obs_glyphs: "sb_ok b r \<Longrightarrow> gpos (row_glyphs r) \<and> gwidth (row_glyphs r) = nat (cX (sb_size b))"
  using row_okD(5,6) [of r] by (simp add: sb_ok_def)

lemma row_keeps_fill_attr_row: "row_keeps (fill_attr_row a s n)"
  by (simp add: fill_attr_row_def row_keeps_fill_attrs)

text \<open>C21: \<open>fill_attr\<close> overwrites exactly the next \<open>count\<close> cells in reading order (as many as the buffer has from
  \<open>start\<close> on) with the attribute, wrapping from row to row, and reports that number; the glyphs stay.\<close>
theorem fill_attr_linear:
  assumes inv: "sb_inv b" and p: "sb_valid b p" and n: "0 < n"
  shows "snd (sb_fill_attr a p n b) = min n (cells_from b p)
    \<and> sb_attrs (fst (sb_fill_attr a p n b)) =
        overwrite (cell_index b p) (replicate (min n (cells_from b p)) (text_attribute a)) (sb_attrs b)
    \<and> map row_glyphs (sb_lines (fst (sb_fill_attr a p n b))) = map row_glyphs (sb_lines b)"
proof -
  have W: "cX (sb_size b) \<le> 32767" using sb_invD(2) [OF inv] .
  have xy: "0 \<le> cX p" "cX p < cX (sb_size b)" "0 \<le> cY p" "cY p < cY (sb_size b)" using p by (simp_all add: sb_valid_def)
  have e: "sb_fill_attr a p n b = sb_linear_fill (fill_attr_row a) (cX p) (cY p) n b"
    using xy by (simp add: sb_fill_attr_def sb_valid_y_def)
  have op: "\<And>r s m. sb_ok b r \<Longrightarrow> 0 < m \<Longrightarrow> s + m \<le> nat (cX (sb_size b)) \<Longrightarrow>
      row_attrs (fill_attr_row a s m r) = overwrite s (replicate m (text_attribute a)) (row_attrs r)"
    using fill_attr_row_ops(1) [OF _ W] by blast
  note F = attr_store.linear_fill [where fill = "\<lambda>m. replicate m (text_attribute a)" and obs = row_attrs,
      OF inv row_keeps_fill_attr_row sb_ok_obs_attrs replicate_add length_replicate op xy n]
  have "map row_glyphs (sb_lines (fst (sb_linear_fill (fill_attr_row a) x y m b'))) = map row_glyphs (sb_lines b')"
    if "sb_inv b'" "cX (sb_size b') \<le> 32767" "0 \<le> x" "0 \<le> y" "x < cX (sb_size b')" for x y m b'
    using that
  proof (induction "fill_attr_row a" x y m b' rule: sb_linear_fill.induct)
    case (1 x y m b')
    show ?case
    proof (cases "m > 0 \<and> y < cY (sb_size b')")
      case False
      then show ?thesis by (simp only: sb_linear_fill.simps [of _ x y m b'] if_not_P [OF False] if_False fst_conv)
    next
      case True
      let ?k = "if m < nat (cX (sb_size b')) - nat x then m else nat (cX (sb_size b')) - nat x"
      let ?b1 = "sb_update y (fill_attr_row a (nat x) ?k) b'"
      have y: "0 \<le> y" "y < cY (sb_size b')" using 1(5) True by simp_all
      have inv1: "sb_inv ?b1" by (rule sb_inv_update_keeps [OF 1(2) row_keeps_fill_attr_row])
      have "sb_ok b' (sb_lines b' ! nat y)"
        using sb_line_ok [OF 1(2) y] by (simp add: sb_ok_def)
      from fill_attr_row_ops(2) [OF this 1(3), of "nat x" ?k a] 1(4,6)
      have "row_glyphs (fill_attr_row a (nat x) ?k (sb_lines b' ! nat y)) = row_glyphs (sb_lines b' ! nat y)" by auto
      then have "map row_glyphs (sb_lines ?b1) = map row_glyphs (sb_lines b')"
        unfolding map_lines_update [OF 1(2) y] by (metis list_update_id list_update_beyond map_update not_le nth_map)
      moreover have "map row_glyphs (sb_lines (fst (sb_linear_fill (fill_attr_row a) 0 (y + 1) (m - ?k) ?b1))) =
          map row_glyphs (sb_lines ?b1)"
        using 1(3,4,5,6) by (intro "1.hyps" [OF True refl refl refl inv1]) simp_all
      ultimately show ?thesis
        by (simp only: sb_linear_fill.simps [of _ x y m b'] if_P [OF True] Let_def case_prod_beta fst_conv)
    qed
  qed
  from this [OF inv W xy(1,3,2)] F show ?thesis by (simp only: e sb_attrs_def cell_index_def cells_from_def)
qed

theorem fill_attr_linear_witness:
  "sb_attrs (fst (sb_fill_attr 0x1F (coord 1 0) 3 (sb_new (coord 3 2)))) = [7, 0x1F, 0x1F, 0x1F, 7, 7]"
proof -
  have "sb_inv (sb_new (coord 3 2))" "sb_valid (sb_new (coord 3 2)) (coord 1 0)" "0 < (3::nat)" by code_simp+
  note fill_attr_linear [OF this, of "0x1F", THEN conjunct2, THEN conjunct1]
  also have "overwrite (cell_index (sb_new (coord 3 2)) (coord 1 0))
      (replicate (min 3 (cells_from (sb_new (coord 3 2)) (coord 1 0))) (text_attribute 0x1F))
      (sb_attrs (sb_new (coord 3 2))) = [7, 0x1F, 0x1F, 0x1F, 7, 7]" by code_simp
  finally show ?thesis .
qed

text \<open>C22: \<open>fill_char\<close> writes exactly the next \<open>count\<close> cells in reading order with the character and reports that
  number; a wide glyph cut by either end becomes spaces. But it does not keep the cells' attributes, as
  its comment promises: every filled cell gets the default attribute.\<close>
theorem fill_char_resets_attributes:
  assumes inv: "sb_inv b" and p: "sb_valid b p" and n: "0 < n"
  shows "snd (sb_fill_char c p n b) = min n (cells_from b p)
    \<and> sb_text (fst (sb_fill_char c p n b)) =
        g_write_run (cell_index b p) (g_chars (replicate (min n (cells_from b p)) c)) (sb_text b)
    \<and> sb_attrs (fst (sb_fill_char c p n b)) =
        overwrite (cell_index b p) (replicate (min n (cells_from b p)) default_attr) (sb_attrs b)"
proof -
  have W: "cX (sb_size b) \<le> 32767" using sb_invD(2) [OF inv] .
  have xy: "0 \<le> cX p" "cX p < cX (sb_size b)" "0 \<le> cY p" "cY p < cY (sb_size b)" using p by (simp_all add: sb_valid_def)
  have e: "sb_fill_char c p n b = sb_linear_fill (fill_char_row c) (cX p) (cY p) n b"
    using xy by (simp add: sb_fill_char_def sb_valid_y_def)
  have op1: "\<And>r s m. sb_ok b r \<Longrightarrow> 0 < m \<Longrightarrow> s + m \<le> nat (cX (sb_size b)) \<Longrightarrow>
      row_attrs (fill_char_row c s m r) = overwrite s (replicate m default_attr) (row_attrs r)"
    using fill_char_row_ops(1) [OF _ W] by blast
  have op2: "\<And>r s m. sb_ok b r \<Longrightarrow> 0 < m \<Longrightarrow> s + m \<le> nat (cX (sb_size b)) \<Longrightarrow>
      row_glyphs (fill_char_row c s m r) = g_write_run s (g_chars (replicate m c)) (row_glyphs r)"
    using fill_char_row_ops(2) [OF _ W] by blast
  have g: "\<And>i j. g_chars (replicate (i + j) c) = g_chars (replicate i c) @ g_chars (replicate j c)"
    "\<And>i. gwidth (g_chars (replicate i c)) = i" by (simp_all add: replicate_add g_chars_def gwidth_def sum_list_replicate)
  note A = attr_store.linear_fill [where fill = "\<lambda>m. replicate m default_attr" and obs = row_attrs,
      OF inv row_keeps_fill_char_row sb_ok_obs_attrs replicate_add length_replicate op1 xy n]
  note G = glyph_store.linear_fill [where fill = "\<lambda>m. g_chars (replicate m c)" and obs = row_glyphs,
      OF inv row_keeps_fill_char_row sb_ok_obs_glyphs g op2 xy n]
  from A G show ?thesis by (simp only: e sb_attrs_def sb_text_def cell_index_def cells_from_def)
qed

theorem fill_char_resets_attributes_witness:
  "sb_attrs (fst (sb_fill_char 0x2E (coord 1 0) 2 (sb_clear 0x4F (sb_new (coord 2 2))))) = [0x4F, 7, 7, 0x4F]"
proof -
  let ?b = "sb_clear 0x4F (sb_new (coord 2 2))"
  have "sb_inv ?b" "sb_valid ?b (coord 1 0)" "0 < (2::nat)" by code_simp+
  note fill_char_resets_attributes [OF this, of "0x2E", THEN conjunct2, THEN conjunct2]
  also have "overwrite (cell_index ?b (coord 1 0)) (replicate (min 2 (cells_from ?b (coord 1 0))) default_attr) (sb_attrs ?b)
      = [0x4F, 7, 7, 0x4F]" by code_simp
  finally show ?thesis .
qed

end
