(* ===== verification/Dispatch_Erase.thy ===== *)
theory Dispatch_Erase
  imports Vt_Dispatch Screen_Fill
begin

text \<open>
  The erase messages against a specification over what is read of the screen, the glyphs and the
  attributes of each line.
\<close>

type_synonym line_view = "glyph list \<times> attr list"

definition line_view :: "row \<Rightarrow> line_view" where
  "line_view r = (row_glyphs r, row_attrs r)"

definition sb_view :: "screen_buffer \<Rightarrow> line_view list" where
  "sb_view b = map line_view (sb_lines b)"

text \<open>Columns \<open>s\<close> to \<open>s + n - 1\<close> become spaces with the attribute; a wide glyph cut by either end becomes spaces.\<close>

definition erase_columns :: "nat \<Rightarrow> nat \<Rightarrow> attr \<Rightarrow> line_view \<Rightarrow> line_view" where
  "erase_columns s n a v = (g_write_run s (gspaces n) (fst v), overwrite s (replicate n a) (snd v))"

definition blank_view :: "nat \<Rightarrow> attr \<Rightarrow> line_view" where
  "blank_view w a = (gspaces w, replicate w a)"

text \<open>ED and EL over a screen \<open>w\<close> columns wide with the cursor in column \<open>x\<close> of line \<open>y\<close>.\<close>

definition erase_display_spec :: "int \<Rightarrow> nat \<Rightarrow> nat \<Rightarrow> nat \<Rightarrow> attr \<Rightarrow> line_view list \<Rightarrow> line_view list" where
  "erase_display_spec mode w x y a vs =
     (if mode = 0 then take y vs @ erase_columns x (w - x) a (vs ! y) # replicate (length vs - Suc y) (blank_view w a)
      else if mode = 1 then replicate y (blank_view w a) @ erase_columns 0 (Suc x) a (vs ! y) # drop (Suc y) vs
      else if mode = 2 \<or> mode = 3 then replicate (length vs) (blank_view w a)
      else vs)"

definition erase_line_spec :: "int \<Rightarrow> nat \<Rightarrow> nat \<Rightarrow> nat \<Rightarrow> attr \<Rightarrow> line_view list \<Rightarrow> line_view list" where
  "erase_line_spec mode w x y a vs =
     (if mode = 0 then vs[y := erase_columns x (w - x) a (vs ! y)]
      else if mode = 1 then vs[y := erase_columns 0 (Suc x) a (vs ! y)]
      else if mode = 2 then vs[y := blank_view w a]
      else vs)"

section \<open>One row\<close>

definition clear_span :: "nat \<Rightarrow> nat \<Rightarrow> attr \<Rightarrow> row \<Rightarrow> row" where
  "clear_span s n a r = fold (\<lambda>i. clear_cell (u16 (s + i)) a) [0..<n] r"

lemma row_keeps_clear_span: "row_keeps (clear_span s n a)"
proof -
  have "clear_span s n a = fold (\<lambda>i. clear_cell (u16 (s + i)) a) [0..<n]" by (simp add: clear_span_def fun_eq_iff)
  then show ?thesis by (simp add: row_keeps_fold row_keeps_clear_cell)
qed

lemma clear_span_view:
  assumes "row_ok r" and "s + n \<le> row_width r" and "0 < n"
  shows "line_view (clear_span s n a r) = erase_columns s n a (line_view r)"
proof -
  have "row_glyphs (clear_span s n a r) = g_write_run s (g_chars (replicate n 0x20)) (row_glyphs r)
    \<and> row_attrs (clear_span s n a r) = overwrite s (replicate n a) (row_attrs r)"
    using write_columns [OF assms, of a "\<lambda>i. clear_cell (u16 (s + i)) a" "0x20"]
    by (simp add: clear_span_def clear_cell_def)
  then show ?thesis by (simp add: line_view_def erase_columns_def gspaces_chars)
qed

lemma erase_columns_all:
  "gpos (fst v) \<Longrightarrow> gwidth (fst v) = w \<Longrightarrow> length (snd v) = w \<Longrightarrow> erase_columns 0 w a v = blank_view w a"
  by (simp add: erase_columns_def blank_view_def g_write_run_def)

lemma line_view_ok:
  assumes "sb_ok b r"
  shows "gpos (fst (line_view r))" "gwidth (fst (line_view r)) = nat (cX (sb_size b))"
    "length (snd (line_view r)) = nat (cX (sb_size b))"
  using sb_ok_obs_attrs [OF assms] sb_ok_obs_glyphs [OF assms] by (simp_all add: line_view_def)

section \<open>The clearing loops\<close>

lemma upto_nats: "0 \<le> lo \<Longrightarrow> [lo..hi] = map (\<lambda>i. lo + int i) [0..<nat (hi - lo + 1)]"
proof (induction "nat (hi - lo + 1)" arbitrary: hi)
  case (Suc n)
  then have le: "lo \<le> hi" "nat (hi - lo + 1) = Suc n" "n = nat (hi - 1 - lo + 1)" by linarith+
  have "[lo..hi] = map (\<lambda>i. lo + int i) [0..<n] @ [hi]"
    unfolding upto_rec2 [OF le(1)] using Suc.hyps(1) [OF le(3) Suc.prems] le(3) by simp
  moreover have "lo + int n = hi" using le by linarith
  ultimately show ?case by (simp add: le(2))
qed simp

text \<open>A loop over columns of one row inside the buffer is one update of that row.\<close>

lemma clear_cells_update:
  assumes inv: "sb_inv b" and y: "0 \<le> y" "y < cY (sb_size b)" and lo: "0 \<le> lo" "lo \<le> hi" "hi < cX (sb_size b)"
  shows "clear_cells [lo..hi] y a b = sb_update y (clear_span (nat lo) (nat (hi - lo + 1)) (text_attribute a)) b"
proof -
  define n where "n = nat (hi - lo + 1)"
  have bound: "cX (sb_size b) \<le> 32767" by (rule sb_invD(2) [OF inv])
  have cell: "sb_clear_cell (coord (lo + int i) y) a b' = sb_update y (clear_cell (u16 (nat lo + i)) (text_attribute a)) b'"
    if "i < n" "sb_size b' = sb_size b" for i b'
  proof -
    have x: "0 \<le> lo + int i" "lo + int i < cX (sb_size b)" using that lo by (auto simp: n_def)
    then have "to_u16 (lo + int i) = nat (lo + int i)" "u16 (nat lo + i) = nat lo + i"
      using bound lo by (simp_all add: to_u16_id u16_id)
    then show ?thesis using that(2) x y lo by (simp add: sb_clear_cell_def sb_valid_def nat_add_distrib)
  qed
  have "fold (\<lambda>x. sb_clear_cell (coord x y) a) (map (\<lambda>i. lo + int i) [0..<k]) b =
      fold (\<lambda>i. sb_update y (clear_cell (u16 (nat lo + i)) (text_attribute a))) [0..<k] b
    \<and> sb_size (fold (\<lambda>i. sb_update y (clear_cell (u16 (nat lo + i)) (text_attribute a))) [0..<k] b) = sb_size b"
    if "k \<le> n" for k
    using that by (induction k) (simp_all add: cell)
  then have "clear_cells [lo..hi] y a b = fold (\<lambda>i. sb_update y (clear_cell (u16 (nat lo + i)) (text_attribute a))) [0..<n] b"
    unfolding clear_cells_def upto_nats [OF lo(1)] n_def by blast
  moreover have "[0..<n] = 0 # [Suc 0..<n]" using lo by (simp add: n_def upt_conv_Cons)
  moreover have "fold (\<lambda>i. clear_cell (u16 (nat lo + i)) (text_attribute a)) [0..<n] =
      clear_span (nat lo) n (text_attribute a)" by (simp add: clear_span_def fun_eq_iff)
  ultimately show ?thesis
    using sbl.fold_same_line [of y "\<lambda>i. clear_cell (u16 (nat lo + i)) (text_attribute a)" 0 "[Suc 0..<n]" b]
    by (simp add: n_def)
qed

lemma sb_view_update:
  assumes "sb_inv b" and "0 \<le> y" "y < cY (sb_size b)"
  shows "sb_view (sb_update y f b) = (sb_view b)[nat y := line_view (f (sb_lines b ! nat y))]"
  using assms by (simp add: sb_view_def map_lines_update)

lemma length_sb_view [simp]: "length (sb_view b) = length (sb_rows b)"
  by (simp add: sb_view_def)

text \<open>One row.\<close>

lemma clear_cells_view:
  assumes inv: "sb_inv b" and y: "0 \<le> y" "y < cY (sb_size b)" and lo: "0 \<le> lo" "lo \<le> hi" "hi < cX (sb_size b)"
  shows "sb_inv (clear_cells [lo..hi] y a b)" "sb_size (clear_cells [lo..hi] y a b) = sb_size b"
    "sb_view (clear_cells [lo..hi] y a b) =
       (sb_view b)[nat y := erase_columns (nat lo) (nat (hi - lo + 1)) (text_attribute a) (sb_view b ! nat y)]"
proof -
  let ?f = "clear_span (nat lo) (nat (hi - lo + 1)) (text_attribute a)"
  note U = clear_cells_update [OF assms, of a]
  have ok: "row_ok (sb_lines b ! nat y)" "row_width (sb_lines b ! nat y) = nat (cX (sb_size b))"
    using sb_line_ok [OF inv y] by simp_all
  have len: "nat y < length (sb_lines b)" using sb_invD(5) [OF inv] y by simp
  have fit: "nat lo + nat (hi - lo + 1) \<le> row_width (sb_lines b ! nat y)" "0 < nat (hi - lo + 1)"
    using lo ok(2) by linarith+
  show "sb_inv (clear_cells [lo..hi] y a b)"
    unfolding U by (rule sb_inv_update_keeps [OF inv row_keeps_clear_span])
  show "sb_size (clear_cells [lo..hi] y a b) = sb_size b" unfolding U by simp
  have "line_view (?f (sb_lines b ! nat y)) =
      erase_columns (nat lo) (nat (hi - lo + 1)) (text_attribute a) (line_view (sb_lines b ! nat y))"
    by (rule clear_span_view [OF ok(1) fit])
  then show "sb_view (clear_cells [lo..hi] y a b) =
       (sb_view b)[nat y := erase_columns (nat lo) (nat (hi - lo + 1)) (text_attribute a) (sb_view b ! nat y)]"
    unfolding U sb_view_update [OF inv y] using len by (simp add: sb_view_def)
qed

text \<open>Whole rows.\<close>

lemma clear_rows_update:
  assumes "sb_inv b" and "0 \<le> i" and "j < cY (sb_size b)"
  shows "fold (\<lambda>y. clear_cells [0..cX (sb_size b) - 1] y a) [i..j] b =
    fold (\<lambda>y. sb_update y (clear_span 0 (nat (cX (sb_size b))) (text_attribute a))) [i..j] b"
  using assms
proof (induction i j arbitrary: b rule: upto.induct)
  case (1 i j)
  show ?case
  proof (cases "i \<le> j")
    case True
    have y: "0 \<le> i" "i < cY (sb_size b)" using 1(3,4) True by simp_all
    have x: "(0::int) \<le> 0" "0 \<le> cX (sb_size b) - 1" "cX (sb_size b) - 1 < cX (sb_size b)"
      using sb_invD(1) [OF 1(2)] by simp_all
    let ?b1 = "sb_update i (clear_span 0 (nat (cX (sb_size b))) (text_attribute a)) b"
    have step: "clear_cells [0..cX (sb_size b) - 1] i a b = ?b1"
      using clear_cells_update [OF 1(2) y x, of a] by simp
    have "sb_inv ?b1" by (rule sb_inv_update_keeps [OF 1(2) row_keeps_clear_span])
    then have "fold (\<lambda>y. clear_cells [0..cX (sb_size ?b1) - 1] y a) [i + 1..j] ?b1 =
        fold (\<lambda>y. sb_update y (clear_span 0 (nat (cX (sb_size ?b1))) (text_attribute a))) [i + 1..j] ?b1"
      using 1(3,4) by (intro "1.IH" True) simp_all
    then show ?thesis using True step by (simp add: upto_rec1)
  qed simp
qed

lemma clear_rows_view:
  fixes a :: attr
  assumes inv: "sb_inv b" and i: "0 \<le> i" and j: "j < cY (sb_size b)"
  defines "b' \<equiv> fold (\<lambda>y. clear_cells [0..cX (sb_size b) - 1] y a) [i..j] b"
  shows "sb_inv b'" "sb_size b' = sb_size b"
    "sb_view b' = map (\<lambda>k. if i \<le> int k \<and> int k \<le> j then blank_view (nat (cX (sb_size b))) (text_attribute a)
                          else sb_view b ! k) [0..<length (sb_rows b)]"
proof -
  let ?W = "nat (cX (sb_size b))"
  let ?f = "\<lambda>y::int. clear_span 0 ?W (text_attribute a)"
  have j': "j < int (length (sb_lines b))" using j sb_invD(3,5) [OF inv] by simp
  have keep: "sb_ok b (?f y r)" if "sb_ok b r" for y r by (rule row_keepsD [OF row_keeps_clear_span that])
  have lines: "sb_lines (fold (\<lambda>y. sb_update y (?f y)) [i..j] b) =
      map (\<lambda>k. if i \<le> int k \<and> int k \<le> j then ?f (int k) (sb_lines b ! k) else sb_lines b ! k) [0..<length (sb_lines b)]"
    by (rule sbl.fold_lines(2) [where f = ?f, OF inv i j']) (rule keep)
  have b': "b' = fold (\<lambda>y. sb_update y (?f y)) [i..j] b"
    unfolding b'_def by (rule clear_rows_update [OF inv i j])
  show "sb_inv b'" unfolding b' by (rule sbl.fold_lines(1) [where f = ?f, OF inv i j']) (rule keep)
  have "sb_size (fold (\<lambda>y. sb_update y (?f y)) ys c) = sb_size c" for ys c
    by (induction ys arbitrary: c) simp_all
  then show "sb_size b' = sb_size b" unfolding b' .
  have row: "line_view (clear_span 0 ?W (text_attribute a) r) = blank_view ?W (text_attribute a)" if "r \<in> set (sb_lines b)" for r
  proof -
    note ok = sb_lines_ok [OF inv that]
    have "0 + ?W \<le> row_width r" "0 < ?W" "row_ok r" using ok sb_invD(1) [OF inv] by (simp_all add: sb_ok_def)
    from clear_span_view [OF this(3,1,2)] show ?thesis using erase_columns_all line_view_ok [OF ok] by simp
  qed
  have "sb_view b' = map line_view (sb_lines (fold (\<lambda>y. sb_update y (?f y)) [i..j] b))" by (simp add: sb_view_def b')
  also have "\<dots> = map (\<lambda>k. line_view (if i \<le> int k \<and> int k \<le> j then ?f (int k) (sb_lines b ! k) else sb_lines b ! k))
      [0..<length (sb_lines b)]" unfolding lines by simp
  also have "\<dots> = map (\<lambda>k. if i \<le> int k \<and> int k \<le> j then blank_view ?W (text_attribute a) else sb_view b ! k)
      [0..<length (sb_rows b)]"
    using row by (intro map_cong) (simp_all add: sb_view_def)
  finally show "sb_view b' = map (\<lambda>k. if i \<le> int k \<and> int k \<le> j then blank_view ?W (text_attribute a)
                          else sb_view b ! k) [0..<length (sb_rows b)]" .
qed

lemma clear_view:
  assumes inv: "sb_inv b"
  shows "sb_inv (sb_clear a b)" "sb_size (sb_clear a b) = sb_size b"
    "sb_view (sb_clear a b) = replicate (length (sb_rows b)) (blank_view (nat (cX (sb_size b))) (text_attribute a))"
proof -
  have w: "nat (cX (sb_size b)) < 32768" using sb_invD(2) [OF inv] by simp
  note N = row_ok_new [OF w, of a]
  show "sb_inv (sb_clear a b)"
    using inv N sb_invD(10) [OF inv] sb_invD(6) [OF inv]
    by (auto simp: sb_clear_def sb_inv_def sb_shape_def sb_ok_def)
  show "sb_size (sb_clear a b) = sb_size b" by (simp add: sb_clear_def)
  show "sb_view (sb_clear a b) = replicate (length (sb_rows b)) (blank_view (nat (cX (sb_size b))) (text_attribute a))"
    using N sb_invD(10) [OF inv]
    by (simp add: sb_view_def sb_lines_def sb_clear_def line_view_def blank_view_def map_replicate_const)
qed

section \<open>The messages\<close>

text \<open>C24: The erase messages do on the screen what ED and EL say. ED 0 clears from the cursor to the end of the
  screen, 1 from the start to the cursor, 2 and 3 the whole screen; EL the same within the cursor's
  line; any other mode does nothing. Cleared columns are spaces with the current attribute, every other
  column keeps its glyph and attribute, except that a wide glyph half of which is cleared becomes
  spaces. The buffer's invariant and size are kept.\<close>
theorem erase_messages_refine:
  assumes inv: "sb_inv b" and size: "cs_buffer_size s = sb_size b" and p: "sb_valid b (cs_position s)"
    and a: "a = text_attribute (cs_attributes s)" and x: "int x = cX (cs_position s)" and y: "int y = cY (cs_position s)"
  shows "sb_view (apply_erase_in_display mode s b) = erase_display_spec mode (nat (cX (sb_size b))) x y a (sb_view b)
    \<and> sb_view (apply_erase_in_line mode s b) = erase_line_spec mode (nat (cX (sb_size b))) x y a (sb_view b)
    \<and> sb_inv (apply_erase_in_display mode s b) \<and> sb_inv (apply_erase_in_line mode s b)
    \<and> sb_size (apply_erase_in_display mode s b) = sb_size b \<and> sb_size (apply_erase_in_line mode s b) = sb_size b"
proof -
  let ?W = "nat (cX (sb_size b))" and ?a = "cs_attributes s"
  have xy: "0 \<le> int x" "int x < cX (sb_size b)" "0 \<le> int y" "int y < cY (sb_size b)"
    using p by (simp_all add: sb_valid_def x y)
  have len: "y < length (sb_view b)" "length (sb_view b) = nat (cY (sb_size b))" "length (sb_view b) = length (sb_rows b)"
    using sb_invD(5) [OF inv] xy by simp_all
  have h: "to_short (int y + 1) = int y + 1" using xy(4) sb_invD(4) [OF inv] by (simp add: to_short_id)
  have span: "nat (int x) = x" "nat (cX (sb_size b) - 1 - int x + 1) = ?W - x" "nat (int x - 0 + 1) = Suc x"
    "nat (cX (sb_size b) - 1 - 0 + 1) = ?W" "nat (int y) = y" by linarith+
  have le: "(0::int) \<le> 0" "int x \<le> cX (sb_size b) - 1" "cX (sb_size b) - 1 < cX (sb_size b)" "(0::int) \<le> int x"
    "(0::int) \<le> cX (sb_size b) - 1" using xy by linarith+
  note R = clear_cells_view [OF _ xy(3) _ xy(1), where a = ?a]
  have tail: "sb_inv (clear_cells [int x..cX (sb_size b) - 1] (int y) ?a b)
    \<and> sb_size (clear_cells [int x..cX (sb_size b) - 1] (int y) ?a b) = sb_size b
    \<and> sb_view (clear_cells [int x..cX (sb_size b) - 1] (int y) ?a b) =
        (sb_view b)[y := erase_columns x (?W - x) a (sb_view b ! y)]"
    using clear_cells_view [OF inv xy(3,4) le(4,2,3), of ?a] unfolding span a by blast
  have head: "sb_inv (clear_cells [0..int x] (int y) ?a c) \<and> sb_size (clear_cells [0..int x] (int y) ?a c) = sb_size c
    \<and> sb_view (clear_cells [0..int x] (int y) ?a c) = (sb_view c)[y := erase_columns 0 (Suc x) a (sb_view c ! y)]"
    if "sb_inv c" "sb_size c = sb_size b" for c
    using clear_cells_view [OF that(1) xy(3) _ le(1,4), of ?a] xy that(2) span unfolding a by simp
  have whole: "sb_inv (clear_cells [0..cX (sb_size b) - 1] (int y) ?a b)
    \<and> sb_size (clear_cells [0..cX (sb_size b) - 1] (int y) ?a b) = sb_size b
    \<and> sb_view (clear_cells [0..cX (sb_size b) - 1] (int y) ?a b) = (sb_view b)[y := blank_view ?W a]"
  proof -
    have "erase_columns 0 ?W a (sb_view b ! y) = blank_view ?W a"
      using erase_columns_all line_view_ok [OF sbl.nth_ok [OF inv, of y]] len by (simp add: sb_view_def)
    then show ?thesis using clear_cells_view [OF inv xy(3,4) le(1,5,3), of ?a] unfolding span a by simp
  qed
  have below: "sb_inv (fold (\<lambda>y'. clear_cells [0..cX (sb_size b) - 1] y' ?a) [int y + 1..cY (sb_size b) - 1] c)
    \<and> sb_size (fold (\<lambda>y'. clear_cells [0..cX (sb_size b) - 1] y' ?a) [int y + 1..cY (sb_size b) - 1] c) = sb_size b
    \<and> sb_view (fold (\<lambda>y'. clear_cells [0..cX (sb_size b) - 1] y' ?a) [int y + 1..cY (sb_size b) - 1] c) =
       take (Suc y) (sb_view c) @ replicate (length (sb_view b) - Suc y) (blank_view ?W a)"
    if c: "sb_inv c" "sb_size c = sb_size b" for c
  proof -
    have i: "0 \<le> int y + 1" "cY (sb_size b) - 1 < cY (sb_size c)" using c(2) by simp_all
    note V = clear_rows_view [OF c(1) i, of ?a, unfolded c(2)]
    have lc: "length (sb_view c) = length (sb_view b)" using sb_invD(5) [OF c(1)] len c(2) by simp
    have e: "map (\<lambda>k. if int y + 1 \<le> int k \<and> int k \<le> cY (sb_size b) - 1 then blank_view ?W a else sb_view c ! k)
        [0..<length (sb_rows c)] = take (Suc y) (sb_view c) @ replicate (length (sb_view b) - Suc y) (blank_view ?W a)"
      using len lc by (intro nth_equalityI) (auto simp: nth_append)
    show ?thesis using V(1,2) V(3) [folded a, unfolded e] by blast
  qed
  have above: "sb_inv (fold (\<lambda>y'. clear_cells [0..cX (sb_size b) - 1] y' ?a) [0..int y - 1] b)
    \<and> sb_size (fold (\<lambda>y'. clear_cells [0..cX (sb_size b) - 1] y' ?a) [0..int y - 1] b) = sb_size b
    \<and> sb_view (fold (\<lambda>y'. clear_cells [0..cX (sb_size b) - 1] y' ?a) [0..int y - 1] b) =
       replicate y (blank_view ?W a) @ drop y (sb_view b)"
  proof -
    have j: "int y - 1 < cY (sb_size b)" using xy by simp
    have e: "map (\<lambda>k. if 0 \<le> int k \<and> int k \<le> int y - 1 then blank_view ?W a else sb_view b ! k)
        [0..<length (sb_rows b)] = replicate y (blank_view ?W a) @ drop y (sb_view b)"
      using len by (intro nth_equalityI) (auto simp: nth_append)
    note V = clear_rows_view [OF inv le(1) j, of ?a]
    show ?thesis using V(1,2) V(3) [folded a, unfolded e] by blast
  qed
  have disp: "sb_view (apply_erase_in_display mode s b) = erase_display_spec mode ?W x y a (sb_view b)
    \<and> sb_inv (apply_erase_in_display mode s b) \<and> sb_size (apply_erase_in_display mode s b) = sb_size b"
  proof -
    consider "mode = 0" | "mode = 1" | "mode = 2 \<or> mode = 3" | "mode \<notin> {0, 1, 2, 3}" by blast
    then show ?thesis
    proof cases
      case 1
      then have "apply_erase_in_display mode s b = fold (\<lambda>y'. clear_cells [0..cX (sb_size b) - 1] y' ?a)
          [int y + 1..cY (sb_size b) - 1] (clear_cells [int x..cX (sb_size b) - 1] (int y) ?a b)"
        by (simp add: apply_erase_in_display_def Let_def size h flip: x y)
      moreover have "take (Suc y) ((sb_view b)[y := v]) = take y (sb_view b) @ [v]" for v
        using len by (simp add: take_Suc_conv_app_nth)
      ultimately show ?thesis using below tail 1 by (simp add: erase_display_spec_def)
    next
      case 2
      then have "apply_erase_in_display mode s b = clear_cells [0..int x] (int y) ?a
          (fold (\<lambda>y'. clear_cells [0..cX (sb_size b) - 1] y' ?a) [0..int y - 1] b)"
        by (simp add: apply_erase_in_display_def Let_def size flip: x y)
      moreover have "(replicate y u @ drop y (sb_view b))[y := f ((replicate y u @ drop y (sb_view b)) ! y)] =
          replicate y u @ f (sb_view b ! y) # drop (Suc y) (sb_view b)" for u and f :: "line_view \<Rightarrow> line_view"
        using len(1) by (simp add: list_update_append nth_append flip: Cons_nth_drop_Suc)
      ultimately show ?thesis using head above 2 by (simp add: erase_display_spec_def)
    next
      case 3
      then have "apply_erase_in_display mode s b = sb_clear ?a b" by (auto simp: apply_erase_in_display_def Let_def)
      then show ?thesis using clear_view [OF inv, of ?a] 3 by (auto simp: erase_display_spec_def a)
    next
      case 4
      then show ?thesis using inv by (simp add: apply_erase_in_display_def erase_display_spec_def Let_def)
    qed
  qed
  have "sb_view (apply_erase_in_line mode s b) = erase_line_spec mode ?W x y a (sb_view b)
    \<and> sb_inv (apply_erase_in_line mode s b) \<and> sb_size (apply_erase_in_line mode s b) = sb_size b"
    using tail head [OF inv refl] whole inv
    by (simp add: apply_erase_in_line_def erase_line_spec_def Let_def size flip: x y)
  with disp show ?thesis by blast
qed

theorem erase_messages_refine_witness:
  "map fst (sb_view (apply_erase_in_line 0 (console_state_init\<lparr>cs_buffer_size := coord 4 2,
      cs_cursor := \<lparr>cu_size = 25, cu_visible = True, cu_position = coord 2 1, cu_pending_wrap = False\<rparr>\<rparr>)
      (sb_set_u32 (coord 1 1) 0x4E2D 0x1F (sb_new (coord 4 2))))) =
   [gspaces 4, gspaces 4]"
proof -
  let ?s = "console_state_init\<lparr>cs_buffer_size := coord 4 2,
      cs_cursor := \<lparr>cu_size = 25, cu_visible = True, cu_position = coord 2 1, cu_pending_wrap = False\<rparr>\<rparr>"
  let ?b = "sb_set_u32 (coord 1 1) 0x4E2D 0x1F (sb_new (coord 4 2))"
  have P: "sb_inv ?b" by code_simp
  have Q: "cs_buffer_size ?s = sb_size ?b" "sb_valid ?b (cs_position ?s)" "text_attribute (cs_attributes ?s) = 7"
    "int 2 = cX (cs_position ?s)" "int 1 = cY (cs_position ?s)"
    by (simp_all add: console_state_init_def init_tab_stops_def) code_simp+
  note erase_messages_refine [OF P Q(1,2) Q(3) [symmetric] Q(4,5), of 0, THEN conjunct2, THEN conjunct1]
  moreover have "map fst (erase_line_spec 0 (nat (cX (sb_size ?b))) 2 1 7 (sb_view ?b)) = [gspaces 4, gspaces 4]" by code_simp
  ultimately show ?thesis by simp
qed

end
