(* ===== verification/Dispatch_State.thy ===== *)
theory Dispatch_State
  imports Dispatch_Erase
begin

text \<open>
  What every message keeps of the console's local model: the buffer's invariant, the agreement of the
  two copies of the buffer size, and the cursor and the saved cursors inside the buffer. Three
  messages can break it (a long relative move, a tab beyond a narrow buffer, a shrinking resize with a
  saved cursor); \<open>message_fits\<close> says when they do not, and the last section shows each of them failing.
\<close>

definition dispatch_ok :: "console_state \<times> screen_buffer \<Rightarrow> bool" where
  "dispatch_ok st = (case st of (s, b) \<Rightarrow>
     sb_inv b \<and> cs_buffer_size s = sb_size b \<and> sb_valid b (cs_position s) \<and>
     (sc_has_state (cs_decsc s) \<longrightarrow> sb_valid b (sc_position (cs_decsc s))) \<and>
     (sc_has_state (cs_alt_screen s) \<longrightarrow> sb_valid b (sc_position (cs_alt_screen s))))"

text \<open>The payload of a count is a non-negative SHORT, that of a resize two SHORTs.\<close>

definition message_fits :: "vt_message_id \<Rightarrow> vt_payload \<Rightarrow> console_state \<Rightarrow> bool" where
  "message_fits ident p s =
     (case ident of
        Cursor c \<Rightarrow>
          0 \<le> payload_count p \<and> payload_count p \<le> 32767 \<and>
          (c \<in> {cursor_down, cursor_next_line} \<longrightarrow> cY (cs_position s) + payload_count p \<le> 32767) \<and>
          (c = cursor_forward \<longrightarrow> cX (cs_position s) + payload_count p \<le> 32767) \<and>
          (c = cursor_forward_tab \<longrightarrow> int (length (cs_tab_stops s)) \<le> cX (cs_buffer_size s))
      | Screen c \<Rightarrow>
          c = resize_window \<longrightarrow>
            fst (payload_resize p) \<le> 32767 \<and> snd (payload_resize p) \<le> 32767 \<and>
            (0 < fst (payload_resize p) \<and> 0 < snd (payload_resize p) \<longrightarrow>
              (\<forall>c \<in> {cs_decsc s, cs_alt_screen s}. sc_has_state c \<longrightarrow>
                 cY (sc_position c) < fst (payload_resize p) \<and> cX (sc_position c) < snd (payload_resize p)))
      | _ \<Rightarrow> True)"

section \<open>Sizes\<close>

lemma fold_frame: "(\<And>x s. g (f x s) = g s) \<Longrightarrow> g (fold f xs s) = g s"
  by (induction xs arbitrary: s) simp_all

lemma size_fill_row [simp]: "sb_size (sb_fill_row c a y b) = sb_size b"
  by (simp add: sb_fill_row_def)

lemma size_upd: "sb_size (b\<lparr>sb_rows := rs\<rparr>) = sb_size b" "sb_size (b\<lparr>sb_saved := rs\<rparr>) = sb_size b"
  by simp_all

lemma size_scroll [simp]: "sb_size (sb_scroll mv sr clip u d c a b) = sb_size b"
proof -
  have rows: "sb_size (fold (sb_fill_row c a) ys b') = sb_size b'" for ys b' by (rule fold_frame) simp
  have line: "sb_size (linearize_rows b') = sb_size b'" for b' by (simp add: linearize_rows_def)
  have ring: "sb_size (scroll_ring dy c a b') = sb_size b'" for dy b'
    by (simp add: scroll_ring_def Let_def rows)
  have mid: "sb_size (scroll_rows mv r dy c a b') = sb_size b'" for r dy b'
    by (simp add: scroll_rows_def Let_def rows)
  have fill: "sb_size (sb_fill r c a b') = sb_size b'" for r b'
  proof -
    have "sb_size (fold (\<lambda>x. sb_update y (f x)) xs s) = sb_size s" for y f s and xs :: "int list"
      by (rule fold_frame) simp
    then show ?thesis by (simp add: sb_fill_def Let_def fold_frame)
  qed
  have cells: "sb_size (scroll_cells r k dx dy c a b') = sb_size b'" for r k dx dy b'
    unfolding scroll_cells_def Let_def
    by (simp only: if_distrib [of sb_size] fold_frame [of sb_size] fill size_upd if_cancel)
  show ?thesis unfolding sb_scroll_def Let_def
    by (simp only: if_distrib [of sb_size] ring mid line cells if_cancel)
qed

lemma size_clear_cells [simp]: "sb_size (clear_cells xs y a b) = sb_size b"
  unfolding clear_cells_def by (rule fold_frame) (simp add: sb_clear_cell_def)

lemma sb_clear_cell_inv: "sb_inv b \<Longrightarrow> sb_inv (sb_clear_cell p a b)"
  using sb_inv_update_keeps [OF _ row_keeps_clear_cell] by (simp add: sb_clear_cell_def)

lemma clear_cells_inv: "sb_inv b \<Longrightarrow> sb_inv (clear_cells xs y a b)"
  unfolding clear_cells_def by (rule fold_inv [where P = sb_inv]) (rule sb_clear_cell_inv)

lemma erase_keeps:
  assumes "sb_inv b"
  shows "sb_inv (apply_erase_in_display m s b)" "sb_size (apply_erase_in_display m s b) = sb_size b"
    "sb_inv (apply_erase_in_line m s b)" "sb_size (apply_erase_in_line m s b) = sb_size b"
proof -
  have inv: "sb_inv (fold (\<lambda>y'. clear_cells xs y' a) ys b')" if "sb_inv b'" for xs a ys b'
    by (rule fold_inv [where P = sb_inv, OF clear_cells_inv that])
  have size: "sb_size (fold (\<lambda>y'. clear_cells xs y' a) ys b') = sb_size b'" for xs a ys b'
    by (rule fold_frame) simp
  have c: "sb_size (sb_clear a b) = sb_size b" for a by (simp add: sb_clear_def)
  show "sb_inv (apply_erase_in_display m s b)" "sb_size (apply_erase_in_display m s b) = sb_size b"
    "sb_inv (apply_erase_in_line m s b)" "sb_size (apply_erase_in_line m s b) = sb_size b"
    using assms
    by (simp_all add: apply_erase_in_display_def apply_erase_in_line_def Let_def inv size c clear_cells_inv clear_view(1))
qed

section \<open>Text\<close>

lemma sb_set_u32_inv: "sb_inv b \<Longrightarrow> sb_inv (sb_set_u32 p ch a b)"
  using sb_inv_update_keeps [OF _ row_keeps_write_glyph [of "[ch]"]]
  by (simp add: sb_set_u32_def sb_write_glyph_def Let_def)

lemma size_set_u32 [simp]: "sb_size (sb_set_u32 p ch a b) = sb_size b"
  by (simp add: sb_set_u32_def sb_write_glyph_def Let_def)


lemma char_width_for_mode_le:
  assumes "unicode_ok U" shows "char_width_for_mode U cp mode amb \<le> 2"
  using assms char_width_console_le
  by (cases mode) (simp_all add: char_width_for_mode_def char_width_unicode_def char_width_wcswidth_def unicode_ok_def)

lemma apply_text_loop_keeps:
  assumes "unicode_ok U" and "sb_inv b" and "cs_buffer_size s = sb_size b"
    and "0 \<le> cX pos" "cX pos < cX (sb_size b)" "0 \<le> cY pos" "cY pos \<le> cY (sb_size b)"
    and "apply_text_loop U s chs pos b = (pos', b')"
  shows "sb_inv b' \<and> sb_size b' = sb_size b \<and> 0 \<le> cX pos' \<and> cX pos' < cX (sb_size b)
    \<and> 0 \<le> cY pos' \<and> cY pos' \<le> cY (sb_size b)"
  using assms
proof (induction chs arbitrary: pos b)
  case Nil
  then show ?case by simp
next
  case (Cons ch chs)
  let ?W = "cX (sb_size b)" and ?H = "cY (sb_size b)"
  define cw0 where "cw0 = char_width_for_mode U ch (cs_text_measurement s) (cs_ambiguous_is_wide s)"
  define cw where "cw = (if cw0 < 1 then 1 else cw0)"
  define wraps where "wraps \<longleftrightarrow> cX pos + int cw > ?W"
  define pos1 where "pos1 = (if wraps then coord 0 (to_short (cY pos + 1)) else pos)"
  define b1 where "b1 = sb_set_u32 pos1 ch (cs_attributes s) b"
  define x where "x = to_short (cX pos1 + int cw)"
  define pos2 where "pos2 = (if x \<ge> ?W then coord 0 (to_short (cY pos1 + 1)) else coord x (cY pos1))"
  have cw: "1 \<le> cw" "cw \<le> 2" using char_width_for_mode_le [OF Cons.prems(1)] by (simp_all add: cw_def cw0_def)
  have dims: "1 \<le> ?W" "?W \<le> 32767" "1 \<le> ?H" "?H \<le> 32767" using sb_invD(1-4) [OF Cons.prems(2)] by simp_all
  have size: "cs_buffer_size s = sb_size b" by (rule Cons.prems(3))
  have eq: "apply_text_loop U s (ch # chs) pos b =
      (if cX pos \<ge> ?W then (pos, b) else if cY pos \<ge> ?H then (pos, b)
       else if wraps \<and> cY pos1 \<ge> ?H then (coord (cX pos1) (to_short (?H - 1)), b)
       else apply_text_loop U s chs pos2 b1)"
    by (simp only: apply_text_loop.simps(2) Let_def size pos2_def b1_def x_def pos1_def wraps_def cw_def cw0_def)
  show ?case
  proof (cases "cY pos \<ge> ?H")
    case True
    then show ?thesis using eq Cons.prems(2-8) by simp
  next
    case False
    have up: "to_short (cY pos + 1) = cY pos + 1" using False Cons.prems(6) dims by (simp add: to_short_id)
    have p1: "0 \<le> cX pos1" "cX pos1 < ?W" "0 \<le> cY pos1" "cY pos1 \<le> ?H"
      using False Cons.prems(4-7) dims up by (auto simp: pos1_def)
    show ?thesis
    proof (cases "wraps \<and> cY pos1 \<ge> ?H")
      case True
      then have "pos' = coord (cX pos1) (to_short (?H - 1))" "b' = b" using False Cons.prems(5,8) eq by auto
      moreover have "to_short (?H - 1) = ?H - 1" using dims by (simp add: to_short_id)
      ultimately show ?thesis using p1 dims Cons.prems(2) by simp
    next
      case go: False
      then have p1': "cY pos1 < ?H" using False by (auto simp: pos1_def)
      have inv1: "sb_inv b1" "sb_size b1 = sb_size b"
        unfolding b1_def by (rule sb_set_u32_inv [OF Cons.prems(2)]) simp
      have "to_short (cY pos1 + 1) = cY pos1 + 1" using p1 p1' dims by (simp add: to_short_id)
      moreover have "x = cX pos1 + int cw" if "x < ?W"
      proof (cases "cX pos1 + int cw \<le> 32767")
        case True
        then show ?thesis using p1 by (simp add: x_def to_short_id)
      next
        case False
        have "\<not> wraps"
        proof
          assume wraps
          then have "cX pos1 = 0" by (simp add: pos1_def)
          then show False using False cw by simp
        qed
        then show ?thesis using False dims by (simp add: pos1_def wraps_def)
      qed
      ultimately have p2: "0 \<le> cX pos2" "cX pos2 < ?W" "0 \<le> cY pos2" "cY pos2 \<le> ?H"
        using p1 p1' dims cw by (auto simp: pos2_def)
      have "\<not> cX pos \<ge> ?W" using Cons.prems(5) by simp
      from eq [unfolded if_not_P [OF this] if_not_P [OF False] if_not_P [OF go]] Cons.prems(8)
      have "apply_text_loop U s chs pos2 b1 = (pos', b')" by (rule trans [OF sym])
      from Cons.IH [OF Cons.prems(1) inv1(1) _ _ _ _ _ this] show ?thesis
        using inv1(2) p2 size by simp
    qed
  qed
qed


lemma in_buffer_clip:
  assumes "sb_inv b" "0 \<le> x" "x \<le> cX (sb_size b)" "0 \<le> y" "y \<le> cY (sb_size b)"
  shows "sb_valid b (coord (if x \<ge> cX (sb_size b) then to_short (cX (sb_size b) - 1) else x)
                       (if y \<ge> cY (sb_size b) then to_short (cY (sb_size b) - 1) else y))"
  using assms sb_invD(1-4) [OF assms(1)] by (simp add: sb_valid_def to_short_id)

lemma sb_valid_cong: "sb_size b' = sb_size b \<Longrightarrow> sb_valid b' = sb_valid b"
  by (simp add: sb_valid_def fun_eq_iff)

lemma dispatch_ok_frame:
  assumes "dispatch_ok (s, b)" and "sb_inv b'" and "sb_size b' = sb_size b" and "cs_buffer_size s' = cs_buffer_size s"
    and "cs_decsc s' = cs_decsc s" "cs_alt_screen s' = cs_alt_screen s" and "sb_valid b (cs_position s')"
  shows "dispatch_ok (s', b')"
  using assms sb_valid_cong [OF assms(3)] by (simp add: dispatch_ok_def)

lemma apply_text_keeps:
  assumes "unicode_ok U" and ok: "dispatch_ok (s, b)"
  shows "dispatch_ok (apply_text U chs s b)"
proof -
  obtain pos b' where r: "apply_text_loop U s chs (cs_position s) b = (pos, b')" by fastforce
  have D: "sb_inv b" "cs_buffer_size s = sb_size b" "0 \<le> cX (cs_position s)" "cX (cs_position s) < cX (sb_size b)"
    "0 \<le> cY (cs_position s)" "cY (cs_position s) \<le> cY (sb_size b)"
    using ok by (auto simp: dispatch_ok_def sb_valid_def)
  note K = apply_text_loop_keeps [OF assms(1) D r]
  have dims: "1 \<le> cY (sb_size b)" "cY (sb_size b) \<le> 32767" using sb_invD(3,4) [OF D(1)] .
  have "apply_text U chs s b =
      (set_position (coord (cX pos) (if cY pos \<ge> cY (sb_size b) then cY (sb_size b) - 1 else cY pos)) s, b')"
    using K D(2) dims by (simp add: apply_text_def r Let_def to_short_id)
  moreover have "sb_valid b (coord (cX pos) (if cY pos \<ge> cY (sb_size b) then cY (sb_size b) - 1 else cY pos))"
    using K dims by (simp add: sb_valid_def)
  ultimately show ?thesis using dispatch_ok_frame [OF ok, of b'] K by simp
qed

section \<open>Cursor moves\<close>

lemma floor0_cap [simp]: "0 \<le> floor0 v" "1 \<le> h \<Longrightarrow> h \<le> 32767 \<Longrightarrow> cap v h < h" "1 \<le> h \<Longrightarrow> h \<le> 32767 \<Longrightarrow> 0 \<le> v \<Longrightarrow> 0 \<le> cap v h"
  by (simp_all add: floor0_def cap_def to_short_id)

lemma floor0_back: "0 \<le> v \<Longrightarrow> v < h \<Longrightarrow> h \<le> 32767 \<Longrightarrow> 0 \<le> n \<Longrightarrow> n \<le> 32767 \<Longrightarrow> floor0 (to_short (v - n)) < h"
  by (simp add: floor0_def to_short_id)

lemma forward_short: "0 \<le> v \<Longrightarrow> 0 \<le> n \<Longrightarrow> v + n \<le> 32767 \<Longrightarrow> to_short (v + n) = v + n"
  by (simp add: to_short_id)

lemma next_tab_range:
  assumes "0 \<le> col" "col < w" "int (length (cs_tab_stops s)) \<le> w" "w \<le> 32767"
  shows "0 \<le> next_tab_stop col s \<and> next_tab_stop col s < w"
proof (cases "filter (\<lambda>c. cs_tab_stops s ! c) [nat (col + 1)..<length (cs_tab_stops s)]")
  case (Cons c cs)
  have "c < length (cs_tab_stops s)" using filter_upt_first [OF Cons] by simp
  then have "0 \<le> to_short (int c) \<and> to_short (int c) < w" using assms by (simp add: to_short_id)
  then show ?thesis using Cons assms by (simp add: next_tab_stop_def)
qed (use assms in \<open>simp add: next_tab_stop_def\<close>)

lemma prev_tab_range:
  assumes "0 \<le> col" "col < w" "w \<le> 32767"
  shows "0 \<le> prev_tab_stop col s \<and> prev_tab_stop col s < w"
proof -
  have "n \<le> 32767 \<Longrightarrow> 0 \<le> prev_tab_from ts n \<and> prev_tab_from ts n \<le> int n" for ts n
    by (induction n) (auto simp: to_short_id)
  moreover have "nat col \<le> 32767" using assms by linarith
  ultimately have "0 \<le> prev_tab_from (cs_tab_stops s) (nat col) \<and> prev_tab_from (cs_tab_stops s) (nat col) \<le> int (nat col)"
    by blast
  then show ?thesis using assms by (simp add: prev_tab_stop_def)
qed

lemma apply_cursor_keeps:
  assumes ok: "dispatch_ok (s, b)" and fits: "message_fits (Cursor c) p s"
  shows "dispatch_ok (apply_cursor c p s, b)"
proof -
  have D: "sb_inv b" "cs_buffer_size s = sb_size b" "0 \<le> cX (cs_position s)" "cX (cs_position s) < cX (sb_size b)"
    "0 \<le> cY (cs_position s)" "cY (cs_position s) < cY (sb_size b)"
    using ok by (auto simp: dispatch_ok_def sb_valid_def)
  have dims: "1 \<le> cX (sb_size b)" "cX (sb_size b) \<le> 32767" "1 \<le> cY (sb_size b)" "cY (sb_size b) \<le> 32767"
    using sb_invD(1-4) [OF D(1)] .
  have n: "0 \<le> payload_count p" "payload_count p \<le> 32767" using fits by (simp_all add: message_fits_def)
  have move: "dispatch_ok (set_position q s, b)" if "sb_valid b q" for q
    using dispatch_ok_frame [OF ok D(1), of "set_position q s"] that by simp
  show ?thesis
  proof (cases c)
    case cursor_down
    then have "cY (cs_position s) + payload_count p \<le> 32767" using fits by (simp add: message_fits_def)
    then show ?thesis using D dims n cursor_down
      by (auto simp: apply_cursor_def Let_def forward_short sb_valid_def intro!: move)
  next
    case cursor_next_line
    then have "cY (cs_position s) + payload_count p \<le> 32767" using fits by (simp add: message_fits_def)
    then show ?thesis using D dims n cursor_next_line
      by (auto simp: apply_cursor_def Let_def forward_short sb_valid_def intro!: move)
  next
    case cursor_forward
    then have "cX (cs_position s) + payload_count p \<le> 32767" using fits by (simp add: message_fits_def)
    then show ?thesis using D dims n cursor_forward
      by (auto simp: apply_cursor_def Let_def forward_short sb_valid_def intro!: move)
  next
    case cursor_forward_tab
    then have "int (length (cs_tab_stops s)) \<le> cX (sb_size b)" using fits D(2) by (simp add: message_fits_def)
    then show ?thesis using D dims cursor_forward_tab next_tab_range [of "cX (cs_position s)" "cX (sb_size b)" s]
      by (auto simp: apply_cursor_def Let_def sb_valid_def intro!: move)
  next
    case cursor_backward_tab
    then show ?thesis using D dims prev_tab_range [of "cX (cs_position s)" "cX (sb_size b)" s]
      by (auto simp: apply_cursor_def Let_def sb_valid_def intro!: move)
  qed (use ok D dims n in \<open>auto simp: apply_cursor_def Let_def sb_valid_def floor0_back dispatch_ok_def intro!: move\<close>)
qed


section \<open>Modes and screen messages\<close>

lemma apply_mode_frame [simp]:
  "cs_cursor (apply_mode m s) = cs_cursor s" "cs_buffer_size (apply_mode m s) = cs_buffer_size s"
  "cs_decsc (apply_mode m s) = cs_decsc s" "cs_alt_screen (apply_mode m s) = cs_alt_screen s"
  by (simp_all add: apply_mode_def set_tab_stop_def ensure_tab_capacity_def clear_tab_stop_def clear_all_tab_stops_def
      Let_def split: vt_mode_id.split)

text \<open>A resize: the viewport set before the call does not matter, since the call clamps it.\<close>

lemma sb_rows_viewport: "sb_rows (b\<lparr>sb_viewport := v\<rparr>) = sb_rows b"
  by simp

lemma fold_rows_viewport:
  "fold (\<lambda>y b. b\<lparr>sb_rows := F y (sb_rows b)\<rparr>) ys (b\<lparr>sb_viewport := v\<rparr>) =
     (fold (\<lambda>y b. b\<lparr>sb_rows := F y (sb_rows b)\<rparr>) ys b)\<lparr>sb_viewport := v\<rparr>"
proof (induction ys arbitrary: b)
  case (Cons y ys)
  have "b\<lparr>sb_viewport := v, sb_rows := F y (sb_rows b)\<rparr> = b\<lparr>sb_rows := F y (sb_rows b), sb_viewport := v\<rparr>" by simp
  then show ?case
    using Cons.IH [of "b\<lparr>sb_rows := F y (sb_rows b)\<rparr>"] by (simp only: fold_simps screen_buffer.simps sb_rows_viewport)
qed simp

lemma sb_resize_viewport:
  assumes ne: "sz \<noteq> sb_size b" and pos: "1 \<le> cX sz" "1 \<le> cY sz"
  shows "sb_resize sz (b\<lparr>sb_viewport := v\<rparr>) = (sb_resize sz b)\<lparr>sb_viewport := fst (vp_clamp_to_buffer sz v)\<rparr>"
    "sb_size (sb_resize sz b) = sz"
proof -
  have sz: "coord (if cX sz < 1 then 1 else cX sz) (if cY sz < 1 then 1 else cY sz) = sz" using pos by (cases sz) simp
  have lin: "linearize_rows (b\<lparr>sb_viewport := v\<rparr>) = (linearize_rows b)\<lparr>sb_viewport := v\<rparr>"
    by (simp add: linearize_rows_def)
  have ens: "sb_ensure_rows (c\<lparr>sb_viewport := u\<rparr>) = (sb_ensure_rows c)\<lparr>sb_viewport := u\<rparr>" for c u
    by (simp add: sb_ensure_rows_def)
  have "sb_size (sb_ensure_rows (c\<lparr>sb_size := sz, sb_viewport := u\<rparr>)) = sz" for c u by (simp add: sb_ensure_rows_def)
  then show "sb_size (sb_resize sz b) = sz"
    unfolding sb_resize_def sz Let_def if_not_P [OF ne] by (simp only: fold_frame [of sb_size] size_upd)
  let ?F = "\<lambda>y rs. rs[y := copy_from (sb_rows (linearize_rows b) ! y) 0 0 (to_u16 (cX (sb_size (linearize_rows b)))) (rs ! y)]"
  show "sb_resize sz (b\<lparr>sb_viewport := v\<rparr>) = (sb_resize sz b)\<lparr>sb_viewport := fst (vp_clamp_to_buffer sz v)\<rparr>"
    unfolding sb_resize_def sz Let_def
    using ne by (simp add: lin ens fold_rows_viewport [where F = ?F])
qed

lemma apply_resize_keeps:
  assumes ok: "dispatch_ok (s, b)" and fits: "message_fits (Screen resize_window) p s" and p: "payload_resize p = (rows, cols)"
  shows "dispatch_ok (apply_resize rows cols s b)"
proof (cases "rows > 0 \<and> cols > 0")
  case False
  show ?thesis unfolding apply_resize_def if_not_P [OF False] by (rule ok)
next
  case True
  have D: "sb_inv b" "cs_buffer_size s = sb_size b" "0 \<le> cX (cs_position s)" "0 \<le> cY (cs_position s)"
    using ok by (auto simp: dispatch_ok_def sb_valid_def)
  have F: "rows \<le> 32767" "cols \<le> 32767"
    "\<forall>c \<in> {cs_decsc s, cs_alt_screen s}. sc_has_state c \<longrightarrow> cY (sc_position c) < rows \<and> cX (sc_position c) < cols"
    using fits True by (simp_all add: message_fits_def p)
  let ?sz = "coord cols rows" and ?v = "vp_reset_to_buffer (coord cols rows)"
  have sz: "short_coord ?sz" using F True by (simp add: short_coord_def is_short_def)
  have v: "vp_valid ?sz ?v" using F True by (simp add: vp_valid_def vp_reset_to_buffer_def valid_dimension_def to_short_id)
  let ?b = "sb_resize ?sz (b\<lparr>sb_viewport := ?v\<rparr>)"
  have b: "sb_inv ?b \<and> sb_size ?b = ?sz"
  proof (cases "?sz = sb_size b")
    case True
    have "coord (if cX ?sz < 1 then 1 else cX ?sz) (if cY ?sz < 1 then 1 else cY ?sz) = sb_size (b\<lparr>sb_viewport := ?v\<rparr>)"
      using \<open>rows > 0 \<and> cols > 0\<close> by (simp add: True [symmetric])
    then have "?b = b\<lparr>sb_viewport := ?v\<rparr>" by (simp only: sb_resize_def Let_def if_True refl)
    then show ?thesis using D(1) v True by (simp add: sb_inv_def sb_shape_def sb_ok_def)
  next
    case False
    have pos: "1 \<le> cX ?sz" "1 \<le> cY ?sz" using True by simp_all
    note R = sb_resize_viewport(1) [OF False pos, of ?v] sb_resize_viewport(2) [OF False pos]
    have "sb_inv (sb_resize ?sz b)" using sb_resize_inv [OF D(1)] F by simp
    moreover have "vp_valid ?sz (fst (vp_clamp_to_buffer ?sz ?v))"
      unfolding vp_clamp_to_buffer_def by (rule set_rect_valid [OF sz])
    ultimately show ?thesis unfolding R(1) using R(2) by (simp add: sb_inv_def sb_shape_def sb_ok_def)
  qed
  have saved: "sb_valid ?b (sc_position c)" if "c \<in> {cs_decsc s, cs_alt_screen s}" "sc_has_state c" for c
    using that F(3) ok b by (auto simp: sb_valid_def dispatch_ok_def)
  show ?thesis
    using True b D F(1,2) saved
    by (simp add: apply_resize_def Let_def dispatch_ok_def init_tab_stops_def clear_all_tab_stops_def sb_valid_def
        set_position_def to_short_id)
qed

lemma apply_screen_keeps:
  assumes ok: "dispatch_ok (s, b)" and fits: "message_fits (Screen c) p s"
  shows "dispatch_ok (apply_screen mv c p s b)"
proof -
  have D: "sb_inv b" "sb_valid b (cs_position s)" using ok by (auto simp: dispatch_ok_def)
  have keep: "dispatch_ok (s, b')" if "sb_inv b'" "sb_size b' = sb_size b" for b'
    using dispatch_ok_frame [OF ok that] D(2) by simp
  have scroll: "dispatch_ok (s, apply_scroll mv dy s b)" for dy
    unfolding apply_scroll_def Let_def by (rule keep [OF sb_scroll_inv [OF D(1)]]) simp
  show ?thesis
  proof (cases "c = resize_window")
    case True
    then show ?thesis using apply_resize_keeps [OF ok] fits by (cases "payload_resize p") (simp add: apply_screen_def)
  next
    case False
    then show ?thesis
      using ok scroll keep erase_keeps [OF D(1)]
      by (cases c) (auto simp: apply_screen_def dispatch_ok_def)
  qed
qed

section \<open>The invariant\<close>

text \<open>C25: Every message keeps the console's local model sound, provided its payload fits: the screen buffer's
  invariant, the size the state records and the size of the buffer, the cursor inside the buffer, and
  the saved cursors inside it.\<close>
theorem dispatch_keeps_invariant:
  assumes ok: "dispatch_ok (s, b)" and "unicode_ok U" and fits: "message_fits ident (m_payload msg) s"
  shows "dispatch_ok (vt_msg_apply_state U mv ident msg (s, b))"
proof -
  have D: "sb_inv b" "cs_buffer_size s = sb_size b" "sb_valid b (cs_position s)" using ok by (auto simp: dispatch_ok_def)
  have dims: "1 \<le> cX (sb_size b)" "1 \<le> cY (sb_size b)" "cY (sb_size b) \<le> 32767" using sb_invD(1,3,4) [OF D(1)] .
  have keep: "dispatch_ok (s', b)"
    if "cs_buffer_size s' = cs_buffer_size s" "cs_decsc s' = cs_decsc s" "cs_alt_screen s' = cs_alt_screen s"
      "sb_valid b (cs_position s')" for s'
    using dispatch_ok_frame [OF ok D(1) refl that] .
  have lf: "to_short (cY (cs_position s) + 1) = cY (cs_position s) + 1"
    using D(3) dims by (simp add: sb_valid_def to_short_id)
  show ?thesis
  proof (cases ident)
    case text_msg
    then show ?thesis using apply_text_keeps [OF assms(2) ok] by (simp add: vt_msg_apply_state_def)
  next
    case (Cursor c)
    then show ?thesis using apply_cursor_keeps [OF ok] fits by (simp add: vt_msg_apply_state_def)
  next
    case (Screen c)
    then show ?thesis using apply_screen_keeps [OF ok] fits by (simp add: vt_msg_apply_state_def)
  next
    case (Mode m)
    then show ?thesis using keep [of "apply_mode m s"] D by (simp add: vt_msg_apply_state_def)
  qed (use ok D dims lf in \<open>auto simp: vt_msg_apply_state_def sb_valid_def intro!: keep\<close>)
qed

theorem dispatch_keeps_invariant_witness:
  "dispatch_ok (vt_msg_apply_state sample_unicode (\<lambda>_. row_empty) (Cursor cursor_down)
     \<lparr>m_payload = P_count 40, m_key_modifier = 1\<rparr>
     (console_state_init\<lparr>cs_buffer_size := coord 6 4, cs_tab_stops := []\<rparr>, sb_new (coord 6 4)))"
proof -
  let ?s = "console_state_init\<lparr>cs_buffer_size := coord 6 4, cs_tab_stops := []\<rparr>"
  have "sb_inv (sb_new (coord 6 4))" "sb_size (sb_new (coord 6 4)) = coord 6 4" by code_simp+
  then have ok: "dispatch_ok (?s, sb_new (coord 6 4))"
    by (simp add: dispatch_ok_def sb_valid_def console_state_init_def init_tab_stops_def saved_cursor_init_def)
  have "message_fits (Cursor cursor_down) (m_payload \<lparr>m_payload = P_count 40, m_key_modifier = 1\<rparr>) ?s"
    by (simp add: message_fits_def payload_count_def console_state_init_def init_tab_stops_def)
  from dispatch_keeps_invariant [OF ok sample_unicode_ok this] show ?thesis .
qed


section \<open>Where the invariant fails\<close>

abbreviation count_message :: "int \<Rightarrow> vt_message" where
  "count_message n \<equiv> \<lparr>m_payload = P_count n, m_key_modifier = 1\<rparr>"

lemma to_short_wrap: "32768 \<le> v \<Longrightarrow> v \<le> 98303 \<Longrightarrow> to_short v = v - 65536"
proof -
  assume v: "32768 \<le> v" "v \<le> 98303"
  have "(v - 32768 + 65536) mod 65536 = (v - 32768) mod 65536" by (rule mod_add_self2)
  also have "\<dots> = v - 32768" using v by simp
  also have "v - 32768 + 65536 = v + 32768" by simp
  finally show ?thesis unfolding to_short_def by simp
qed

lemma next_default_tab:
  assumes ts: "cs_tab_stops s = set_every_tab 0 (replicate n False)" and n: "n \<le> 32768"
    and w: "0 \<le> w" "w mod 8 = 0" "w < int n" and x: "0 \<le> x" "w - 8 \<le> x" "x < w"
  shows "next_tab_stop x s = w"
proof -
  have stop: "cs_tab_stops s ! c = (c mod 8 = 0)" if "c < n" for c
    using that by (simp add: ts set_every_tab_nth tab_width_def)
  have len: "length (cs_tab_stops s) = n" by (simp add: ts)
  obtain k where k: "w = int k" using w(1) nonneg_int_cases by blast
  have "int (k mod 8) = 0" using w(2) by (simp add: k zmod_int)
  then have "nat w mod 8 = 0" by (simp add: k)
  then have "nat w \<in> set (filter (\<lambda>c. cs_tab_stops s ! c) [nat (x + 1)..<n])"
  proof -
    have "nat (x + 1) \<le> nat w" "nat w < n" using w x by linarith+
    then show ?thesis using \<open>nat w mod 8 = 0\<close> by (simp add: stop)
  qed
  then obtain c cs where c: "filter (\<lambda>c. cs_tab_stops s ! c) [nat (x + 1)..<n] = c # cs"
    by (cases "filter (\<lambda>c. cs_tab_stops s ! c) [nat (x + 1)..<n]") auto
  note F = filter_upt_first [OF c]
  have "c = nat w"
  proof (rule ccontr)
    assume ne: "c \<noteq> nat w"
    have "nat (x + 1) \<le> nat w" "cs_tab_stops s ! nat w" using w x \<open>nat w mod 8 = 0\<close> by (simp_all add: stop)
    then have "\<not> nat w < c" using F by blast
    with ne have "c < nat w" by simp
    moreover have "c mod 8 = 0" using F stop [of c] by blast
    moreover have "nat w < c + 8" using F x w by linarith
    ultimately show False using \<open>nat w mod 8 = 0\<close> unfolding k nat_int by presburger
  qed
  moreover have "to_short w = w" using w n by (simp add: to_short_id)
  ultimately show ?thesis using c w x by (simp add: next_tab_stop_def len)
qed

text \<open>C26: The comment at the cursor position says it stays inside the buffer; four messages leave it. A relative
  move down by 32767 from any row but the first wraps around the SHORT to a negative row, since only the
  far edge is tested afterwards; a move up by -1, which a parameter of 65535 gives, passes the last row; a
  forward tab in the last eight columns of a buffer less than 120 columns wide (and a multiple of 8) stops at the column
  after the last one; and restoring a cursor saved in rows that a resize removed sets it there.\<close>
theorem cursor_leaves_buffer:
  assumes ok: "dispatch_ok (s, b)" and tabs: "cs_tab_stops s = cs_tab_stops (init_tab_stops s)"
    and narrow: "cX (sb_size b) < 120" "cX (sb_size b) mod 8 = 0"
  shows "(0 < cY (cs_position s) \<longrightarrow>
      cY (cs_position (fst (vt_msg_apply_state U mv (Cursor cursor_down) (count_message 32767) (s, b)))) < 0)
    \<and> (cY (cs_position s) = cY (sb_size b) - 1 \<longrightarrow>
      cY (cs_position (fst (vt_msg_apply_state U mv (Cursor cursor_up) (count_message (-1)) (s, b)))) = cY (sb_size b))
    \<and> (cX (sb_size b) - 8 \<le> cX (cs_position s) \<longrightarrow>
      cX (cs_position (fst (vt_msg_apply_state U mv (Cursor cursor_forward_tab) msg (s, b)))) = cX (sb_size b))
    \<and> (1 < cY (sb_size b) \<longrightarrow> cY (cs_position s) = cY (sb_size b) - 1 \<longrightarrow>
      (case vt_msg_apply_state U mv (Cursor restore_cursor) msg
              (vt_msg_apply_state U mv (Screen resize_window)
                 \<lparr>m_payload = P_resize (cY (sb_size b) - 1) (cX (sb_size b)), m_key_modifier = 1\<rparr>
                 (vt_msg_apply_state U mv (Cursor save_cursor) msg (s, b))) of
         (s', b') \<Rightarrow> \<not> sb_valid b' (cs_position s')))"
proof (intro conjI impI)
  have D: "sb_inv b" "cs_buffer_size s = sb_size b" "0 \<le> cX (cs_position s)" "cX (cs_position s) < cX (sb_size b)"
    "0 \<le> cY (cs_position s)" "cY (cs_position s) < cY (sb_size b)"
    using ok by (auto simp: dispatch_ok_def sb_valid_def)
  note dims = sb_invD(1-4) [OF D(1)]
  show "cY (cs_position (fst (vt_msg_apply_state U mv (Cursor cursor_down) (count_message 32767) (s, b)))) < 0"
    if "0 < cY (cs_position s)"
  proof -
    have "to_short (cY (cs_position s) + 32767) = cY (cs_position s) + 32767 - 65536"
      using that D dims by (intro to_short_wrap) simp_all
    then show ?thesis using that D dims by (simp add: vt_msg_apply_state_def apply_cursor_def payload_count_def Let_def cap_def)
  qed
  show "cY (cs_position (fst (vt_msg_apply_state U mv (Cursor cursor_up) (count_message (-1)) (s, b)))) = cY (sb_size b)"
    if "cY (cs_position s) = cY (sb_size b) - 1"
    using that dims by (simp add: vt_msg_apply_state_def apply_cursor_def payload_count_def Let_def floor0_def to_short_id)
  have ts: "cs_tab_stops s = set_every_tab 0 (replicate 120 False)"
    using tabs narrow D(2) by (simp add: init_tab_stops_def default_console_size_def)
  show "cX (cs_position (fst (vt_msg_apply_state U mv (Cursor cursor_forward_tab) msg (s, b)))) = cX (sb_size b)"
    if "cX (sb_size b) - 8 \<le> cX (cs_position s)"
    using next_default_tab [OF ts, of "cX (sb_size b)" "cX (cs_position s)"] that D dims narrow
    by (simp add: vt_msg_apply_state_def apply_cursor_def Let_def)
  show "case vt_msg_apply_state U mv (Cursor restore_cursor) msg
              (vt_msg_apply_state U mv (Screen resize_window)
                 \<lparr>m_payload = P_resize (cY (sb_size b) - 1) (cX (sb_size b)), m_key_modifier = 1\<rparr>
                 (vt_msg_apply_state U mv (Cursor save_cursor) msg (s, b))) of
         (s', b') \<Rightarrow> \<not> sb_valid b' (cs_position s')"
    if h: "1 < cY (sb_size b)" "cY (cs_position s) = cY (sb_size b) - 1"
  proof -
    let ?sz = "coord (cX (sb_size b)) (cY (sb_size b) - 1)"
    have "cY ?sz \<noteq> cY (sb_size b)" by simp
    then have ne: "?sz \<noteq> sb_size b" by metis
    have pos: "1 \<le> cX ?sz" "1 \<le> cY ?sz" using h(1) dims by simp_all
    have size: "sb_size (sb_resize ?sz (b\<lparr>sb_viewport := v\<rparr>)) = ?sz" for v
      unfolding sb_resize_viewport(1) [OF ne pos] using sb_resize_viewport(2) [OF ne pos] by simp
    show ?thesis using h dims size
      by (simp add: vt_msg_apply_state_def apply_cursor_def apply_screen_def apply_resize_def payload_resize_def Let_def
          init_tab_stops_def clear_all_tab_stops_def set_position_def sb_valid_def)
  qed
qed

theorem cursor_leaves_buffer_witness:
  "cX (cs_position (fst (vt_msg_apply_state sample_unicode (\<lambda>_. row_empty) (Cursor cursor_forward_tab) vt_message_init
     (init_tab_stops (console_state_init\<lparr>cs_buffer_size := coord 8 2\<rparr>), sb_new (coord 8 2))))) = 8"
proof -
  let ?s = "init_tab_stops (console_state_init\<lparr>cs_buffer_size := coord 8 2\<rparr>)" and ?b = "sb_new (coord 8 2)"
  have b: "sb_inv ?b" "sb_size ?b = coord 8 2" by code_simp+
  then have ok: "dispatch_ok (?s, ?b)"
    by (simp add: dispatch_ok_def sb_valid_def console_state_init_def init_tab_stops_def saved_cursor_init_def)
  have ts: "cs_tab_stops ?s = cs_tab_stops (init_tab_stops ?s)" by (simp add: init_tab_stops_def)
  have "cX (sb_size ?b) < 120" "cX (sb_size ?b) mod 8 = 0" "cX (sb_size ?b) - 8 \<le> cX (cs_position ?s)"
    by (simp_all add: b console_state_init_def init_tab_stops_def)
  from cursor_leaves_buffer [OF ok ts this(1,2), THEN conjunct2, THEN conjunct2, THEN conjunct1, THEN mp, OF this(3)] b
  show ?thesis by simp
qed

end
