(* ===== verification/Terminal_Sync.thy ===== *)
theory Terminal_Sync
  imports Dispatch_State Terminal_Cursor Input_Buffer Vt_Output
begin

text \<open>
  The terminal changes under the model (\<open>pipe_bridge\<close>, \<open>libcorehost/pipe_bridge.hpp\<close>): it is resized or cleared, and it
  is asked where its cursor is now. The queries go out with the output; their replies are taken out of
  the input before anything else sees it, and move the model. Left out: the log, and the completion of a pending
  \<open>GetConsoleInput\<close> after a size event is queued.
\<close>

section \<open>State\<close>

text \<open>\<open>ss_alt\<close> is the active alternate buffer, \<open>None\<close> when the main buffer is active; \<open>ss_window_input\<close> is the mode bit
  \<open>ENABLE_WINDOW_INPUT\<close>.\<close>

record 'r session =
  ss_console :: console_state
  ss_main :: screen_buffer
  ss_alt :: "screen_buffer option"
  ss_term :: terminal_cursor_state
  ss_input :: "'r input_buffer"
  ss_window_input :: bool
  ss_out :: vt_out
  ss_output_valid :: bool
  ss_written :: "nat list"
  ss_sync_outstanding :: int
  ss_sync_cursor :: coord
  ss_cell_outstanding :: int
  ss_cell_px :: "nat \<times> nat"
  ss_sync_wanted :: bool
  ss_mid_sequence :: bool

definition active_screen_buffer :: "'r session \<Rightarrow> screen_buffer" where
  "active_screen_buffer s = (case ss_alt s of Some b \<Rightarrow> b | None \<Rightarrow> ss_main s)"

definition on_active :: "(screen_buffer \<Rightarrow> screen_buffer) \<Rightarrow> 'r session \<Rightarrow> 'r session" where
  "on_active f s = (case ss_alt s of Some b \<Rightarrow> s\<lparr>ss_alt := Some (f b)\<rparr> | None \<Rightarrow> s\<lparr>ss_main := f (ss_main s)\<rparr>)"

abbreviation on_console :: "(console_state \<Rightarrow> console_state) \<Rightarrow> 'r session \<Rightarrow> 'r session" where
  "on_console f s \<equiv> s\<lparr>ss_console := f (ss_console s)\<rparr>"

abbreviation on_terminal :: "(terminal_cursor_state \<Rightarrow> terminal_cursor_state) \<Rightarrow> 'r session \<Rightarrow> 'r session" where
  "on_terminal f s \<equiv> s\<lparr>ss_term := f (ss_term s)\<rparr>"

abbreviation on_output :: "(vt_out \<Rightarrow> vt_out) \<Rightarrow> 'r session \<Rightarrow> 'r session" where
  "on_output f s \<equiv> s\<lparr>ss_out := f (ss_out s)\<rparr>"

abbreviation ss_position :: "'r session \<Rightarrow> coord" where
  "ss_position s \<equiv> cs_position (ss_console s)"

definition ss_flush :: "'r session \<Rightarrow> 'r session" where
  "ss_flush s =
     (let (out, bytes) = out_flush (ss_output_valid s) (ss_out s)
      in s\<lparr>ss_out := out, ss_written := ss_written s @ bytes\<rparr>)"

definition relative_cursor :: "'r session \<Rightarrow> coord" where
  "relative_cursor s = vp_relative_position (ss_position s) (sb_viewport (active_screen_buffer s))"

section \<open>Queries\<close>

definition term_cursor_set :: "coord \<Rightarrow> 'r session \<Rightarrow> 'r session" where
  "term_cursor_set c = on_terminal (tc_set_cursor c)"

text \<open>\<open>if (_terminal.cursor_valid()) term_cursor_set(...)\<close> with the cursor of the model.\<close>

definition track_cursor :: "'r session \<Rightarrow> 'r session" where
  "track_cursor s = (if tc_cursor_valid (ss_term s) then term_cursor_set (relative_cursor s) s else s)"

definition mark_terminal_cursor_lost :: "'r session \<Rightarrow> 'r session" where
  "mark_terminal_cursor_lost s = on_terminal tc_invalidate (on_output (\<lambda>o'. o'\<lparr>vo_cursor_lost := True\<rparr>) s)"

definition request_cell_size :: "'r session \<Rightarrow> 'r session" where
  "request_cell_size s =
     on_output (vt_append_str (0x1B # asc ''[16t'')) (s\<lparr>ss_cell_outstanding := ss_cell_outstanding s + 1\<rparr>)"

definition request_cursor_sync :: "'r session \<Rightarrow> 'r session" where
  "request_cursor_sync s =
     request_cell_size (on_output vt_write_dsr_cpr
       (s\<lparr>ss_sync_cursor := relative_cursor s, ss_sync_outstanding := ss_sync_outstanding s + 1\<rparr>))"

definition want_cursor_sync :: "'r session \<Rightarrow> 'r session" where
  "want_cursor_sync s = s\<lparr>ss_sync_wanted := True\<rparr>"

definition send_wanted_cursor_sync :: "'r session \<Rightarrow> 'r session" where
  "send_wanted_cursor_sync s =
     (if \<not> ss_sync_wanted s \<or> ss_mid_sequence s then s else request_cursor_sync (s\<lparr>ss_sync_wanted := False\<rparr>))"

definition set_raw_output_mid_sequence :: "bool \<Rightarrow> 'r session \<Rightarrow> 'r session" where
  "set_raw_output_mid_sequence mid s = s\<lparr>ss_mid_sequence := mid\<rparr>"

text \<open>After a write: where the terminal's cursor is, and where the next cooked line starts.\<close>

definition sync_cursor_after_write :: "coord \<Rightarrow> bool \<Rightarrow> 'r session \<Rightarrow> 'r session" where
  "sync_cursor_after_write pos track_terminal_cursor s =
     (let terminal_pos = vp_relative_position pos (sb_viewport (active_screen_buffer s));
          s1 = (if track_terminal_cursor \<and> vo_cursor_lost (ss_out s) then on_terminal tc_invalidate s
                else if track_terminal_cursor then term_cursor_set terminal_pos s else s)
      in on_terminal (tc_reset_bounds (cX terminal_pos)) s1)"

section \<open>Resize and clear\<close>

text \<open>The rows in use: down to the cursor, or to the last row with text below it.\<close>

fun last_used_row :: "screen_buffer \<Rightarrow> int \<Rightarrow> nat \<Rightarrow> int" where
  "last_used_row b used 0 = used"
| "last_used_row b used (Suc k) =
     (let y = used + int k in if sb_row_has_text b y then to_short (y + 1) else last_used_row b used k)"

definition used_rows :: "'r session \<Rightarrow> int" where
  "used_rows s =
     (let b = active_screen_buffer s; used = to_short (cY (ss_position s) + 1)
      in last_used_row b used (nat (cY (sb_size b) - used)))"

definition resize_buffer :: "coord \<Rightarrow> screen_buffer \<Rightarrow> screen_buffer" where
  "resize_buffer new_size b = sb_resize new_size (b\<lparr>sb_viewport := vp_reset_to_buffer new_size\<rparr>)"

definition clear_pending_wrap :: "'r session \<Rightarrow> 'r session" where
  "clear_pending_wrap s = on_console (\<lambda>c. c\<lparr>cs_cursor := (cs_cursor c)\<lparr>cu_pending_wrap := False\<rparr>\<rparr>) s"

definition resize_shift :: "coord \<Rightarrow> 'r session \<Rightarrow> int" where
  "resize_shift new_size s = (let used = used_rows s in if used > cY new_size then to_short (used - cY new_size) else 0)"

text \<open>The three parts of \<open>apply_terminal_resize\<close>: rows leave at the top, the buffers get the new size, the cursor is tracked and asked for.\<close>

definition resize_scroll :: "(row \<Rightarrow> row) \<Rightarrow> int \<Rightarrow> 'r session \<Rightarrow> 'r session" where
  "resize_scroll mv shift s =
     (if shift > 0
      then on_console (\<lambda>c. set_y (to_short (cY (cs_position c) - shift)) c)
             (on_active (sb_shift_rows mv (to_short (- shift)) (cs_attributes (ss_console s))) s)
      else s)"

definition resize_buffers :: "coord \<Rightarrow> 'r session \<Rightarrow> 'r session" where
  "resize_buffers new_size s =
     (let s1 = on_active (resize_buffer new_size)
                 (on_console (\<lambda>c. c\<lparr>cs_buffer_size := new_size, cs_max_window_size := new_size\<rparr>) s);
          s2 = (if ss_alt s1 \<noteq> None then s1\<lparr>ss_main := resize_buffer new_size (ss_main s1)\<rparr> else s1);
          s3 = (if sc_has_state (cs_alt_screen (ss_console s2)) \<or> ss_alt s2 \<noteq> None
                then on_console (\<lambda>c. c\<lparr>cs_resized_in_alt_screen := True\<rparr>) s2 else s2)
      in on_console clamp_cursor_to_buffer s3)"

definition resize_notify :: "(coord \<Rightarrow> 'r) \<Rightarrow> coord \<Rightarrow> int \<Rightarrow> 'r session \<Rightarrow> 'r session" where
  "resize_notify size_event new_size shift s =
     (let s1 = on_terminal (tc_shift_enter_dest (to_short (- shift)) (cY new_size)) (track_cursor s);
          s2 = (if ss_window_input s1 then s1\<lparr>ss_input := fst (ib_write [size_event new_size] (ss_input s1))\<rparr> else s1)
      in ss_flush (send_wanted_cursor_sync (want_cursor_sync s2)))"

definition apply_terminal_resize :: "(row \<Rightarrow> row) \<Rightarrow> (coord \<Rightarrow> 'r) \<Rightarrow> coord \<Rightarrow> 'r session \<Rightarrow> 'r session" where
  "apply_terminal_resize mv size_event new_size s0 =
     (let s = clear_pending_wrap s0; shift = resize_shift new_size s
      in resize_notify size_event new_size shift (resize_buffers new_size (resize_scroll mv shift s)))"

definition blank_rows :: "attr \<Rightarrow> coord \<Rightarrow> nat \<Rightarrow> screen_buffer \<Rightarrow> screen_buffer" where
  "blank_rows attr start count b = fst (sb_fill_attr attr start count (fst (sb_fill_char 0x20 start count b)))"

definition apply_terminal_clear :: "(row \<Rightarrow> row) \<Rightarrow> bool \<Rightarrow> 'r session \<Rightarrow> 'r session" where
  "apply_terminal_clear mv keep_cursor_row s0 =
     (let view = sb_viewport (active_screen_buffer s0);
          attr = cs_attributes (ss_console s0);
          s = clear_pending_wrap s0;
          s1 = (if keep_cursor_row
                then
                  let a1 = on_active (sb_shift_rows mv (to_short (rTop view - cY (ss_position s))) attr) s;
                      a2 = on_console (set_y (rTop view)) a1;
                      b = active_screen_buffer a2;
                      cols = nat (cX (sb_size b));
                      a3 = (if rTop view > 0 then on_active (blank_rows attr (coord 0 0) (cols * nat (rTop view))) a2 else a2);
                      below = to_short (rTop view + 1)
                  in if below < cY (sb_size b)
                     then on_active (blank_rows attr (coord 0 below) (cols * nat (cY (sb_size b) - below))) a3
                     else a3
                else on_console (set_position (coord (rLeft view) (rTop view))) (on_active (sb_clear attr) s))
      in track_cursor (on_terminal tc_reset_enter_newline s1))"

section \<open>Replies\<close>

text \<open>A number of one to five digits with its end, as both replies have two of them.\<close>

definition reply_number :: "nat \<Rightarrow> nat list \<Rightarrow> (nat \<times> nat list) option" where
  "reply_number sep data =
     (let ds = takeWhile (\<lambda>c. 0x30 \<le> c \<and> c \<le> 0x39) (take 5 data); rest = drop (length ds) data
      in if ds = [] \<or> rest = [] \<or> hd rest \<noteq> sep then None
         else Some (foldl (\<lambda>v d. v * 10 + (d - 0x30)) 0 ds, tl rest))"

definition match_reply :: "nat list \<Rightarrow> nat \<Rightarrow> nat \<Rightarrow> nat list \<Rightarrow> (nat \<times> nat \<times> nat) option" where
  "match_reply prefix min_len final data =
     (if length data < min_len \<or> take (length prefix) data \<noteq> prefix then None
      else case reply_number 0x3B (drop (length prefix) data) of
             None \<Rightarrow> None
           | Some (a, rest1) \<Rightarrow>
               (case reply_number final rest1 of
                  None \<Rightarrow> None
                | Some (b, rest2) \<Rightarrow> if a = 0 \<or> b = 0 then None else Some (length data - length rest2, a, b)))"

definition match_cell_size_reply :: "nat list \<Rightarrow> (nat \<times> nat \<times> nat) option" where
  "match_cell_size_reply data =
     map_option (\<lambda>(n, h, w). (n, w, h)) (match_reply [0x1B, 0x5B, 0x36, 0x3B] 8 0x74 data)"

definition match_cpr_reply :: "nat list \<Rightarrow> (nat \<times> coord) option" where
  "match_cpr_reply data =
     map_option (\<lambda>(n, row, col). (n, coord (to_short (int col - 1)) (to_short (int row - 1))))
       (match_reply [0x1B, 0x5B] 6 0x52 data)"

text \<open>The model moves by what the cursor of the terminal is off.\<close>

definition finish_resize_sync :: "(row \<Rightarrow> row) \<Rightarrow> coord \<Rightarrow> 'r session \<Rightarrow> 'r session" where
  "finish_resize_sync mv reported s =
     (let dx = to_short (cX reported - cX (ss_sync_cursor s));
          dy = to_short (cY reported - cY (ss_sync_cursor s))
      in if dx = 0 \<and> dy = 0 then s
         else
           let s1 = on_active (sb_shift_rows mv dy (cs_attributes (ss_console s))) s;
               s2 = on_console (\<lambda>c. set_position (coord (to_short (cX (cs_position c) + dx)) (to_short (cY (cs_position c) + dy))) c) s1;
               s3 = track_cursor (on_console clamp_cursor_to_buffer s2)
           in on_terminal (tc_shift_enter_dest dy (cY (sb_size (active_screen_buffer s3)))) s3)"

text \<open>The reply at the head of the input, if there is one that is waited for: what is left of the input, and the state.\<close>

definition take_reply :: "(row \<Rightarrow> row) \<Rightarrow> nat list \<Rightarrow> 'r session \<Rightarrow> (nat list \<times> 'r session) option" where
  "take_reply mv data s =
     (case (if ss_sync_outstanding s > 0 \<and> hd data = 0x1B then match_cpr_reply data else None) of
        Some (n, reported) \<Rightarrow>
          let s1 = s\<lparr>ss_sync_outstanding := ss_sync_outstanding s - 1\<rparr>
          in Some (drop n data, if ss_sync_outstanding s1 = 0 then finish_resize_sync mv reported s1 else s1)
      | None \<Rightarrow>
          (case (if ss_cell_outstanding s > 0 \<and> hd data = 0x1B then match_cell_size_reply data else None) of
             Some (n, w, h) \<Rightarrow>
               Some (drop n data, s\<lparr>ss_cell_outstanding := ss_cell_outstanding s - 1, ss_cell_px := (w, h)\<rparr>)
           | None \<Rightarrow> None))"

lemma match_reply_length: "match_reply prefix m final data = Some (n, a, b) \<Longrightarrow> 0 < n \<and> 0 < length data"
proof -
  have num: "reply_number sep d = Some (v, rest) \<Longrightarrow> length rest < length d" for sep d v rest
    by (auto simp: reply_number_def Let_def split: if_splits)
  assume m: "match_reply prefix m final data = Some (n, a, b)"
  then obtain v1 r1 v2 r2 where "reply_number 0x3B (drop (length prefix) data) = Some (v1, r1)" "reply_number final r1 = Some (v2, r2)"
    "n = length data - length r2"
    by (auto simp: match_reply_def split: if_splits option.splits)
  then show "0 < n \<and> 0 < length data" using num by (metis gr_zeroI length_drop less_diff_conv less_nat_zero_code less_trans add_lessD1 zero_less_diff)
qed

lemma take_reply_shorter: "take_reply mv data s = Some (rest, s') \<Longrightarrow> length rest < length data"
  by (auto simp: take_reply_def match_cpr_reply_def match_cell_size_reply_def Let_def dest!: match_reply_length split: if_splits option.splits)

function take_replies_loop :: "(row \<Rightarrow> row) \<Rightarrow> nat list \<Rightarrow> 'r session \<Rightarrow> nat list \<times> 'r session" where
  "take_replies_loop mv data s =
     (if data = [] then ([], s)
      else case take_reply mv data s of
             Some (rest, s1) \<Rightarrow> take_replies_loop mv rest s1
           | None \<Rightarrow> let (out, s1) = take_replies_loop mv (tl data) s in (hd data # out, s1))"
  by pat_completeness auto
termination
  by (relation "measure (\<lambda>(mv, data, s). length data)") (auto dest: take_reply_shorter)

declare take_replies_loop.simps [simp del]

definition take_resize_sync_replies :: "(row \<Rightarrow> row) \<Rightarrow> nat list \<Rightarrow> 'r session \<Rightarrow> nat list \<times> 'r session" where
  "take_resize_sync_replies mv data s =
     (if ss_sync_outstanding s = 0 \<and> ss_cell_outstanding s = 0 then (data, s) else take_replies_loop mv data s)"

text \<open>A reply that was cut by a read reaches the parser instead; \<open>False\<close> means the application gets it.\<close>

definition process_input_cpr_response :: "(row \<Rightarrow> row) \<Rightarrow> int \<Rightarrow> int \<Rightarrow> 'r session \<Rightarrow> 'r session \<times> bool" where
  "process_input_cpr_response mv row col s =
     (let terminal_position = coord (to_short (col - 1)) (to_short (row - 1))
      in if tc_pending_inherit_cursor (ss_term s) \<and> row > 0 \<and> col > 0
         then
           let s1 = on_console (\<lambda>c. clamp_cursor_to_buffer
                      (set_position (vp_absolute_position terminal_position (sb_viewport (active_screen_buffer s))) c)) s
           in (on_terminal (tc_finish_inherit_cursor terminal_position) s1, True)
         else if ss_sync_outstanding s > 0 \<and> row > 0 \<and> col > 0
         then
           let s1 = s\<lparr>ss_sync_outstanding := ss_sync_outstanding s - 1\<rparr>
           in (if ss_sync_outstanding s1 = 0 then finish_resize_sync mv terminal_position s1 else s1, True)
         else (s, False))"

end
