(* ===== verification/Terminal_Resize.thy ===== *)
theory Terminal_Resize
  imports Terminal_Sync
begin

text \<open>
  What a resize of the terminal does to the lines of the model: lines leave at the top only, the others keep
  their text; and how the reply to the query that follows makes model and terminal agree.
\<close>

section \<open>Lines of the buffer\<close>

lemma shift_rows_lines:
  assumes inv: "sb_inv b" and dy: "dy \<noteq> 0"
  shows "sb_inv (sb_shift_rows mv dy a b)" "sb_size (sb_shift_rows mv dy a b) = sb_size b"
    "sb_viewport (sb_shift_rows mv dy a b) = sb_viewport b"
    "map row_glyphs (sb_lines (sb_shift_rows mv dy a b)) = shift_list dy (gspaces (nat (cX (sb_size b)))) (map row_glyphs (sb_lines b))"
proof -
  note I = sb_invD [OF inv]
  let ?sr = "small_rect 0 0 (cX (sb_size b) - 1) (cY (sb_size b) - 1)"
  have sr: "small_rect 0 0 (to_short (cX (sb_size b) - 1)) (to_short (cY (sb_size b) - 1)) = ?sr"
    using I(1-4) by (simp add: to_short_id)
  have clamp: "sb_clamp b ?sr = ?sr" by (rule sb_clamp_id) simp_all
  have valid: "rect_valid ?sr" using I(1,3) by (simp add: rect_valid_def)
  have ring: "sb_shift_rows mv dy a b = scroll_ring dy 0x20 a b"
    using dy valid clamp I(1-4) by (simp add: sb_shift_rows_def sb_scroll_def sr Let_def to_short_id)
  have w: "nat (cX (sb_size b)) < 32768" using I(2) by linarith
  note R = scroll_ring_lines [OF I(11) dy _ ring]
  show "sb_inv (sb_shift_rows mv dy a b)" unfolding ring by (rule scroll_ring_inv [OF inv dy])
  show "map row_glyphs (sb_lines (sb_shift_rows mv dy a b)) = shift_list dy (gspaces (nat (cX (sb_size b)))) (map row_glyphs (sb_lines b))"
    by (rule R(1)) (simp add: reset_fill_row [OF w] gspaces_chars)
  show "sb_size (sb_shift_rows mv dy a b) = sb_size b" "sb_viewport (sb_shift_rows mv dy a b) = sb_viewport b"
    using R(3,4) [where g = row_glyphs] reset_fill_row [OF w] by auto
qed

lemma shift_list_nth:
  assumes "0 < k" "y < length xs"
  shows "shift_list (- int k) v xs ! y = (if y + k < length xs then xs ! (y + k) else v)"
    "shift_list (int k) v xs ! y = (if y < k then v else xs ! (y - k))"
  using assms by (auto simp: shift_list_def Let_def nth_append min_def add.commute)

text \<open>The loop that copies the old rows into the fresh ones.\<close>

lemma fold_rows:
  "k \<le> length (sb_rows b) \<Longrightarrow>
   fold (\<lambda>y b. b\<lparr>sb_rows := (sb_rows b)[y := f y (sb_rows b ! y)]\<rparr>) [0..<k] b =
     b\<lparr>sb_rows := map (\<lambda>y. if y < k then f y (sb_rows b ! y) else sb_rows b ! y) [0..<length (sb_rows b)]\<rparr>"
proof (induction k)
  case 0
  have "map (\<lambda>y. sb_rows b ! y) [0..<length (sb_rows b)] = sb_rows b" by (rule map_nth)
  then show ?case by simp
next
  case (Suc k)
  let ?M = "\<lambda>k. map (\<lambda>y. if y < k then f y (sb_rows b ! y) else sb_rows b ! y) [0..<length (sb_rows b)]"
  have "(?M k)[k := f k (?M k ! k)] = ?M (Suc k)"
  proof (rule nth_equalityI)
    fix i assume "i < length ((?M k)[k := f k (?M k ! k)])"
    then have i: "i < length (sb_rows b)" by simp
    show "(?M k)[k := f k (?M k ! k)] ! i = ?M (Suc k) ! i"
      using i Suc.prems by (cases "i = k") simp_all
  qed simp
  then show ?case using Suc by simp
qed

lemma wider_copy:
  assumes ok: "row_ok r" and w: "row_width r \<le> w" "w < 32768" "0 < row_width r"
  shows "row_glyphs (copy_from r 0 0 (row_width r) (new_row w a)) = row_glyphs r @ gspaces (w - row_width r)"
proof -
  note N = row_ok_new [OF w(2), of a] and D = row_okD [OF ok]
  let ?gs = "row_glyphs r"
  have ne: "?gs \<noteq> []" using D(6) w(3) by auto
  have L: "layout_rep r ([] @ ?gs @ [])" using D(2) by simp
  have m: "row_width r = min (row_width r) (min (row_width (new_row w a) - 0) (row_width r - 0))" using N w by simp
  have last: "gwidth (butlast ?gs) < row_width r"
  proof -
    obtain ys t v where "?gs = ys @ [(t, v)]" using ne by (metis append_butlast_last_id surj_pair)
    then show ?thesis using D(5,6) by simp
  qed
  have clip: "gclip (row_width (new_row w a) - 0) ?gs = ?gs" using D(5,6) N w by simp
  have "row_glyphs (copy_from r 0 0 (row_width r) (new_row w a)) = g_write_run 0 ?gs (gspaces w)"
    using copy_from_thin(2) [of "new_row w a" r "[]" ?gs "[]" 0 "row_width r" "row_width r" 0] N L D(4,6) m last clip ne by simp
  moreover have "gdrop (row_width r) (gspaces w) = gspaces (w - row_width r)" using w gdrop_gspaces [of "row_width r" w "[]"] by simp
  ultimately show ?thesis using D(6) by (simp add: g_write_run_def)
qed

text \<open>A resize to the size the buffer has keeps the rows; any other copies them.\<close>

lemma resize_same: "sz = sb_size b \<Longrightarrow> 1 \<le> cX sz \<Longrightarrow> 1 \<le> cY sz \<Longrightarrow> resize_buffer sz b = b\<lparr>sb_viewport := vp_reset_to_buffer sz\<rparr>"
  by (simp add: resize_buffer_def sb_resize_def)

lemma resize_other:
  assumes inv: "sb_inv b" and sz: "1 \<le> cX sz" "cX sz \<le> 32767" "1 \<le> cY sz" "cY sz \<le> 32767" and ne: "sz \<noteq> sb_size b"
  shows "sb_size (resize_buffer sz b) = sz" "sb_viewport (resize_buffer sz b) = vp_reset_to_buffer sz" "sb_origin (resize_buffer sz b) = 0"
    "sb_rows (resize_buffer sz b) =
       map (\<lambda>y. if y < nat (cY (sb_size b))
                 then copy_from (sb_lines b ! y) 0 0 (nat (cX (sb_size b))) (new_row (nat (cX sz)) default_attr)
                 else new_row (nat (cX sz)) default_attr) [0..<nat (cY sz)]"
proof -
  note I = sb_invD [OF inv]
  let ?b = "b\<lparr>sb_viewport := vp_reset_to_buffer sz\<rparr>" and ?new = "new_row (nat (cX sz)) default_attr"
  have v: "fst (vp_clamp_to_buffer sz (vp_reset_to_buffer sz)) = vp_reset_to_buffer sz"
    using sz by (simp add: vp_reset_to_buffer_def valid_dimension_def vp_clamp_to_buffer_def vp_set_rect_def clamped_dimension_def
        clamp_def to_short_id Let_def)
  have shape: "sb_shape ?b" and lines: "sb_lines ?b = sb_lines b" using I(11) by (simp_all add: sb_shape_def sb_lines_def)
  note L = linearize_rows_lines [OF shape, unfolded lines]
  have clip: "coord (if cX sz < 1 then 1 else cX sz) (if cY sz < 1 then 1 else cY sz) = sz" using sz by simp
  have u: "to_u16 (cX sz) = nat (cX sz)" using sz by (simp add: to_u16_id)
  let ?h = "cY (sb_size b)" and ?h' = "cY sz"
  let ?k = "nat (if ?h < ?h' then ?h else ?h')"
  let ?fresh = "sb_ensure_rows ((linearize_rows ?b)\<lparr>sb_size := sz, sb_viewport := vp_reset_to_buffer sz\<rparr>)"
  have fresh: "sb_rows ?fresh = replicate (nat ?h') ?new" "sb_size ?fresh = sz" "sb_viewport ?fresh = vp_reset_to_buffer sz"
    "sb_origin ?fresh = 0"
    using u by (simp_all add: sb_ensure_rows_def)
  have "resize_buffer sz b = fold (\<lambda>y b'. b'\<lparr>sb_rows := (sb_rows b')[y := copy_from (sb_lines b ! y) 0 0 (nat (cX (sb_size b))) (sb_rows b' ! y)]\<rparr>)
      [0..<?k] ?fresh"
    using ne L v I(10) by (simp add: resize_buffer_def sb_resize_def clip Let_def)
  also have "\<dots> = ?fresh\<lparr>sb_rows := map (\<lambda>y. if y < ?k then copy_from (sb_lines b ! y) 0 0 (nat (cX (sb_size b))) (sb_rows ?fresh ! y)
        else sb_rows ?fresh ! y) [0..<length (sb_rows ?fresh)]\<rparr>"
    by (rule fold_rows) (simp add: fresh(1) nat_mono)
  finally have eq: "resize_buffer sz b = \<dots>" .
  show "sb_size (resize_buffer sz b) = sz" "sb_viewport (resize_buffer sz b) = vp_reset_to_buffer sz" "sb_origin (resize_buffer sz b) = 0"
    unfolding eq using fresh by simp_all
  show "sb_rows (resize_buffer sz b) =
       map (\<lambda>y. if y < nat ?h then copy_from (sb_lines b ! y) 0 0 (nat (cX (sb_size b))) ?new else ?new) [0..<nat ?h']"
    unfolding eq using fresh(1) by auto
qed

lemma resize_buffer_ok:
  assumes inv: "sb_inv b" and sz: "1 \<le> cX sz" "cX sz \<le> 32767" "1 \<le> cY sz" "cY sz \<le> 32767"
  shows "sb_inv (resize_buffer sz b)" "sb_size (resize_buffer sz b) = sz" "sb_viewport (resize_buffer sz b) = vp_reset_to_buffer sz"
proof -
  note I = sb_invD [OF inv]
  have v: "vp_valid sz (vp_reset_to_buffer sz)"
    using sz by (simp add: vp_reset_to_buffer_def valid_dimension_def to_short_id vp_valid_def)
  have w: "nat (cX sz) < 32768" using sz by linarith
  show "sb_size (resize_buffer sz b) = sz" "sb_viewport (resize_buffer sz b) = vp_reset_to_buffer sz"
    using resize_other [OF inv sz] resize_same [of sz b] sz by (cases "sz = sb_size b"; simp)+
  show "sb_inv (resize_buffer sz b)"
  proof (cases "sz = sb_size b")
    case True
    then show ?thesis using resize_same [OF True sz(1,3)] v I by (simp add: sb_inv_def sb_shape_def sb_ok_def)
  next
    case False
    note R = resize_other [OF inv sz False]
    have new: "sb_ok (resize_buffer sz b) (new_row (nat (cX sz)) default_attr)"
      using row_ok_new [OF w] R(1) by (simp add: sb_ok_def)
    have "sb_ok (resize_buffer sz b) (copy_from (sb_lines b ! y) 0 0 (nat (cX (sb_size b))) (new_row (nat (cX sz)) default_attr))"
      if "y < nat (cY (sb_size b))" for y
    proof -
      have "length (sb_lines b) = nat (cY (sb_size b))" using I(5,6) by (simp add: sb_lines_def)
      then have "sb_lines b ! y \<in> set (sb_lines b)" using that by simp
      then have "row_ok (sb_lines b ! y)" using sb_lines_ok [OF inv] by (simp add: sb_ok_def)
      then show ?thesis using row_keeps_copy_from [of "sb_lines b ! y"] new by (simp add: row_keeps_def sb_ok_def)
    qed
    then have "\<forall>r \<in> set (sb_rows (resize_buffer sz b)). sb_ok (resize_buffer sz b) r" unfolding R(4) using new by auto
    moreover have "sb_shape (resize_buffer sz b)" using R sz by (simp add: sb_shape_def)
    ultimately show ?thesis using R v by (simp add: sb_inv_def)
  qed
qed

text \<open>A buffer that gets no narrower keeps the text of the rows it keeps.\<close>

lemma resize_buffer_lines:
  assumes inv: "sb_inv b" and sz: "1 \<le> cX sz" "cX sz \<le> 32767" "1 \<le> cY sz" "cY sz \<le> 32767" and wider: "cX (sb_size b) \<le> cX sz"
  shows "map row_glyphs (sb_lines (resize_buffer sz b)) =
       map (\<lambda>y. if y < nat (cY (sb_size b)) then row_glyphs (sb_lines b ! y) @ gspaces (nat (cX sz) - nat (cX (sb_size b)))
                else gspaces (nat (cX sz))) [0..<nat (cY sz)]"
proof -
  note I = sb_invD [OF inv]
  have w: "nat (cX sz) < 32768" using sz by linarith
  have len: "length (sb_lines b) = nat (cY (sb_size b))" using I(5,6) by (simp add: sb_lines_def)
  show ?thesis
  proof (cases "sz = sb_size b")
    case True
    have "sb_lines (b\<lparr>sb_viewport := vp_reset_to_buffer sz\<rparr>) = sb_lines b" by (simp add: sb_lines_def)
    then show ?thesis using resize_same [OF True sz(1,3)] True len by (intro nth_equalityI) (simp_all add: gspaces_def)
  next
    case False
    note R = resize_other [OF inv sz False]
    have lines: "sb_lines (resize_buffer sz b) = sb_rows (resize_buffer sz b)" using R(3) by (simp add: sb_lines_def)
    have "row_glyphs (copy_from (sb_lines b ! y) 0 0 (nat (cX (sb_size b))) (new_row (nat (cX sz)) default_attr))
        = row_glyphs (sb_lines b ! y) @ gspaces (nat (cX sz) - nat (cX (sb_size b)))" if "y < nat (cY (sb_size b))" for y
    proof -
      have "sb_lines b ! y \<in> set (sb_lines b)" using that len by simp
      then have "row_ok (sb_lines b ! y)" "row_width (sb_lines b ! y) = nat (cX (sb_size b))" using sb_lines_ok [OF inv] by (simp_all add: sb_ok_def)
      then show ?thesis using wider_copy [of "sb_lines b ! y" "nat (cX sz)" default_attr] w wider I(1) by simp
    qed
    then show ?thesis unfolding lines R(4) using row_ok_new [OF w] by (auto intro!: nth_equalityI)
  qed
qed

section \<open>The session after a resize\<close>

lemma active_simps [simp]:
  "active_screen_buffer (on_active f s) = f (active_screen_buffer s)" "ss_console (on_active f s) = ss_console s"
  "ss_term (on_active f s) = ss_term s" "ss_alt (on_active f s) = map_option f (ss_alt s)"
  "ss_main (on_active f s) = (if ss_alt s = None then f (ss_main s) else ss_main s)"
  by (simp_all add: active_screen_buffer_def on_active_def split: option.split)

lemma active_frame [simp]:
  "active_screen_buffer (s\<lparr>ss_console := c\<rparr>) = active_screen_buffer s" "active_screen_buffer (s\<lparr>ss_term := t\<rparr>) = active_screen_buffer s"
  "active_screen_buffer (s\<lparr>ss_input := i\<rparr>) = active_screen_buffer s" "active_screen_buffer (s\<lparr>ss_out := out\<rparr>) = active_screen_buffer s"
  "active_screen_buffer (s\<lparr>ss_sync_outstanding := n\<rparr>) = active_screen_buffer s" "active_screen_buffer (s\<lparr>ss_sync_cursor := p\<rparr>) = active_screen_buffer s"
  "active_screen_buffer (s\<lparr>ss_sync_wanted := w\<rparr>) = active_screen_buffer s" "active_screen_buffer (s\<lparr>ss_written := bs\<rparr>) = active_screen_buffer s"
  by (simp_all add: active_screen_buffer_def split: option.split)

lemma query_frame [simp]:
  "ss_console (ss_flush s) = ss_console s" "ss_main (ss_flush s) = ss_main s" "ss_alt (ss_flush s) = ss_alt s" "ss_term (ss_flush s) = ss_term s"
  "ss_console (request_cursor_sync s) = ss_console s" "ss_main (request_cursor_sync s) = ss_main s" "ss_alt (request_cursor_sync s) = ss_alt s"
  "ss_term (request_cursor_sync s) = ss_term s"
  "ss_console (send_wanted_cursor_sync s) = ss_console s" "ss_main (send_wanted_cursor_sync s) = ss_main s"
  "ss_alt (send_wanted_cursor_sync s) = ss_alt s" "ss_term (send_wanted_cursor_sync s) = ss_term s"
  "ss_console (want_cursor_sync s) = ss_console s" "ss_main (want_cursor_sync s) = ss_main s" "ss_alt (want_cursor_sync s) = ss_alt s"
  "ss_term (want_cursor_sync s) = ss_term s"
  "ss_console (track_cursor s) = ss_console s" "ss_main (track_cursor s) = ss_main s" "ss_alt (track_cursor s) = ss_alt s"
  by (simp_all add: ss_flush_def out_flush_def request_cursor_sync_def request_cell_size_def send_wanted_cursor_sync_def want_cursor_sync_def
      track_cursor_def term_cursor_set_def)

lemma active_cong: "ss_main s = ss_main s' \<Longrightarrow> ss_alt s = ss_alt s' \<Longrightarrow> active_screen_buffer s = active_screen_buffer s'"
  by (simp add: active_screen_buffer_def split: option.split)

lemma resize_notify_frame [simp]:
  "ss_console (resize_notify ev sz k s) = ss_console s" "ss_main (resize_notify ev sz k s) = ss_main s" "ss_alt (resize_notify ev sz k s) = ss_alt s"
  "ss_term (resize_notify ev sz k s) = tc_shift_enter_dest (to_short (- k)) (cY sz) (ss_term (track_cursor s))"
  by (simp_all add: resize_notify_def Let_def)

text \<open>What holds between two messages.\<close>

definition session_ok :: "'r session \<Rightarrow> bool" where
  "session_ok s \<longleftrightarrow> sb_inv (active_screen_buffer s) \<and> sb_inv (ss_main s)
     \<and> cs_buffer_size (ss_console s) = sb_size (active_screen_buffer s) \<and> sb_valid (active_screen_buffer s) (ss_position s)"

lemma last_used_row:
  "used + int k \<le> 32767 \<Longrightarrow> 0 \<le> used \<Longrightarrow> used \<le> last_used_row b used k \<and> last_used_row b used k \<le> used + int k
     \<and> (\<forall>y. last_used_row b used k \<le> y \<longrightarrow> y < used + int k \<longrightarrow> \<not> sb_row_has_text b y)"
proof (induction k)
  case (Suc k)
  show ?case
  proof (cases "sb_row_has_text b (used + int k)")
    case True
    then show ?thesis using Suc.prems by (simp add: to_short_id)
  next
    case False
    have IH: "used \<le> last_used_row b used k \<and> last_used_row b used k \<le> used + int k
       \<and> (\<forall>y. last_used_row b used k \<le> y \<longrightarrow> y < used + int k \<longrightarrow> \<not> sb_row_has_text b y)"
      by (rule Suc.IH) (use Suc.prems in simp_all)
    have "\<not> sb_row_has_text b y" if "last_used_row b used k \<le> y" "y < used + int (Suc k)" for y
    proof (cases "y = used + int k")
      case True
      then show ?thesis using False by simp
    next
      case ne: False
      then have "y < used + int k" using that(2) by linarith
      then show ?thesis using IH that(1) by blast
    qed
    moreover have "last_used_row b used (Suc k) = last_used_row b used k" using False by (simp add: Let_def)
    ultimately show ?thesis using IH by simp
  qed
qed simp

lemma used_rows:
  assumes "session_ok s"
  shows "cY (ss_position s) + 1 \<le> used_rows s" "used_rows s \<le> cY (sb_size (active_screen_buffer s))"
    "used_rows s \<le> y \<Longrightarrow> y < cY (sb_size (active_screen_buffer s)) \<Longrightarrow> \<not> sb_row_has_text (active_screen_buffer s) y"
proof -
  let ?b = "active_screen_buffer s" and ?y = "cY (ss_position s)"
  have y: "0 \<le> ?y" "?y < cY (sb_size ?b)" "cY (sb_size ?b) \<le> 32767"
    using assms sb_invD(4) [of ?b] by (simp_all add: session_ok_def sb_valid_def)
  have used: "used_rows s = last_used_row ?b (?y + 1) (nat (cY (sb_size ?b) - (?y + 1)))"
    using y by (simp add: used_rows_def Let_def to_short_id)
  have k: "?y + 1 + int (nat (cY (sb_size ?b) - (?y + 1))) = cY (sb_size ?b)" using y by simp
  note L = last_used_row [of "?y + 1" "nat (cY (sb_size ?b) - (?y + 1))" ?b, unfolded k, folded used]
  show "?y + 1 \<le> used_rows s" "used_rows s \<le> cY (sb_size ?b)" "used_rows s \<le> y \<Longrightarrow> y < cY (sb_size ?b) \<Longrightarrow> \<not> sb_row_has_text ?b y"
    using L y by auto
qed

lemma clear_pending_wrap_frame [simp]:
  "active_screen_buffer (clear_pending_wrap s) = active_screen_buffer s" "ss_main (clear_pending_wrap s) = ss_main s"
  "ss_alt (clear_pending_wrap s) = ss_alt s" "ss_term (clear_pending_wrap s) = ss_term s" "ss_position (clear_pending_wrap s) = ss_position s"
  "cs_buffer_size (ss_console (clear_pending_wrap s)) = cs_buffer_size (ss_console s)"
  "cs_attributes (ss_console (clear_pending_wrap s)) = cs_attributes (ss_console s)"
  "session_ok (clear_pending_wrap s) = session_ok s" "used_rows (clear_pending_wrap s) = used_rows s"
  by (simp_all add: clear_pending_wrap_def session_ok_def used_rows_def)

lemma resize_shift:
  assumes "session_ok s" "1 \<le> cY sz"
  shows "resize_shift sz s = max 0 (used_rows s - cY sz)" "0 \<le> resize_shift sz s" "resize_shift sz s < cY (sb_size (active_screen_buffer s))"
    "cY (ss_position s) - resize_shift sz s < cY sz" "resize_shift sz s \<le> 32767"
proof -
  have h: "cY (sb_size (active_screen_buffer s)) \<le> 32767" "0 \<le> cY (ss_position s)"
    using assms(1) sb_invD(4) by (auto simp: session_ok_def sb_valid_def)
  note U = used_rows(1,2) [OF assms(1)]
  show eq: "resize_shift sz s = max 0 (used_rows s - cY sz)"
    using U h assms(2) by (simp add: resize_shift_def Let_def to_short_id)
  show "0 \<le> resize_shift sz s" "resize_shift sz s < cY (sb_size (active_screen_buffer s))"
    "cY (ss_position s) - resize_shift sz s < cY sz" "resize_shift sz s \<le> 32767"
    unfolding eq using U h assms(2) by linarith+
qed

lemma resize_scroll:
  assumes ok: "session_ok s" and k: "0 \<le> k" "k \<le> 32767"
  shows "active_screen_buffer (resize_scroll mv k s)
      = (if k > 0 then sb_shift_rows mv (- k) (cs_attributes (ss_console s)) (active_screen_buffer s) else active_screen_buffer s)"
    "sb_inv (active_screen_buffer (resize_scroll mv k s))" "sb_inv (ss_main (resize_scroll mv k s))"
    "sb_size (active_screen_buffer (resize_scroll mv k s)) = sb_size (active_screen_buffer s)"
    "ss_position (resize_scroll mv k s) = coord (cX (ss_position s)) (cY (ss_position s) - k)"
    "ss_term (resize_scroll mv k s) = ss_term s"
proof -
  have inv: "sb_inv (active_screen_buffer s)" "sb_inv (ss_main s)" using ok by (simp_all add: session_ok_def)
  have y: "0 \<le> cY (ss_position s)" "cY (ss_position s) \<le> 32767"
    using ok sb_invD(4) [OF inv(1)] by (auto simp: session_ok_def sb_valid_def)
  have n: "to_short (- k) = - k" "to_short (cY (ss_position s) - k) = cY (ss_position s) - k" using k y by (simp_all add: to_short_id)
  show act: "active_screen_buffer (resize_scroll mv k s)
      = (if k > 0 then sb_shift_rows mv (- k) (cs_attributes (ss_console s)) (active_screen_buffer s) else active_screen_buffer s)"
    using n by (simp add: resize_scroll_def)
  show "sb_inv (active_screen_buffer (resize_scroll mv k s))" "sb_size (active_screen_buffer (resize_scroll mv k s)) = sb_size (active_screen_buffer s)"
    unfolding act using shift_rows_lines(1,2) [OF inv(1)] inv by auto
  show "sb_inv (ss_main (resize_scroll mv k s))"
    using shift_rows_lines(1) [OF inv(2)] inv(2) n by (auto simp: resize_scroll_def)
  have "coord (cX (ss_position s)) (cY (ss_position s)) = ss_position s" by simp
  then show "ss_position (resize_scroll mv k s) = coord (cX (ss_position s)) (cY (ss_position s) - k)"
    using n k by (cases "k = 0") (simp_all add: resize_scroll_def set_position_def)
  show "ss_term (resize_scroll mv k s) = ss_term s" by (simp add: resize_scroll_def)
qed

lemma resize_buffers:
  assumes sz: "1 \<le> cX sz" "cX sz \<le> 32767" "1 \<le> cY sz" "cY sz \<le> 32767"
  shows "active_screen_buffer (resize_buffers sz s) = resize_buffer sz (active_screen_buffer s)"
    "ss_main (resize_buffers sz s) = resize_buffer sz (ss_main s)" "ss_term (resize_buffers sz s) = ss_term s"
    "cs_buffer_size (ss_console (resize_buffers sz s)) = sz"
    "ss_position (resize_buffers sz s) = coord (clamp (cX (ss_position s)) 0 (cX sz - 1)) (clamp (cY (ss_position s)) 0 (cY sz - 1))"
  using sz by (auto simp: resize_buffers_def Let_def active_screen_buffer_def on_active_def clamp_cursor_to_buffer_def set_position_def to_short_id
      split: option.split)

lemma relative_whole:
  assumes "session_ok s" "sb_viewport (active_screen_buffer s) = vp_reset_to_buffer (sb_size (active_screen_buffer s))"
  shows "relative_cursor s = ss_position s"
proof -
  have I: "sb_inv (active_screen_buffer s)" "sb_valid (active_screen_buffer s) (ss_position s)" using assms(1) by (simp_all add: session_ok_def)
  have "coord (cX (ss_position s)) (cY (ss_position s)) = ss_position s" by simp
  then show ?thesis
    using I(2) sb_invD(2,4) [OF I(1)] sb_invD(1,3) [OF I(1)] assms(2)
    by (simp add: relative_cursor_def vp_relative_position_def vp_reset_to_buffer_def sb_valid_def valid_dimension_def to_short_id)
qed

lemma on_active_query [simp]:
  "ss_mid_sequence (on_active f s) = ss_mid_sequence s" "ss_sync_outstanding (on_active f s) = ss_sync_outstanding s"
  "ss_sync_cursor (on_active f s) = ss_sync_cursor s" "ss_cell_outstanding (on_active f s) = ss_cell_outstanding s"
  by (simp_all add: on_active_def split: option.split)

lemma query_more [simp]:
  "ss_mid_sequence (clear_pending_wrap s) = ss_mid_sequence s" "ss_mid_sequence (resize_scroll mv k s) = ss_mid_sequence s"
  "ss_mid_sequence (resize_buffers sz s) = ss_mid_sequence s" "ss_mid_sequence (track_cursor s) = ss_mid_sequence s"
  "ss_sync_outstanding (clear_pending_wrap s) = ss_sync_outstanding s" "ss_sync_outstanding (resize_scroll mv k s) = ss_sync_outstanding s"
  "ss_sync_outstanding (resize_buffers sz s) = ss_sync_outstanding s" "ss_sync_outstanding (track_cursor s) = ss_sync_outstanding s"
  by (simp_all add: resize_scroll_def resize_buffers_def Let_def clear_pending_wrap_def track_cursor_def term_cursor_set_def)

lemma relative_frame [simp]:
  "relative_cursor (s\<lparr>ss_term := t\<rparr>) = relative_cursor s" "relative_cursor (s\<lparr>ss_input := i\<rparr>) = relative_cursor s"
  "relative_cursor (s\<lparr>ss_sync_wanted := w\<rparr>) = relative_cursor s" "relative_cursor (s\<lparr>ss_sync_outstanding := n\<rparr>) = relative_cursor s"
  "relative_cursor (track_cursor s) = relative_cursor s"
  by (simp_all add: relative_cursor_def track_cursor_def term_cursor_set_def)

lemma resize_notify_query:
  assumes "\<not> ss_mid_sequence s"
  shows "ss_sync_outstanding (resize_notify ev sz k s) = ss_sync_outstanding s + 1" "ss_sync_cursor (resize_notify ev sz k s) = relative_cursor s"
  using assms
  by (simp_all add: resize_notify_def Let_def ss_flush_def out_flush_def send_wanted_cursor_sync_def want_cursor_sync_def request_cursor_sync_def
      request_cell_size_def)

text \<open>The session after a resize, but for its text.\<close>

lemma resize_state:
  assumes ok: "session_ok s" and sz: "1 \<le> cX sz" "cX sz \<le> 32767" "1 \<le> cY sz" "cY sz \<le> 32767"
    and s': "s' = apply_terminal_resize mv ev sz s" and k: "k = max 0 (used_rows s - cY sz)"
  shows "session_ok s'" "sb_size (active_screen_buffer s') = sz" "sb_viewport (active_screen_buffer s') = vp_reset_to_buffer sz"
    "ss_position s' = coord (min (cX (ss_position s)) (cX sz - 1)) (max 0 (cY (ss_position s) - k))"
    "tc_cursor_valid (ss_term s') = tc_cursor_valid (ss_term s)" "tc_cursor_valid (ss_term s) \<Longrightarrow> tc_cursor (ss_term s') = ss_position s'"
    "\<not> ss_mid_sequence s \<Longrightarrow> ss_sync_outstanding s' = ss_sync_outstanding s + 1 \<and> ss_sync_cursor s' = ss_position s'"
    "active_screen_buffer s' = resize_buffer sz (active_screen_buffer (resize_scroll mv k (clear_pending_wrap s)))" "0 \<le> k" "k \<le> 32767"
proof -
  let ?b = "active_screen_buffer s" and ?b' = "active_screen_buffer s'"
  let ?c = "clear_pending_wrap s"
  let ?r = "resize_scroll mv k ?c"
  let ?n = "resize_buffers sz ?r"
  have okc: "session_ok ?c" using ok by simp
  note K = resize_shift [OF okc sz(3), simplified, folded k]
  have kk: "resize_shift sz ?c = k" by (simp add: K(1))
  note K = resize_shift(2-) [OF okc sz(3), unfolded kk, simplified]
  note R = resize_scroll [OF okc K(1,4), of mv, simplified]
  note N = resize_buffers [OF sz, of ?r]
  have bi: "sb_inv ?b" "sb_valid ?b (ss_position s)" using ok by (simp_all add: session_ok_def)
  have s'n: "s' = resize_notify ev sz k ?n" by (simp add: s' apply_terminal_resize_def kk Let_def)
  have b'r: "?b' = resize_buffer sz (active_screen_buffer ?r)"
    unfolding s'n N(1) [symmetric] by (rule active_cong) simp_all
  note B = resize_buffer_ok [OF R(2) sz, folded b'r]
  have pos: "ss_position s' = coord (min (cX (ss_position s)) (cX sz - 1)) (max 0 (cY (ss_position s) - k))"
    using N(5) R(5) bi(2) K(3) sz by (simp add: s'n clamp_def sb_valid_def)
  have valid: "sb_valid ?b' (ss_position s')" using pos B(2) sz bi(2) K(3) by (simp add: sb_valid_def)
  have main: "sb_inv (ss_main s')" using resize_buffer_ok(1) [OF R(3) sz] N(2) by (simp add: s'n)
  have whole: "sb_viewport ?b' = vp_reset_to_buffer sz" using B(3) .
  have ok': "session_ok s'" unfolding session_ok_def using B valid main N(4) by (simp add: s'n)
  have same: "active_screen_buffer ?n = ?b'" "ss_console ?n = ss_console s'"
    unfolding s'n by (simp_all add: active_screen_buffer_def split: option.split)
  have rel: "relative_cursor ?n = ss_position s'"
    using relative_whole [OF ok'] whole B(2) same by (simp add: relative_cursor_def)
  show "session_ok s'" "sb_size ?b' = sz" "sb_viewport ?b' = vp_reset_to_buffer sz" "0 \<le> k" "k \<le> 32767"
    using ok' B(2) whole K(1,4) by simp_all
  show "ss_position s' = coord (min (cX (ss_position s)) (cX sz - 1)) (max 0 (cY (ss_position s) - k))" by (rule pos)
  show "tc_cursor_valid (ss_term s') = tc_cursor_valid (ss_term s)" "tc_cursor_valid (ss_term s) \<Longrightarrow> tc_cursor (ss_term s') = ss_position s'"
    using R(6) N(3) rel by (simp_all add: s'n track_cursor_def term_cursor_set_def tc_set_cursor_def tc_shift_enter_dest_def Let_def)
  show "ss_sync_outstanding s' = ss_sync_outstanding s + 1 \<and> ss_sync_cursor s' = ss_position s'" if "\<not> ss_mid_sequence s"
    using resize_notify_query [of ?n ev sz k] that rel by (simp add: s'n)
  show "?b' = resize_buffer sz (active_screen_buffer ?r)" by (rule b'r)
qed


text \<open>A screen of three rows of two columns, the letters a, b, c in the first column, the cursor on the last row.\<close>

definition letters :: "nat session" where
  "letters =
     (let b = sb_set_u32 (coord 0 2) 0x63 7 (sb_set_u32 (coord 0 1) 0x62 7 (sb_set_u32 (coord 0 0) 0x61 7 (sb_new (coord 2 3))))
      in \<lparr>ss_console = (set_position (coord 1 2) console_state_init)\<lparr>cs_buffer_size := coord 2 3, cs_tab_stops := []\<rparr>, ss_main = b, ss_alt = None,
          ss_term = tc_set_cursor (coord 1 2) terminal_cursor_init, ss_input = ib_start None, ss_window_input = True,
          ss_out = vt_out_init, ss_output_valid = True, ss_written = [], ss_sync_outstanding = 0, ss_sync_cursor = coord 0 0,
          ss_cell_outstanding = 0, ss_cell_px = (0, 0), ss_sync_wanted = False, ss_mid_sequence = False\<rparr>)"

lemma letters_ok: "session_ok letters"
proof -
  have "sb_inv (active_screen_buffer letters)" "sb_inv (ss_main letters)" "sb_valid (active_screen_buffer letters) (ss_position letters)" by code_simp+
  moreover have "cs_buffer_size (ss_console letters) = sb_size (active_screen_buffer letters)" by code_simp
  ultimately show ?thesis by (simp add: session_ok_def)
qed


end
