(* ===== verification/Terminal_Replies.thy ===== *)
theory Terminal_Replies
  imports Terminal_Resize Vt_Roundtrip
begin

text \<open>
  The replies of the terminal in the input: they are found, taken out, and the reply to the query sent after a
  resize puts the cursor of the model where the terminal has it.
\<close>

section \<open>Numbers\<close>

lemma dec_value: "foldl (\<lambda>v d. v * 10 + (d - 0x30)) 0 (dec_chars n) = n"
proof (induction n rule: dec_chars.induct)
  case (1 n)
  then show ?case by (cases "n < 10") (simp_all add: dec_chars.simps [of n])
qed

lemma dec_nonempty: "dec_chars n \<noteq> []"
  by (simp add: dec_chars.simps [of n])

lemma reply_number:
  assumes "0 < v" "v < 100000" "sep < 0x30 \<or> 0x39 < sep"
  shows "reply_number sep (dec_chars v @ sep # rest) = Some (v, rest)"
proof -
  let ?ds = "dec_chars v"
  have len: "length ?ds \<le> 5" using length_dec_chars [of v 4] assms(2) by simp
  have digits: "\<forall>c \<in> set ?ds. 0x30 \<le> c \<and> c \<le> 0x39" using dec_chars_digits(1) [of v] by (simp add: is_digit_def)
  have "take 5 (?ds @ sep # rest) = ?ds @ take (5 - length ?ds) (sep # rest)" using len by simp
  moreover have "takeWhile (\<lambda>c. 0x30 \<le> c \<and> c \<le> 0x39) (?ds @ take (5 - length ?ds) (sep # rest)) = ?ds"
    using digits assms(3) by (auto simp: takeWhile_append2 take_Cons')
  ultimately show ?thesis using dec_value dec_nonempty by (simp add: reply_number_def Let_def)
qed

text \<open>The reply to a DSR for the zero-based position \<open>x\<close>, \<open>y\<close>.\<close>

definition cpr_reply :: "int \<Rightarrow> int \<Rightarrow> nat list" where
  "cpr_reply x y = csi_bytes False [int_chars (y + 1), int_chars (x + 1)] [] 0x52"

lemma match_cpr_reply:
  assumes "0 \<le> x" "x < 32767" "0 \<le> y" "y < 32767"
  shows "match_cpr_reply (cpr_reply x y @ rest) = Some (length (cpr_reply x y), coord x y)"
proof -
  have chars: "int_chars (y + 1) = dec_chars (nat (y + 1))" "int_chars (x + 1) = dec_chars (nat (x + 1))" using assms by (simp_all add: int_chars_def)
  have n: "reply_number 0x3B (dec_chars (nat (y + 1)) @ 0x3B # dec_chars (nat (x + 1)) @ 0x52 # rest) = Some (nat (y + 1), dec_chars (nat (x + 1)) @ 0x52 # rest)"
    "reply_number 0x52 (dec_chars (nat (x + 1)) @ 0x52 # rest) = Some (nat (x + 1), rest)"
    using assms by (simp_all add: reply_number)
  have "0 < length (dec_chars (nat (y + 1)))" "0 < length (dec_chars (nat (x + 1)))" using dec_nonempty by simp_all
  then have "\<not> length (dec_chars (nat (y + 1))) + (length (dec_chars (nat (x + 1))) + length rest) < 2" by linarith
  then show ?thesis using n assms
    by (simp add: match_cpr_reply_def match_reply_def cpr_reply_def csi_bytes_def chars to_short_id)
qed

section \<open>Taking replies out\<close>

lemma take_reply_plain: "c \<noteq> 0x1B \<Longrightarrow> take_reply mv (c # data) s = None"
  by (simp add: take_reply_def)

lemma take_replies_plain:
  "\<forall>c \<in> set pre. c \<noteq> 0x1B \<Longrightarrow> take_replies_loop mv (pre @ data) s = (let (out, s1) = take_replies_loop mv data s in (pre @ out, s1))"
proof (induction pre)
  case (Cons c pre)
  then show ?case by (subst take_replies_loop.simps) (simp add: take_reply_plain split: prod.split)
qed (simp split: prod.split)

lemma take_replies_none: "\<forall>c \<in> set pre. c \<noteq> 0x1B \<Longrightarrow> take_replies_loop mv pre s = (pre, s)"
  using take_replies_plain [of pre mv "[]" s] by (simp add: take_replies_loop.simps [of mv "[]"])

lemma take_replies_reply:
  assumes "0 \<le> x" "x < 32767" "0 \<le> y" "y < 32767" "ss_sync_outstanding s = 1"
  shows "take_replies_loop mv (cpr_reply x y @ rest) s
    = take_replies_loop mv rest (finish_resize_sync mv (coord x y) (s\<lparr>ss_sync_outstanding := 0\<rparr>))"
proof -
  have "hd (cpr_reply x y @ rest) = 0x1B" "cpr_reply x y @ rest \<noteq> []" by (simp_all add: cpr_reply_def csi_bytes_def)
  then have "take_reply mv (cpr_reply x y @ rest) s = Some (rest, finish_resize_sync mv (coord x y) (s\<lparr>ss_sync_outstanding := 0\<rparr>))"
    using assms match_cpr_reply [OF assms(1-4), of rest] by (simp add: take_reply_def Let_def)
  then show ?thesis using \<open>cpr_reply x y @ rest \<noteq> []\<close> by (subst take_replies_loop.simps) (simp del: append_is_Nil_conv)
qed

section \<open>The reply moves the model\<close>

lemma sb_lines_length: "sb_inv b \<Longrightarrow> length (sb_lines b) = nat (cY (sb_size b))"
  using sb_invD(5,6) [of b] by (simp add: sb_lines_def)

lemma shifted_line:
  assumes inv: "sb_inv b" and y: "0 \<le> y" "y < cY (sb_size b)" "0 \<le> y + dy" "y + dy < cY (sb_size b)"
  shows "row_glyphs (sb_lines (sb_shift_rows mv dy a b) ! nat (y + dy)) = row_glyphs (sb_lines b ! nat y)"
proof (cases "dy = 0")
  case True
  then show ?thesis by (simp add: sb_shift_rows_def)
next
  case False
  note S = shift_rows_lines [OF inv False, of mv a]
  let ?v = "gspaces (nat (cX (sb_size b)))" and ?L = "map row_glyphs (sb_lines b)"
  have len: "length (sb_lines b) = nat (cY (sb_size b))" "length (sb_lines (sb_shift_rows mv dy a b)) = nat (cY (sb_size b))"
    using sb_lines_length [OF inv] sb_lines_length [OF S(1)] S(2) by simp_all
  have "row_glyphs (sb_lines (sb_shift_rows mv dy a b) ! nat (y + dy)) = shift_list dy ?v ?L ! nat (y + dy)"
    unfolding S(4) [symmetric] using y len by simp
  also have "\<dots> = ?L ! nat y"
  proof (cases "dy < 0")
    case True
    have "nat (y + dy) + nat (- dy) = nat y" using y True by linarith
    then show ?thesis using shift_list_nth(1) [of "nat (- dy)" "nat (y + dy)" ?L ?v] True y len by simp
  next
    case pos: False
    then have "nat (y + dy) - nat dy = nat y" "\<not> nat (y + dy) < nat dy" using y by linarith+
    then show ?thesis using shift_list_nth(2) [of "nat dy" "nat (y + dy)" ?L ?v] False pos y len by simp
  qed
  finally show ?thesis using y len by simp
qed

lemma finish_state:
  assumes ok: "session_ok s" and whole: "sb_viewport (active_screen_buffer s) = vp_reset_to_buffer (sb_size (active_screen_buffer s))"
    and at: "ss_sync_cursor s = ss_position s" "tc_cursor_valid (ss_term s) \<Longrightarrow> tc_cursor (ss_term s) = ss_position s"
    and x: "0 \<le> x" "x < cX (sb_size (active_screen_buffer s))" and y: "0 \<le> y" "y < cY (sb_size (active_screen_buffer s))"
    and t: "t = finish_resize_sync mv (coord x y) s"
  shows "session_ok t \<and> ss_sync_outstanding t = ss_sync_outstanding s \<and> ss_position t = coord x y
    \<and> (tc_cursor_valid (ss_term s) \<longrightarrow> tc_cursor (ss_term t) = coord x y)
    \<and> row_glyphs (sb_lines (active_screen_buffer t) ! nat y) = row_glyphs (sb_lines (active_screen_buffer s) ! nat (cY (ss_position s)))"
proof -
  let ?b = "active_screen_buffer s" and ?p = "ss_position s"
  define dx where "dx = x - cX ?p"
  define dy where "dy = y - cY ?p"
  have I: "sb_inv ?b" "sb_inv (ss_main s)" "sb_valid ?b ?p" "cs_buffer_size (ss_console s) = sb_size ?b" using ok by (simp_all add: session_ok_def)
  note D = sb_invD(1-4) [OF I(1)]
  have p: "0 \<le> cX ?p" "cX ?p < cX (sb_size ?b)" "0 \<le> cY ?p" "cY ?p < cY (sb_size ?b)" using I(3) by (simp_all add: sb_valid_def)
  have d: "to_short (cX (coord x y) - cX (ss_sync_cursor s)) = dx" "to_short (cY (coord x y) - cY (ss_sync_cursor s)) = dy"
    using p x y D at(1) by (simp_all add: dx_def dy_def to_short_id)
  show ?thesis
  proof (cases "dx = 0 \<and> dy = 0")
    case True
    then have "t = s" unfolding t finish_resize_sync_def d Let_def by simp
    moreover have "?p = coord x y" using True by (simp add: dx_def dy_def)
    ultimately show ?thesis using ok at(2) by simp
  next
    case False
    define s1 where "s1 = on_active (sb_shift_rows mv dy (cs_attributes (ss_console s))) s"
    define s2 where "s2 = on_console clamp_cursor_to_buffer
      (on_console (\<lambda>c. set_position (coord (to_short (cX (cs_position c) + dx)) (to_short (cY (cs_position c) + dy))) c) s1)"
    have t': "t = on_terminal (tc_shift_enter_dest dy (cY (sb_size (active_screen_buffer (track_cursor s2))))) (track_cursor s2)"
      unfolding t finish_resize_sync_def d Let_def if_not_P [OF False] s1_def s2_def by simp
    have inv1: "sb_inv (sb_shift_rows mv dy a b)" "sb_size (sb_shift_rows mv dy a b) = sb_size b" "sb_viewport (sb_shift_rows mv dy a b) = sb_viewport b"
      if "sb_inv b" for a b
      using that shift_rows_lines(1-3) [OF that, of dy] by (cases "dy = 0"; simp add: sb_shift_rows_def)+
    have act: "active_screen_buffer s2 = sb_shift_rows mv dy (cs_attributes (ss_console s)) ?b" by (simp add: s2_def s1_def)
    have pos: "ss_position s2 = coord x y"
      using p x y D I(4) by (simp add: s2_def s1_def clamp_cursor_to_buffer_def set_position_def dx_def dy_def to_short_id)
    have size: "cs_buffer_size (ss_console s2) = sb_size ?b"
      using I(4) by (simp add: s2_def s1_def clamp_cursor_to_buffer_def set_position_def)
    have "sb_inv (ss_main s2)" using inv1(1) I(2) by (simp add: s2_def s1_def)
    then have ok2: "session_ok s2"
      using inv1 [OF I(1)] pos x y size by (simp add: session_ok_def act sb_valid_def)
    have rel: "relative_cursor s2 = coord x y"
      using relative_whole [OF ok2] pos whole inv1 [OF I(1)] by (simp add: act)
    have same: "active_screen_buffer t = active_screen_buffer s2" "ss_console t = ss_console s2" "ss_main t = ss_main s2"
      unfolding t' by (simp_all add: active_screen_buffer_def split: option.split)
    have "session_ok t" using ok2 same by (simp add: session_ok_def)
    moreover have "ss_sync_outstanding t = ss_sync_outstanding s" by (simp add: t' s2_def s1_def)
    moreover have "tc_cursor (ss_term t) = coord x y" if "tc_cursor_valid (ss_term s)"
      using that rel by (simp add: t' track_cursor_def term_cursor_set_def tc_set_cursor_def tc_shift_enter_dest_def Let_def s2_def s1_def)
    moreover have "row_glyphs (sb_lines (active_screen_buffer t) ! nat y) = row_glyphs (sb_lines ?b ! nat (cY ?p))"
      unfolding same act using shifted_line [OF I(1) p(3,4), of dy mv "cs_attributes (ss_console s)"] y by (simp add: dy_def)
    ultimately show ?thesis using pos same by simp
  qed
qed



end
