(* ===== verification/Dispatch_Sgr.thy ===== *)
theory Dispatch_Sgr
  imports Vt_Dispatch
begin

text \<open>
  The SGR payload against the fields of the attribute word: the two colour nibbles in Win32's BGRI order,
  the three flags, and the rest.
\<close>

text \<open>An SGR colour number, bits RGBI from the low end, in the nibble order of the attribute word, BGRI.\<close>

definition swap_red_blue :: "nat \<Rightarrow> attr" where
  "swap_red_blue i =
     (if bit i 0 then 4 else 0) OR (if bit i 1 then 2 else 0) OR (if bit i 2 then 1 else 0) OR (if bit i 3 then 8 else 0)"

definition sgr_color_applies :: "vt_sgr_color \<Rightarrow> bool" where
  "sgr_color_applies c \<longleftrightarrow> col_kind c = color_indexed \<and> col_value c \<le> 15"

definition sgr_flag_spec :: "vt_sgr \<Rightarrow> vt_sgr_flag \<Rightarrow> bool \<Rightarrow> bool" where
  "sgr_flag_spec sgr f old \<longleftrightarrow>
     vt_sgr_has sgr f \<or> (old \<and> \<not> vt_sgr_clears sgr f \<and> \<not> vt_sgr_has sgr sgr_reset)"

lemma mask_step:
  fixes a M v m :: attr
  shows "((a AND M) OR v) AND m = (a AND (M AND m)) OR (v AND m)"
  by (simp add: bit.conj_disj_distrib2 and.assoc)

lemma mask_and: "(a AND M) AND m = a AND (M AND (m :: attr))"
  by (simp add: and.assoc)

lemma mask_or: "(a OR v) AND m = (a AND m) OR (v AND (m :: attr))"
  by (simp add: bit.conj_disj_distrib2)

lemma and_bit_nat: "and index (2 ^ k) \<noteq> 0 \<longleftrightarrow> bit (index :: nat) k"
  by (simp add: and_exp_eq_0_iff_not_bit)

lemma bit_if_bits:
  "bit_if i 1 a = (if bit i 0 then a else 0)" "bit_if i 2 a = (if bit i 1 then a else 0)"
  "bit_if i (Suc 0) a = (if bit i 0 then a else 0)" "bit_if i 4 a = (if bit i 2 then a else 0)" "bit_if i 8 a = (if bit i 3 then a else 0)"
  using and_bit_nat [of i 0] and_bit_nat [of i 1] and_bit_nat [of i 2] and_bit_nat [of i 3]
  by (simp_all add: bit_if_def)

lemma foreground_index:
  assumes "i \<le> 15"
  shows "set_sgr_foreground_index a i = (a AND 0xFFF0) OR swap_red_blue i" "swap_red_blue i AND 0xF = swap_red_blue i"
    "m \<in> {0x00F0, 0x0400, 0x4000, 0x8000, 0x3B00} \<Longrightarrow> swap_red_blue i AND m = 0"
  using assms
  by (auto simp: set_sgr_foreground_index_def swap_red_blue_def bit_if_bits attr_consts mask_or)

lemma background_index:
  assumes "i \<le> 15"
  shows "set_sgr_background_index a i = (a AND 0xFF0F) OR push_bit 4 (swap_red_blue i)"
    "push_bit 4 (swap_red_blue i) AND 0xF0 = push_bit 4 (swap_red_blue i)"
    "m \<in> {0x000F, 0x0400, 0x4000, 0x8000, 0x3B00} \<Longrightarrow> push_bit 4 (swap_red_blue i) AND m = 0"
  using assms
  by (auto simp: set_sgr_background_index_def swap_red_blue_def bit_if_bits attr_consts mask_or push_bit_or)


text \<open>The foreground, the background and the flags of the steps of \<open>apply_sgr_to_attributes\<close>.\<close>

definition fg_step :: "vt_sgr_color \<Rightarrow> attr \<Rightarrow> attr" where
  "fg_step c a = (if col_kind c = color_default then set_sgr_foreground_default a
     else if col_kind c = color_indexed \<and> col_value c \<le> 15 then set_sgr_foreground_index a (col_value c) else a)"

definition bg_step :: "vt_sgr_color \<Rightarrow> attr \<Rightarrow> attr" where
  "bg_step c a = (if col_kind c = color_default then set_sgr_background_default a
     else if col_kind c = color_indexed \<and> col_value c \<le> 15 then set_sgr_background_index a (col_value c) else a)"

lemma fg_step_fields:
  "fg_step c a AND 0xF = (if col_kind c = color_default then 7
     else if sgr_color_applies c then swap_red_blue (col_value c) else a AND 0xF)"
  "m \<in> {0x00F0, 0x0400, 0x4000, 0x8000, 0x3B00} \<Longrightarrow> fg_step c a AND m = a AND m"
  using foreground_index [of "col_value c"]
  by (auto simp: fg_step_def set_sgr_foreground_default_def sgr_color_applies_def mask_step)

lemma bg_step_fields:
  "bg_step c a AND 0xF0 = (if col_kind c = color_default then 0
     else if sgr_color_applies c then push_bit 4 (swap_red_blue (col_value c)) else a AND 0xF0)"
  "m \<in> {0x000F, 0x0400, 0x4000, 0x8000, 0x3B00} \<Longrightarrow> bg_step c a AND m = a AND m"
  using background_index [of "col_value c"]
  by (auto simp: bg_step_def set_sgr_background_default_def sgr_color_applies_def mask_step mask_and)

lemma flag_masks:
  assumes "f \<in> {0x0400, 0x4000, 0x8000}"
  shows "set_sgr_flag a f AND f = f" "clear_sgr_flag a f AND f = 0"
    "m \<in> {0x000F, 0x00F0, 0x0400, 0x4000, 0x8000, 0x3B00} \<Longrightarrow> m \<noteq> f \<Longrightarrow> set_sgr_flag a f AND m = a AND m"
    "m \<in> {0x000F, 0x00F0, 0x0400, 0x4000, 0x8000, 0x3B00} \<Longrightarrow> m \<noteq> f \<Longrightarrow> clear_sgr_flag a f AND m = a AND m"
  using assms by (auto simp: set_sgr_flag_def clear_sgr_flag_def mask_or mask_and)

text \<open>C28: What an SGR payload makes of the attribute word, field by field. The foreground nibble is the default 7,
  the indexed colour with red and blue exchanged, or what it was (7 after a reset); the background nibble
  likewise with 0; bold, underline and negative are set, cleared or kept, a set winning over a clear;
  every other bit is kept, or 0 after a reset. RGB colours and indices above 15 change nothing.\<close>
theorem sgr_fields:
  assumes "base = (if vt_sgr_has sgr sgr_reset then 7 else a)" and "r = apply_sgr_to_attributes sgr a"
  shows "r AND 0xF = (if col_kind (sgr_fg sgr) = color_default then 7
        else if sgr_color_applies (sgr_fg sgr) then swap_red_blue (col_value (sgr_fg sgr)) else base AND 0xF)
    \<and> r AND 0xF0 = (if col_kind (sgr_bg sgr) = color_default then 0
        else if sgr_color_applies (sgr_bg sgr) then push_bit 4 (swap_red_blue (col_value (sgr_bg sgr))) else base AND 0xF0)
    \<and> (r AND COMMON_LVB_GRID_HORIZONTAL \<noteq> 0 \<longleftrightarrow> sgr_flag_spec sgr sgr_bold (a AND COMMON_LVB_GRID_HORIZONTAL \<noteq> 0))
    \<and> (r AND COMMON_LVB_UNDERSCORE \<noteq> 0 \<longleftrightarrow> sgr_flag_spec sgr sgr_underline (a AND COMMON_LVB_UNDERSCORE \<noteq> 0))
    \<and> (r AND COMMON_LVB_REVERSE_VIDEO \<noteq> 0 \<longleftrightarrow> sgr_flag_spec sgr sgr_negative (a AND COMMON_LVB_REVERSE_VIDEO \<noteq> 0))
    \<and> r AND 0x3B00 = (if vt_sgr_has sgr sgr_reset then 0 else a AND 0x3B00)"
proof -
  let ?G = "COMMON_LVB_GRID_HORIZONTAL" and ?U = "COMMON_LVB_UNDERSCORE" and ?N = "COMMON_LVB_REVERSE_VIDEO"
  define c where "c = bg_step (sgr_bg sgr) (fg_step (sgr_fg sgr) base)"
  define d where "d = (if vt_sgr_clears sgr sgr_bold then clear_sgr_flag c ?G else c)"
  define e where "e = (if vt_sgr_clears sgr sgr_underline then clear_sgr_flag d ?U else d)"
  define f where "f = (if vt_sgr_clears sgr sgr_negative then clear_sgr_flag e ?N else e)"
  define g where "g = (if vt_sgr_has sgr sgr_bold then set_sgr_flag f ?G else f)"
  define h where "h = (if vt_sgr_has sgr sgr_underline then set_sgr_flag g ?U else g)"
  have r: "r = (if vt_sgr_has sgr sgr_negative then set_sgr_flag h ?N else h)"
    unfolding assms h_def g_def f_def e_def d_def c_def apply_sgr_to_attributes_def Let_def fg_step_def bg_step_def
      reset_sgr_attributes_def ..
  note F = flag_masks [of "0x0400"] flag_masks [of "0x4000"] flag_masks [of "0x8000"]
  have "r AND 0xF = c AND 0xF" "r AND 0xF0 = c AND 0xF0" "r AND 0x3B00 = c AND 0x3B00"
    by (simp_all add: d_def e_def f_def g_def h_def r attr_consts F)
  moreover have "r AND ?G \<noteq> 0 \<longleftrightarrow> vt_sgr_has sgr sgr_bold \<or> (c AND ?G \<noteq> 0 \<and> \<not> vt_sgr_clears sgr sgr_bold)"
    "r AND ?U \<noteq> 0 \<longleftrightarrow> vt_sgr_has sgr sgr_underline \<or> (c AND ?U \<noteq> 0 \<and> \<not> vt_sgr_clears sgr sgr_underline)"
    "r AND ?N \<noteq> 0 \<longleftrightarrow> vt_sgr_has sgr sgr_negative \<or> (c AND ?N \<noteq> 0 \<and> \<not> vt_sgr_clears sgr sgr_negative)"
    by (simp_all add: d_def e_def f_def g_def h_def r attr_consts F)
  moreover have "c AND 0xF = (if col_kind (sgr_fg sgr) = color_default then 7
        else if sgr_color_applies (sgr_fg sgr) then swap_red_blue (col_value (sgr_fg sgr)) else base AND 0xF)"
    "c AND 0xF0 = (if col_kind (sgr_bg sgr) = color_default then 0
        else if sgr_color_applies (sgr_bg sgr) then push_bit 4 (swap_red_blue (col_value (sgr_bg sgr))) else base AND 0xF0)"
    "c AND 0x3B00 = base AND 0x3B00" "c AND ?G = base AND ?G" "c AND ?U = base AND ?U" "c AND ?N = base AND ?N"
    by (simp_all add: c_def attr_consts fg_step_fields bg_step_fields)
  moreover have "base AND 0x3B00 = (if vt_sgr_has sgr sgr_reset then 0 else a AND 0x3B00)"
    "base AND ?G \<noteq> 0 \<longleftrightarrow> a AND ?G \<noteq> 0 \<and> \<not> vt_sgr_has sgr sgr_reset"
    "base AND ?U \<noteq> 0 \<longleftrightarrow> a AND ?U \<noteq> 0 \<and> \<not> vt_sgr_has sgr sgr_reset"
    "base AND ?N \<noteq> 0 \<longleftrightarrow> a AND ?N \<noteq> 0 \<and> \<not> vt_sgr_has sgr sgr_reset"
    by (simp_all add: assms attr_consts)
  ultimately show ?thesis unfolding sgr_flag_spec_def by (simp only: simp_thms conj_commute) blast
qed

theorem sgr_fields_witness:
  "apply_sgr_to_attributes (vt_sgr_init\<lparr>sgr_fg := \<lparr>col_kind = color_indexed, col_value = 9, col_g = 0, col_b = 0\<rparr>\<rparr>) 0x1F AND 0xF
     = 0xC"
proof -
  let ?sgr = "vt_sgr_init\<lparr>sgr_fg := \<lparr>col_kind = color_indexed, col_value = 9, col_g = 0, col_b = 0\<rparr>\<rparr>"
  note sgr_fields [OF refl refl, of ?sgr "0x1F", THEN conjunct1]
  also have "(if col_kind (sgr_fg ?sgr) = color_default then 7
        else if sgr_color_applies (sgr_fg ?sgr) then swap_red_blue (col_value (sgr_fg ?sgr))
        else (if vt_sgr_has ?sgr sgr_reset then 7 else 0x1F) AND 0xF) = 0xC" by code_simp
  finally show ?thesis .
qed

end
