(* ===== verification/Roundtrip_Sgr.thy ===== *)
theory Roundtrip_Sgr
  imports Roundtrip_Send Dispatch_Sgr
begin

text \<open>
  The attribute sequences of the writer (\<open>vt_write_attr\<close> and the SGR case of \<open>vt_msg_send\<close>,
  \<open>libcorehost/pipe_bridge.hpp\<close>) read back by the parser and applied to an attribute word.
\<close>

section \<open>A sequence of SGR parameters\<close>

lemma join_params_numbers: "join_params (map int_chars (v # vs)) = int_chars v @ concat (map (\<lambda>v. 0x3B # int_chars v) vs)"
  by (induction vs arbitrary: v) simp_all

lemma sgr_message:
  assumes "vs \<noteq> []" "\<forall>v \<in> set vs. 0 \<le> v \<and> v \<le> 32767" "length vs \<le> MAX_PARAMS" and "sgr_params vs vt_sgr_init = Some s"
    and "clean p"
  shows "\<exists>p' m. vt_feeds p (csi_bytes False (map int_chars vs) [] 0x6D)
    = Some (p', [E_msg sgr_msg (csi_bytes False (map int_chars vs) [] 0x6D) m]) \<and> m_payload m = P_sgr s \<and> clean p'"
  by (rule csi_sends [where P = "\<lambda>m. m_payload m = P_sgr s" and i = sgr_msg, OF assms(5,1,2,3)])
    (use assms(4) in \<open>simp_all add: csi_finals\<close>)

section \<open>vt_write_attr\<close>

definition attr_params :: "nat \<Rightarrow> nat \<Rightarrow> int list" where
  "attr_params fg bg =
     [0] @ (if fg \<noteq> 7 then [fg_map ! (fg mod 16)] else []) @ (if bg \<noteq> 0 then [bg_map ! (bg mod 16)] else [])"

lemma low_bits: "a AND 0xF = take_bit 4 a" "a AND 0xFF = take_bit 8 a" for a :: attr
  by (simp_all add: take_bit_eq_mask mask_eq_exp_minus_1)

lemma unat_nibble: "unat (a AND 0xF) < 16" for a :: attr
  unfolding low_bits unsigned_take_bit_eq using take_bit_nat_less_exp [of 4 "unat a"] by simp

text \<open>The colour number of each nibble: red and blue exchanged.\<close>

definition sgr_index :: "nat \<Rightarrow> nat" where
  "sgr_index i = [0, 4, 2, 6, 1, 5, 3, 7, 8, 12, 10, 14, 9, 13, 11, 15] ! i"

lemma nibble_cases:
  "n < 16 \<Longrightarrow> n \<in> {0, 1, 2, 3, 4, 5, 6, 7, 8, 9, 10, 11, 12, 13, 14, 15 :: nat}"
  by (simp only: insert_iff empty_iff) arith

lemma sgr_index_swap: "n < 16 \<Longrightarrow> sgr_index n \<le> 15 \<and> swap_red_blue (sgr_index n) = of_nat n"
proof -
  have "\<forall>n < 16. sgr_index n \<le> 15 \<and> swap_red_blue (sgr_index n) = of_nat n" by code_simp
  then show "n < 16 \<Longrightarrow> ?thesis" by blast
qed

text \<open>The numbers of the colours.\<close>

lemma sgr_color_numbers:
  assumes "0 \<le> k" "k \<le> 7"
  shows "sgr_params ((30 + k) # vs) s = sgr_params vs (s\<lparr>sgr_fg := color_set_index k (sgr_fg s)\<rparr>)"
    "sgr_params ((90 + k) # vs) s = sgr_params vs (s\<lparr>sgr_fg := color_set_index (k + 8) (sgr_fg s)\<rparr>)"
    "sgr_params ((40 + k) # vs) s = sgr_params vs (s\<lparr>sgr_bg := color_set_index k (sgr_bg s)\<rparr>)"
    "sgr_params ((100 + k) # vs) s = sgr_params vs (s\<lparr>sgr_bg := color_set_index (k + 8) (sgr_bg s)\<rparr>)"
  using assms by (simp_all add: to_short_id)

lemma color_maps:
  "n < 16 \<Longrightarrow> fg_map ! n = (if sgr_index n \<le> 7 then 30 + int (sgr_index n) else 90 + (int (sgr_index n) - 8))
    \<and> bg_map ! n = (if sgr_index n \<le> 7 then 40 + int (sgr_index n) else 100 + (int (sgr_index n) - 8)) \<and> sgr_index n \<le> 15"
proof -
  have "\<forall>n < 16. fg_map ! n = (if sgr_index n \<le> 7 then 30 + int (sgr_index n) else 90 + (int (sgr_index n) - 8))
    \<and> bg_map ! n = (if sgr_index n \<le> 7 then 40 + int (sgr_index n) else 100 + (int (sgr_index n) - 8)) \<and> sgr_index n \<le> 15"
    by code_simp
  then show "n < 16 \<Longrightarrow> ?thesis" by blast
qed

lemma color_index_nat: "n < 256 \<Longrightarrow> color_set_index (int n) c = \<lparr>col_kind = color_indexed, col_value = n, col_g = 0, col_b = 0\<rparr>"
  by (simp add: color_set_index_def to_u8_def)

lemma index_numbers:
  assumes "n \<le> 15"
  shows "sgr_params ((if n \<le> 7 then 30 + int n else 90 + (int n - 8)) # vs) s =
      sgr_params vs (s\<lparr>sgr_fg := \<lparr>col_kind = color_indexed, col_value = n, col_g = 0, col_b = 0\<rparr>\<rparr>)"
    "sgr_params ((if n \<le> 7 then 40 + int n else 100 + (int n - 8)) # vs) s =
      sgr_params vs (s\<lparr>sgr_bg := \<lparr>col_kind = color_indexed, col_value = n, col_g = 0, col_b = 0\<rparr>\<rparr>)"
proof -
  have n: "n < 256" using assms by simp
  show "sgr_params ((if n \<le> 7 then 30 + int n else 90 + (int n - 8)) # vs) s =
      sgr_params vs (s\<lparr>sgr_fg := \<lparr>col_kind = color_indexed, col_value = n, col_g = 0, col_b = 0\<rparr>\<rparr>)"
    using assms sgr_color_numbers(1) [of "int n" vs s] sgr_color_numbers(2) [of "int n - 8" vs s]
    by (simp add: color_index_nat [OF n] del: sgr_params.simps)
  show "sgr_params ((if n \<le> 7 then 40 + int n else 100 + (int n - 8)) # vs) s =
      sgr_params vs (s\<lparr>sgr_bg := \<lparr>col_kind = color_indexed, col_value = n, col_g = 0, col_b = 0\<rparr>\<rparr>)"
    using assms sgr_color_numbers(3) [of "int n" vs s] sgr_color_numbers(4) [of "int n - 8" vs s]
    by (simp add: color_index_nat [OF n] del: sgr_params.simps)
qed

lemma map_decodes:
  assumes "n < 16"
  shows "sgr_params (fg_map ! n # vs) s =
     sgr_params vs (s\<lparr>sgr_fg := \<lparr>col_kind = color_indexed, col_value = sgr_index n, col_g = 0, col_b = 0\<rparr>\<rparr>)"
    "sgr_params (bg_map ! n # vs) s =
     sgr_params vs (s\<lparr>sgr_bg := \<lparr>col_kind = color_indexed, col_value = sgr_index n, col_g = 0, col_b = 0\<rparr>\<rparr>)"
proof -
  note m = color_maps [OF assms]
  show "sgr_params (fg_map ! n # vs) s =
     sgr_params vs (s\<lparr>sgr_fg := \<lparr>col_kind = color_indexed, col_value = sgr_index n, col_g = 0, col_b = 0\<rparr>\<rparr>)"
    unfolding m [THEN conjunct1] by (rule index_numbers(1)) (simp add: m)
  show "sgr_params (bg_map ! n # vs) s =
     sgr_params vs (s\<lparr>sgr_bg := \<lparr>col_kind = color_indexed, col_value = sgr_index n, col_g = 0, col_b = 0\<rparr>\<rparr>)"
    unfolding m [THEN conjunct2, THEN conjunct1] by (rule index_numbers(2)) (simp add: m)
qed

definition attr_sgr :: "nat \<Rightarrow> nat \<Rightarrow> vt_sgr" where
  "attr_sgr fg bg = \<lparr>sgr_set_flags = 1, sgr_clear_flags = 0,
     sgr_fg = (if fg \<noteq> 7 then \<lparr>col_kind = color_indexed, col_value = sgr_index fg, col_g = 0, col_b = 0\<rparr> else sgr_color_init),
     sgr_bg = (if bg \<noteq> 0 then \<lparr>col_kind = color_indexed, col_value = sgr_index bg, col_g = 0, col_b = 0\<rparr> else sgr_color_init)\<rparr>"

lemma sgr_params_reset: "sgr_params (0 # vs) s = sgr_params vs (vt_sgr_set sgr_reset s)"
  by simp

lemma attr_params_decode:
  assumes "fg < 16" "bg < 16"
  shows "sgr_params (attr_params fg bg) vt_sgr_init = Some (attr_sgr fg bg)"
proof -
  have m: "fg mod 16 = fg" "bg mod 16 = bg" using assms by simp_all
  have s: "vt_sgr_set sgr_reset vt_sgr_init = attr_sgr 7 0" by (simp add: vt_sgr_set_def vt_sgr_init_def attr_sgr_def)
  have f: "(attr_sgr 7 0)\<lparr>sgr_fg := \<lparr>col_kind = color_indexed, col_value = sgr_index fg, col_g = 0, col_b = 0\<rparr>\<rparr> = attr_sgr fg 0"
    if "fg \<noteq> 7" using that by (simp add: attr_sgr_def)
  have b: "(attr_sgr fg 0)\<lparr>sgr_bg := \<lparr>col_kind = color_indexed, col_value = sgr_index bg, col_g = 0, col_b = 0\<rparr>\<rparr> = attr_sgr fg bg"
    if "bg \<noteq> 0" for fg using that by (simp add: attr_sgr_def)
  have 1: "sgr_params ((if fg \<noteq> 7 then [fg_map ! fg] else []) @ vs) (attr_sgr 7 0) = sgr_params vs (attr_sgr fg 0)" for vs
    by (cases "fg = 7") (simp_all only: map_decodes [OF assms(1)] f append_Cons append_Nil if_True if_False simp_thms)
  have 2: "sgr_params (if bg \<noteq> 0 then [bg_map ! bg] else []) (attr_sgr fg 0) = Some (attr_sgr fg bg)"
    by (cases "bg = 0")
      (simp_all only: map_decodes [OF assms(2)] b if_True if_False simp_thms sgr_params.simps(1))
  show ?thesis unfolding attr_params_def append_Cons append_Nil sgr_params_reset s m 1 2 ..
qed

lemma attr_sgr_flags:
  "vt_sgr_has (attr_sgr fg bg) sgr_reset = True" "vt_sgr_has (attr_sgr fg bg) sgr_bold = False"
  "vt_sgr_has (attr_sgr fg bg) sgr_underline = False" "vt_sgr_has (attr_sgr fg bg) sgr_negative = False"
  "vt_sgr_clears (attr_sgr fg bg) f = False"
  by (simp_all add: vt_sgr_has_def vt_sgr_clears_def attr_sgr_def)

lemma attr_sgr_applies:
  assumes "fg < 16" "bg < 16"
  shows "apply_sgr_to_attributes (attr_sgr fg bg) a = of_nat fg OR push_bit 4 (of_nat bg)"
proof -
  let ?r = "apply_sgr_to_attributes (attr_sgr fg bg) a"
  have "?r = bg_step (sgr_bg (attr_sgr fg bg)) (fg_step (sgr_fg (attr_sgr fg bg)) 7)"
    unfolding apply_sgr_to_attributes_def attr_sgr_flags if_True if_False
    unfolding Let_def reset_sgr_attributes_def fg_step_def bg_step_def ..
  also have "fg_step (sgr_fg (attr_sgr fg bg)) 7 = of_nat fg"
    using sgr_index_swap [OF assms(1)] foreground_index(1) [of "sgr_index fg" 7]
    by (simp add: fg_step_def attr_sgr_def sgr_color_init_def)
  also have "bg_step (sgr_bg (attr_sgr fg bg)) (of_nat fg) = of_nat fg OR push_bit 4 (of_nat bg)"
  proof -
    have "(of_nat fg :: attr) AND 0xFF0F = of_nat fg" using nibble_cases [OF assms(1)] by auto
    then show ?thesis
      using sgr_index_swap [OF assms(2)] background_index(1) [of "sgr_index bg" "of_nat fg"]
      by (simp add: bg_step_def attr_sgr_def sgr_color_init_def)
  qed
  finally show ?thesis .
qed

lemma join_nibbles: "(a AND 0xF) OR push_bit 4 (drop_bit 4 a AND 0xF) = a AND 0xFF" for a :: attr
  unfolding low_bits by (auto simp: bit_eq_iff bit_simps)

lemma high_flags_dropped: "(x AND 0xFF) AND 0x4000 = 0" "(x AND 0xFF) AND 0x8000 = 0" "(x AND 0xFF) AND 0x0400 = 0" for x :: attr
  by (simp_all add: and.assoc)

lemma attr_buffer:
  "vo_buffer (vt_write_attr a st) = vo_buffer st @
     csi_bytes False (map int_chars (attr_params (unat (a AND 0xF)) (unat (drop_bit 4 a AND 0xF)))) [] 0x6D"
proof (cases "a = 7")
  case True
  then show ?thesis by (simp add: vt_write_attr_def out_defs csi_bytes_def attr_params_def asc_def int_chars_def dec_chars.simps)
next
  case False
  have z: "int_chars 0 = [0x30]" by (simp add: int_chars_def dec_chars.simps)
  show ?thesis
    by (simp add: False vt_write_attr_def Let_def high_flags_dropped out_defs csi_bytes_def attr_params_def asc_def z)
qed

text \<open>C30: A cell's colours survive the terminal: the sequence \<open>vt_write_attr\<close> writes for an attribute word is
  read back as one SGR message, and applied to any attributes it gives the two colour nibbles of the word
  and nothing else. The three flag bits are lost: the code tests them in \<open>(attr >> 8) & 0xFF\<close> with
  masks from \<open>0x0400\<close> up.\<close>
theorem attr_round_trip:
  assumes "clean p"
  shows "\<exists>p' raw m s. vt_run p (vo_buffer (vt_write_attr a vt_out_init)) = Some (p', [E_msg sgr_msg raw m]) \<and> clean p'
    \<and> m_payload m = P_sgr s \<and> (\<forall>b. apply_sgr_to_attributes s b = a AND 0xFF)"
proof -
  let ?fg = "unat (a AND 0xF)" and ?bg = "unat (drop_bit 4 a AND 0xF)"
  have n: "?fg < 16" "?bg < 16" by (rule unat_nibble)+
  have small: "0 \<le> fg_map ! i \<and> fg_map ! i \<le> 32767 \<and> 0 \<le> bg_map ! i \<and> bg_map ! i \<le> 32767" if "i < 16" for i
    using color_maps [OF that] by auto
  have "\<forall>v \<in> set (attr_params ?fg ?bg). 0 \<le> v \<and> v \<le> 32767" using small [of "?fg mod 16"] small [of "?bg mod 16"]
    by (auto simp: attr_params_def)
  moreover have "attr_params ?fg ?bg \<noteq> []" "length (attr_params ?fg ?bg) \<le> MAX_PARAMS"
    by (simp_all add: attr_params_def MAX_PARAMS_def)
  ultimately obtain p' raw m where r: "vt_feeds p (vo_buffer (vt_write_attr a vt_out_init)) = Some (p', [E_msg sgr_msg raw m])"
    "m_payload m = P_sgr (attr_sgr ?fg ?bg)" "clean p'"
    using sgr_message [OF _ _ _ attr_params_decode [OF n] assms] unfolding attr_buffer by (fastforce simp: vt_out_init_def)
  have "apply_sgr_to_attributes (attr_sgr ?fg ?bg) b = a AND 0xFF" for b
    using attr_sgr_applies [OF n, of b] join_nibbles [of a] by simp
  moreover have "parser_inv p" using assms by (simp add: clean_def ground_parser_inv)
  ultimately show ?thesis using r by (auto simp: vt_run_eq_feeds)
qed

theorem attr_round_trip_witness:
  "\<exists>p' raw m s. vt_run vt_parser_init (vo_buffer (vt_write_attr 0x801E vt_out_init)) = Some (p', [E_msg sgr_msg raw m])
    \<and> m_payload m = P_sgr s \<and> apply_sgr_to_attributes s 0x4007 = 0x1E"
proof -
  have "clean vt_parser_init" by (simp add: clean_def ground_inv_def) (simp add: vt_parser_init_def)
  moreover have "(0x801E :: attr) AND 0xFF = 0x1E" by simp
  ultimately show ?thesis using attr_round_trip [of vt_parser_init "0x801E"] by metis
qed

section \<open>The SGR case of vt_msg_send\<close>

text \<open>The parameters as a list.\<close>

definition flag_table :: "vt_sgr \<Rightarrow> (bool \<times> int) list" where
  "flag_table s =
     [(vt_sgr_has s sgr_bold, 1), (vt_sgr_has s sgr_faint, 2), (vt_sgr_has s sgr_italic, 3),
      (vt_sgr_has s sgr_underline, 4), (vt_sgr_has s sgr_blink, 5), (vt_sgr_has s sgr_negative, 7),
      (vt_sgr_has s sgr_conceal, 8), (vt_sgr_has s sgr_strikethrough, 9),
      (vt_sgr_clears s sgr_bold \<or> vt_sgr_clears s sgr_faint, 22), (vt_sgr_clears s sgr_italic, 23),
      (vt_sgr_clears s sgr_underline, 24), (vt_sgr_clears s sgr_blink, 25), (vt_sgr_clears s sgr_negative, 27),
      (vt_sgr_clears s sgr_conceal, 28), (vt_sgr_clears s sgr_strikethrough, 29)]"

definition color_params :: "vt_sgr_color \<Rightarrow> int \<Rightarrow> int \<Rightarrow> int \<Rightarrow> int \<Rightarrow> int list" where
  "color_params c default_code extended normal bright =
     (case col_kind c of
        color_none \<Rightarrow> []
      | color_default \<Rightarrow> [default_code]
      | color_rgb \<Rightarrow> [extended, 2, int (col_value c), int (col_g c), int (col_b c)]
      | color_indexed \<Rightarrow>
          if col_value c \<le> 15
          then [if col_value c \<le> 7 then normal + int (col_value c) else bright + (int (col_value c) - 8)]
          else [extended, 5, int (col_value c)])"

definition sgr_send_params :: "vt_sgr \<Rightarrow> int list" where
  "sgr_send_params s =
     (if vt_sgr_has s sgr_reset then [0]
      else 0 # map snd (filter fst (flag_table s)) @ color_params (sgr_fg s) 39 38 30 90 @ color_params (sgr_bg s) 49 48 40 100)"

lemma fold_sgr_param:
  "fold vt_append_sgr_param vs (False, st) = (False, st\<lparr>vo_buffer := vo_buffer st @ concat (map (\<lambda>v. 0x3B # int_chars v) vs)\<rparr>)"
  by (induction vs arbitrary: st) (simp_all add: vt_append_sgr_param_def out_defs)

lemma send_color_fold: "vt_send_sgr_color c d e n b fo = fold vt_append_sgr_param (color_params c d e n b) fo"
  by (cases "col_kind c") (simp_all add: vt_send_sgr_color_def color_params_def)

lemma sgr_buffer:
  "vo_buffer (vt_send_sgr s st) = vo_buffer st @ csi_bytes False (map int_chars (sgr_send_params s)) [] 0x6D"
proof -
  have z: "int_chars 0 = [0x30]" by (simp add: int_chars_def dec_chars.simps)
  have first: "vt_append_sgr_param 0 (True, st) = (False, st\<lparr>vo_buffer := vo_buffer st @ [0x30]\<rparr>)" for st
    by (simp add: vt_append_sgr_param_def out_defs z)
  show ?thesis
  proof (cases "vt_sgr_has s sgr_reset")
    case True
    then show ?thesis by (simp add: vt_send_sgr_def sgr_send_params_def out_defs csi_bytes_def asc_def z)
  next
    case False
    then show ?thesis
      unfolding vt_send_sgr_def sgr_send_params_def Let_def first vt_send_sgr_flags_def send_color_fold flag_table_def [symmetric]
        fold_sgr_param join_params_numbers csi_bytes_def
      by (simp only: if_False join_params_numbers) (simp add: out_defs asc_def z)
  qed
qed

text \<open>The flags.\<close>

definition flag_step :: "int \<Rightarrow> vt_sgr \<Rightarrow> vt_sgr" where
  "flag_step v s =
     (if v = 1 then vt_sgr_set sgr_bold s else if v = 2 then vt_sgr_set sgr_faint s else if v = 3 then vt_sgr_set sgr_italic s
      else if v = 4 then vt_sgr_set sgr_underline s else if v = 5 then vt_sgr_set sgr_blink s
      else if v = 7 then vt_sgr_set sgr_negative s else if v = 8 then vt_sgr_set sgr_conceal s
      else if v = 9 then vt_sgr_set sgr_strikethrough s
      else if v = 22 then vt_sgr_clear sgr_faint (vt_sgr_clear sgr_bold s) else if v = 23 then vt_sgr_clear sgr_italic s
      else if v = 24 then vt_sgr_clear sgr_underline s else if v = 25 then vt_sgr_clear sgr_blink s
      else if v = 27 then vt_sgr_clear sgr_negative s else if v = 28 then vt_sgr_clear sgr_conceal s
      else vt_sgr_clear sgr_strikethrough s)"

definition flag_numbers :: "int set" where
  "flag_numbers = {1, 2, 3, 4, 5, 7, 8, 9, 22, 23, 24, 25, 27, 28, 29}"

lemma flag_step: "v \<in> flag_numbers \<Longrightarrow> sgr_params (v # vs) s = sgr_params vs (flag_step v s)"
  unfolding flag_numbers_def by (elim insertE emptyE; hypsubst; simp add: flag_step_def)

lemma flag_run:
  "snd ` set L \<subseteq> flag_numbers \<Longrightarrow>
     sgr_params (map snd (filter fst L) @ vs) s = sgr_params vs (fold (\<lambda>(b, v) s. if b then flag_step v s else s) L s)"
  by (induction L arbitrary: s) (auto simp: flag_step simp del: sgr_params.simps(2))

lemma flag_table_numbers: "snd ` set (flag_table s) \<subseteq> flag_numbers"
  by (simp add: flag_table_def flag_numbers_def)

lemma flag_bits: "vt_sgr_flag_bit f AND vt_sgr_flag_bit g = (if f = g then vt_sgr_flag_bit f else 0)" "vt_sgr_flag_bit f \<noteq> 0"
  by (cases f; cases g; simp) (cases f; simp)

lemma has_set: "vt_sgr_has (vt_sgr_set g s) f \<longleftrightarrow> f = g \<or> vt_sgr_has s f"
  using flag_bits(1) [of g f] flag_bits(2) [of f] by (auto simp: vt_sgr_has_def vt_sgr_set_def mask_or)

lemma has_clear: "vt_sgr_has (vt_sgr_clear g s) f \<longleftrightarrow> f \<noteq> g \<and> vt_sgr_has s f"
proof -
  have m: "NOT (vt_sgr_flag_bit g) AND vt_sgr_flag_bit f = (if f = g then 0 else vt_sgr_flag_bit f)" by (cases f; cases g; simp)
  have "(sgr_set_flags s AND NOT (vt_sgr_flag_bit g)) AND vt_sgr_flag_bit f = (if f = g then 0 else sgr_set_flags s AND vt_sgr_flag_bit f)"
    unfolding and.assoc m by simp
  then show ?thesis by (simp add: vt_sgr_has_def vt_sgr_clear_def)
qed

lemma has_init: "\<not> vt_sgr_has vt_sgr_init f"
  by (simp add: vt_sgr_has_def vt_sgr_init_def)

lemma has_colors: "vt_sgr_has (s\<lparr>sgr_fg := c, sgr_bg := d\<rparr>) f = vt_sgr_has s f"
  by (simp add: vt_sgr_has_def)

lemma flag_colors: "sgr_fg (vt_sgr_set f s) = sgr_fg s" "sgr_bg (vt_sgr_set f s) = sgr_bg s"
  "sgr_fg (vt_sgr_clear f s) = sgr_fg s" "sgr_bg (vt_sgr_clear f s) = sgr_bg s"
  by (simp_all add: vt_sgr_set_def vt_sgr_clear_def)

text \<open>The clearing parameter 22 stands for both intensities.\<close>

definition cleared :: "vt_sgr \<Rightarrow> vt_sgr_flag \<Rightarrow> bool" where
  "cleared s f \<longleftrightarrow> (if f \<in> {sgr_bold, sgr_faint} then vt_sgr_clears s sgr_bold \<or> vt_sgr_clears s sgr_faint else vt_sgr_clears s f)"

definition flags_read :: "vt_sgr \<Rightarrow> vt_sgr" where
  "flags_read s = fold (\<lambda>(b, v) s. if b then flag_step v s else s) (flag_table s) (vt_sgr_set sgr_reset vt_sgr_init)"

lemma has_if:
  "vt_sgr_has (if b then vt_sgr_set g s else s) f \<longleftrightarrow> b \<and> f = g \<or> vt_sgr_has s f"
  "vt_sgr_has (if b then vt_sgr_clear g s else s) f \<longleftrightarrow> vt_sgr_has s f \<and> \<not> (b \<and> f = g)"
  "vt_sgr_has (if b then vt_sgr_clear g (vt_sgr_clear h s) else s) f \<longleftrightarrow> vt_sgr_has s f \<and> \<not> (b \<and> (f = g \<or> f = h))"
  by (auto simp: has_set has_clear)

lemma colors_if:
  "sgr_fg (if b then flag_step v s else s) = sgr_fg s" "sgr_bg (if b then flag_step v s else s) = sgr_bg s"
  by (simp_all add: flag_step_def flag_colors)

lemma flags_read_steps:
  "flag_step 1 s = vt_sgr_set sgr_bold s" "flag_step 2 s = vt_sgr_set sgr_faint s" "flag_step 3 s = vt_sgr_set sgr_italic s"
  "flag_step 4 s = vt_sgr_set sgr_underline s" "flag_step 5 s = vt_sgr_set sgr_blink s" "flag_step 7 s = vt_sgr_set sgr_negative s"
  "flag_step 8 s = vt_sgr_set sgr_conceal s" "flag_step 9 s = vt_sgr_set sgr_strikethrough s"
  "flag_step 22 s = vt_sgr_clear sgr_faint (vt_sgr_clear sgr_bold s)" "flag_step 23 s = vt_sgr_clear sgr_italic s"
  "flag_step 24 s = vt_sgr_clear sgr_underline s" "flag_step 25 s = vt_sgr_clear sgr_blink s"
  "flag_step 27 s = vt_sgr_clear sgr_negative s" "flag_step 28 s = vt_sgr_clear sgr_conceal s"
  "flag_step 29 s = vt_sgr_clear sgr_strikethrough s"
  by (simp_all add: flag_step_def)

lemma flags_read_has:
  "vt_sgr_has (flags_read s) f \<longleftrightarrow> f = sgr_reset \<or> vt_sgr_has s f \<and> \<not> cleared s f"
  unfolding flags_read_def flag_table_def fold_simps comp_apply id_apply prod.case flags_read_steps has_if has_set
  by (cases f) (simp_all add: has_init cleared_def)

lemma flags_read_colors: "sgr_fg (flags_read s) = sgr_color_init" "sgr_bg (flags_read s) = sgr_color_init"
  unfolding flags_read_def flag_table_def fold_simps prod.case colors_if flag_colors by (simp_all add: vt_sgr_init_def)

text \<open>The colours.\<close>

definition color_ok :: "vt_sgr_color \<Rightarrow> bool" where
  "color_ok c \<longleftrightarrow>
     (case col_kind c of
        color_none \<Rightarrow> c = sgr_color_init
      | color_default \<Rightarrow> c = color_set_default c
      | color_indexed \<Rightarrow> col_value c < 256 \<and> col_g c = 0 \<and> col_b c = 0
      | color_rgb \<Rightarrow> col_value c < 256 \<and> col_g c < 256 \<and> col_b c < 256)"

definition index_color :: "nat \<Rightarrow> vt_sgr_color" where
  "index_color n = \<lparr>col_kind = color_indexed, col_value = n, col_g = 0, col_b = 0\<rparr>"

definition rgb_color :: "nat \<Rightarrow> nat \<Rightarrow> nat \<Rightarrow> vt_sgr_color" where
  "rgb_color r g b = \<lparr>col_kind = color_rgb, col_value = r, col_g = g, col_b = b\<rparr>"

lemma color_okE:
  assumes "color_ok c"
  obtains "c = sgr_color_init" | "c = color_set_default c" | n where "c = index_color n" "n \<le> 15"
    | n where "c = index_color n" "15 < n" "n < 256" | r g b where "c = rgb_color r g b" "r < 256" "g < 256" "b < 256"
proof (cases "col_kind c")
  case color_indexed
  then have "c = index_color (col_value c)" "col_value c < 256" using assms by (simp_all add: color_ok_def index_color_def)
  then show thesis using that(3,4) by (cases "col_value c \<le> 15") auto
next
  case color_rgb
  then have "c = rgb_color (col_value c) (col_g c) (col_b c)" by (simp add: rgb_color_def)
  then show thesis using that(5) [of "col_value c" "col_g c" "col_b c"] assms color_rgb by (simp add: color_ok_def)
qed (use assms that(1,2) in \<open>simp_all add: color_ok_def\<close>)

lemma color_params_of:
  "color_params sgr_color_init d e n b = []" "color_params (color_set_default c) d e n b = [d]"
  "k \<le> 15 \<Longrightarrow> color_params (index_color k) d e n b = [if k \<le> 7 then n + int k else b + (int k - 8)]"
  "15 < k \<Longrightarrow> color_params (index_color k) d e n b = [e, 5, int k]"
  "color_params (rgb_color x y z) d e n b = [e, 2, int x, int y, int z]"
  by (simp_all add: color_params_def sgr_color_init_def color_set_default_def index_color_def rgb_color_def)

lemma color_set_default_any: "color_set_default c = color_set_default d"
  by (simp add: color_set_default_def)

lemma color_extended:
  "n < 256 \<Longrightarrow> sgr_params (38 # 5 # int n # vs) s = sgr_params vs (s\<lparr>sgr_fg := index_color n\<rparr>)"
  "n < 256 \<Longrightarrow> sgr_params (48 # 5 # int n # vs) s = sgr_params vs (s\<lparr>sgr_bg := index_color n\<rparr>)"
  "x < 256 \<Longrightarrow> y < 256 \<Longrightarrow> z < 256 \<Longrightarrow>
     sgr_params (38 # 2 # int x # int y # int z # vs) s = sgr_params vs (s\<lparr>sgr_fg := rgb_color x y z\<rparr>)"
  "x < 256 \<Longrightarrow> y < 256 \<Longrightarrow> z < 256 \<Longrightarrow>
     sgr_params (48 # 2 # int x # int y # int z # vs) s = sgr_params vs (s\<lparr>sgr_bg := rgb_color x y z\<rparr>)"
  by (simp_all add: color_index_nat index_color_def rgb_color_def color_set_rgb_def to_u8_def)

lemma color_default_numbers:
  "sgr_params (39 # vs) s = sgr_params vs (s\<lparr>sgr_fg := color_set_default c\<rparr>)"
  "sgr_params (49 # vs) s = sgr_params vs (s\<lparr>sgr_bg := color_set_default c\<rparr>)"
  by (simp_all add: color_set_default_def)

lemma color_reads:
  assumes "color_ok c"
  shows "sgr_fg s = sgr_color_init \<Longrightarrow> sgr_params (color_params c 39 38 30 90 @ vs) s = sgr_params vs (s\<lparr>sgr_fg := c\<rparr>)"
    "sgr_bg s = sgr_color_init \<Longrightarrow> sgr_params (color_params c 49 48 40 100 @ vs) s = sgr_params vs (s\<lparr>sgr_bg := c\<rparr>)"
proof -
  show "sgr_params (color_params c 39 38 30 90 @ vs) s = sgr_params vs (s\<lparr>sgr_fg := c\<rparr>)" if "sgr_fg s = sgr_color_init"
  proof (rule color_okE [OF assms], goal_cases)
    case 1
    then have "s\<lparr>sgr_fg := c\<rparr> = s" using that by (cases s) simp
    with 1 show ?case by (simp add: color_params_of)
  next
    case 2
    then show ?case by (metis append_Cons append_Nil color_default_numbers(1) color_params_of(2))
  qed (simp_all only: color_params_of append_Cons append_Nil index_numbers(1) color_extended index_color_def [symmetric])
  show "sgr_params (color_params c 49 48 40 100 @ vs) s = sgr_params vs (s\<lparr>sgr_bg := c\<rparr>)" if "sgr_bg s = sgr_color_init"
  proof (rule color_okE [OF assms], goal_cases)
    case 1
    then have "s\<lparr>sgr_bg := c\<rparr> = s" using that by (cases s) simp
    with 1 show ?case by (simp add: color_params_of)
  next
    case 2
    then show ?case by (metis append_Cons append_Nil color_default_numbers(2) color_params_of(2))
  qed (simp_all only: color_params_of append_Cons append_Nil index_numbers(2) color_extended index_color_def [symmetric])
qed

lemma color_params_small:
  assumes "color_ok c" and "{d, e, n, b} \<subseteq> {30..100}" and "v \<in> set (color_params c d e n b)"
  shows "0 \<le> v \<and> v \<le> 32767"
proof (rule color_okE [OF assms(1)], goal_cases)
  case 2
  then have "color_params c d e n b = [d]" by (metis color_params_of(2))
  then show ?case using assms(2,3) by simp
qed (use assms(2,3) in \<open>auto simp: color_params_of split: if_splits\<close>)

lemma sgr_send_params_small:
  assumes "color_ok (sgr_fg s)" "color_ok (sgr_bg s)"
  shows "\<forall>v \<in> set (sgr_send_params s). 0 \<le> v \<and> v \<le> 32767"
proof -
  have "0 \<le> v \<and> v \<le> 32767" if "v \<in> set (map snd (filter fst (flag_table s)))" for v
  proof -
    have "v \<in> flag_numbers" using that flag_table_numbers [of s] by (auto simp del: snd_conv)
    then show ?thesis by (auto simp: flag_numbers_def)
  qed
  then show ?thesis
    using color_params_small [OF assms(1), of 39 38 30 90] color_params_small [OF assms(2), of 49 48 40 100]
    by (auto simp: sgr_send_params_def)
qed

text \<open>C31: What a terminal makes of an SGR message written by \<open>vt_msg_send\<close>: one SGR message, which always resets
  first (so the message stands for a whole attribute word, as the callers in \<open>api_handlers.hpp\<close> use it); the flags
  set are those of the message less the cleared ones, the 22 of one intensity clearing the other too
  (bold set and faint cleared, as \<open>ESC [ 22 ; 1 m\<close> parses to, arrives without bold); the colours arrive as they
  are; and a message with a reset loses all else.\<close>
theorem sgr_sent_resets:
  assumes "clean p" and "color_ok (sgr_fg s)" "color_ok (sgr_bg s)" and "length (sgr_send_params s) \<le> MAX_PARAMS"
    and "m_payload msg = P_sgr s"
  shows "\<exists>p' raw m r. vt_run p (vo_buffer (vt_msg_send utf8 sgr_msg msg vt_out_init)) = Some (p', [E_msg sgr_msg raw m]) \<and> clean p'
    \<and> m_payload m = P_sgr r
    \<and> (\<forall>f. vt_sgr_has r f \<longleftrightarrow> f = sgr_reset \<or> \<not> vt_sgr_has s sgr_reset \<and> vt_sgr_has s f \<and> \<not> cleared s f)
    \<and> sgr_fg r = (if vt_sgr_has s sgr_reset then sgr_color_init else sgr_fg s)
    \<and> sgr_bg r = (if vt_sgr_has s sgr_reset then sgr_color_init else sgr_bg s)"
proof -
  define r where "r = (if vt_sgr_has s sgr_reset then vt_sgr_set sgr_reset vt_sgr_init
    else (flags_read s)\<lparr>sgr_fg := sgr_fg s, sgr_bg := sgr_bg s\<rparr>)"
  have colors: "sgr_params (color_params (sgr_fg s) 39 38 30 90 @ color_params (sgr_bg s) 49 48 40 100) (flags_read s)
      = Some ((flags_read s)\<lparr>sgr_fg := sgr_fg s, sgr_bg := sgr_bg s\<rparr>)"
    using color_reads(1) [OF assms(2) flags_read_colors(1)] color_reads(2) [OF assms(3), of "(flags_read s)\<lparr>sgr_fg := sgr_fg s\<rparr>" "[]"]
    by (simp add: flags_read_colors)
  have reads: "sgr_params (sgr_send_params s) vt_sgr_init = Some r"
    unfolding r_def sgr_send_params_def if_distrib [of "\<lambda>vs. sgr_params vs vt_sgr_init"] sgr_params_reset flag_run [OF flag_table_numbers]
      flags_read_def [symmetric] colors
    by simp
  have "sgr_send_params s \<noteq> []" by (simp add: sgr_send_params_def)
  from sgr_message [OF this sgr_send_params_small [OF assms(2,3)] assms(4) reads assms(1)]
  obtain p' raw m where "vt_feeds p (vo_buffer (vt_msg_send utf8 sgr_msg msg vt_out_init)) = Some (p', [E_msg sgr_msg raw m])"
    "m_payload m = P_sgr r" "clean p'"
    by (auto simp: vt_msg_send_def assms(5) sgr_buffer vt_out_init_def)
  moreover have "parser_inv p" using assms(1) by (simp add: clean_def ground_parser_inv)
  moreover have "vt_sgr_has r f \<longleftrightarrow> f = sgr_reset \<or> \<not> vt_sgr_has s sgr_reset \<and> vt_sgr_has s f \<and> \<not> cleared s f" for f
    by (simp add: r_def has_set has_init has_colors flags_read_has)
  moreover have "sgr_fg r = (if vt_sgr_has s sgr_reset then sgr_color_init else sgr_fg s)"
    "sgr_bg r = (if vt_sgr_has s sgr_reset then sgr_color_init else sgr_bg s)"
    by (simp_all add: r_def flag_colors vt_sgr_init_def)
  ultimately show ?thesis by (simp add: vt_run_eq_feeds)
qed

theorem sgr_sent_resets_witness:
  "\<exists>p' raw m r. vt_run vt_parser_init (vo_buffer (vt_msg_send (\<lambda>c. [c]) sgr_msg
       \<lparr>m_payload = P_sgr (vt_sgr_set sgr_bold (vt_sgr_clear sgr_faint (vt_sgr_clear sgr_bold vt_sgr_init))), m_key_modifier = 1\<rparr>
       vt_out_init)) = Some (p', [E_msg sgr_msg raw m])
     \<and> m_payload m = P_sgr r \<and> vt_sgr_has r sgr_reset \<and> \<not> vt_sgr_has r sgr_bold"
proof -
  let ?s = "vt_sgr_set sgr_bold (vt_sgr_clear sgr_faint (vt_sgr_clear sgr_bold vt_sgr_init))"
  have c: "clean vt_parser_init" by (simp add: clean_def ground_inv_def) (simp add: vt_parser_init_def)
  have s: "color_ok (sgr_fg ?s)" "color_ok (sgr_bg ?s)" "length (sgr_send_params ?s) \<le> MAX_PARAMS" "cleared ?s sgr_bold"
    by code_simp+
  from sgr_sent_resets [OF c s(1-3), of "\<lparr>m_payload = P_sgr ?s, m_key_modifier = 1\<rparr>" "\<lambda>c. [c]"]
  show ?thesis using s(4) by auto
qed

end
