(* ===== verification/Lf_To_Crlf.thy ===== *)
theory Lf_To_Crlf
  imports Vt_Output Stream_Step
begin

text \<open>
  The line ends of raw output (\<open>vt_append_str_lf_to_crlf\<close>, \<open>libcorehost/pipe_bridge.hpp\<close>) against a definition
  that goes from byte to byte, and as an instance of the interface of incremental readers.
\<close>

text \<open>A LF that no CR precedes becomes CR LF.\<close>

fun crlf :: "nat \<Rightarrow> nat list \<Rightarrow> nat list" where
  "crlf prev [] = []"
| "crlf prev (c # cs) = (if c = 0x0A \<and> prev \<noteq> 0x0D then [0x0D, 0x0A] else [c]) @ crlf c cs"

definition last_byte :: "nat \<Rightarrow> nat list \<Rightarrow> nat" where
  "last_byte prev t = (if t = [] then prev else last t)"

definition prev_byte :: "nat list \<Rightarrow> nat \<Rightarrow> nat \<Rightarrow> nat" where
  "prev_byte t prev i = (if i = 0 then prev else t ! (i - 1))"

lemma crlf_append: "crlf prev (xs @ ys) = crlf prev xs @ crlf (last_byte prev xs) ys"
  by (induction xs arbitrary: prev) (simp_all add: last_byte_def)

text \<open>The loop: what is appended, and the part from \<open>start\<close> on, is the rewriting of the rest.\<close>

lemma lf_to_crlf_loop:
  assumes "i + k = length t" "start \<le> i"
    and "take (i - start) (drop start t) = crlf (prev_byte t prev start) (take (i - start) (drop start t))"
  shows "\<exists>start' st'. lf_to_crlf_loop t prev start i k st = (start', st')
    \<and> vo_buffer st' @ drop start' t = vo_buffer st @ take (i - start) (drop start t) @ crlf (prev_byte t prev i) (drop i t)
    \<and> st' = st\<lparr>vo_buffer := vo_buffer st'\<rparr>"
  using assms
proof (induction k arbitrary: start i st)
  case 0
  then show ?case by simp
next
  case (Suc k)
  let ?pend = "take (i - start) (drop start t)"
  have i: "i < length t" using Suc.prems(1) by simp
  then have rest: "drop i t = t ! i # drop (Suc i) t" by (simp add: Cons_nth_drop_Suc)
  show ?case
  proof (cases "t ! i = 0x0A \<and> prev_byte t prev i \<noteq> 0x0D")
    case True
    let ?st = "vt_append_str [0x0D, 0x0A] (vt_append_str ?pend st)"
    have "lf_to_crlf_loop t prev start i (Suc k) st = lf_to_crlf_loop t prev (i + 1) (i + 1) k ?st"
      using True by (simp add: prev_byte_def)
    moreover obtain start' st' where r: "lf_to_crlf_loop t prev (i + 1) (i + 1) k ?st = (start', st')"
      "vo_buffer st' @ drop start' t = vo_buffer ?st @ crlf (prev_byte t prev (i + 1)) (drop (i + 1) t)"
      "st' = ?st\<lparr>vo_buffer := vo_buffer st'\<rparr>"
      using Suc.IH [of "i + 1" "i + 1" ?st] Suc.prems(1) by auto
    moreover have "prev_byte t prev (i + 1) = t ! i" by (simp add: prev_byte_def)
    ultimately show ?thesis using True rest by (auto simp: out_defs)
  next
    case False
    have pend: "take (i + 1 - start) (drop start t) = ?pend @ [t ! i]"
      using Suc.prems(2) i by (simp add: Suc_diff_le take_Suc_conv_app_nth)
    have "last_byte (prev_byte t prev start) ?pend = prev_byte t prev i"
    proof (cases "i = start")
      case False
      then have "0 < i - start" "start + (i - start - 1) = i - 1" using Suc.prems(2) by simp_all
      then show ?thesis using i Suc.prems(2) False by (simp add: last_byte_def prev_byte_def last_conv_nth)
    qed (simp add: last_byte_def)
    then have step: "take (i + 1 - start) (drop start t) = crlf (prev_byte t prev start) (take (i + 1 - start) (drop start t))"
      using False Suc.prems(3) unfolding pend by (simp add: crlf_append)
    have "lf_to_crlf_loop t prev start i (Suc k) st = lf_to_crlf_loop t prev start (i + 1) k st"
      unfolding lf_to_crlf_loop.simps prev_byte_def [symmetric] by (simp only: if_not_P [OF False])
    moreover obtain start' st' where r: "lf_to_crlf_loop t prev start (i + 1) k st = (start', st')"
      "vo_buffer st' @ drop start' t
         = vo_buffer st @ take (i + 1 - start) (drop start t) @ crlf (prev_byte t prev (i + 1)) (drop (i + 1) t)"
      "st' = st\<lparr>vo_buffer := vo_buffer st'\<rparr>"
      using Suc.IH [OF _ _ step, of st] Suc.prems(1,2) by auto
    moreover have "prev_byte t prev (i + 1) = t ! i" by (simp add: prev_byte_def)
    ultimately show ?thesis using False rest unfolding pend by auto
  qed
qed

lemma lf_to_crlf:
  "vt_append_str_lf_to_crlf t st =
     st\<lparr>vo_buffer := vo_buffer st @ crlf (vo_replay_last_byte st) t, vo_replay_last_byte := last_byte (vo_replay_last_byte st) t\<rparr>"
proof -
  obtain start st1 where r: "lf_to_crlf_loop t (vo_replay_last_byte st) 0 0 (length t) st = (start, st1)"
    "vo_buffer st1 @ drop start t = vo_buffer st @ crlf (vo_replay_last_byte st) t" "st1 = st\<lparr>vo_buffer := vo_buffer st1\<rparr>"
    using lf_to_crlf_loop [of 0 "length t" t 0 "vo_replay_last_byte st" st] by (auto simp: prev_byte_def)
  obtain b where b: "st1 = st\<lparr>vo_buffer := b\<rparr>" "b @ drop start t = vo_buffer st @ crlf (vo_replay_last_byte st) t"
    using r(2,3) by auto
  show ?thesis using r(1) b(2) by (simp add: vt_append_str_lf_to_crlf_def b(1) out_defs last_byte_def)
qed

text \<open>As an incremental reader: the state is the byte before, the events are the bytes written.\<close>

definition lf_step :: "nat \<Rightarrow> nat \<Rightarrow> (nat \<times> nat list) option" where
  "lf_step prev c = Some (c, if c = 0x0A \<and> prev \<noteq> 0x0D then [0x0D, 0x0A] else [c])"

definition lf_run :: "nat \<Rightarrow> nat list \<Rightarrow> (nat \<times> nat list) option" where
  "lf_run prev t =
     (let st = vt_append_str_lf_to_crlf t (vt_out_init\<lparr>vo_replay_last_byte := prev\<rparr>)
      in Some (vo_replay_last_byte st, vo_buffer st))"

interpretation lf: stream_step lf_step lf_run "\<lambda>_. True"
  by unfold_locales (simp_all add: lf_run_def lf_step_def lf_to_crlf last_byte_def vt_out_init_def Let_def)

text \<open>C32: How output is cut into writes does not matter to its line ends: the bytes queued by successive calls of
  \<open>vt_append_str_lf_to_crlf\<close> are those of one call with all of it, a LF becoming CR LF exactly if the byte
  before it, in this write or at the end of an earlier one, is not a CR; nothing else is changed.\<close>
theorem lf_to_crlf_chunks:
  "run_chunks lf_run prev chunks = lf_run prev (concat chunks)
   \<and> lf_run prev t = Some (last_byte prev t, crlf prev t)
   \<and> filter (\<lambda>c. c \<noteq> 0x0D) (crlf prev t) = filter (\<lambda>c. c \<noteq> 0x0D) t"
proof (intro conjI)
  show "run_chunks lf_run prev chunks = lf_run prev (concat chunks)" by (rule lf.run_chunks_concat) simp
  show "lf_run prev t = Some (last_byte prev t, crlf prev t)" by (simp add: lf_run_def lf_to_crlf vt_out_init_def Let_def)
  show "filter (\<lambda>c. c \<noteq> 0x0D) (crlf prev t) = filter (\<lambda>c. c \<noteq> 0x0D) t" by (induction t arbitrary: prev) simp_all
qed

end
