(* ===== verification/Dispatch_Text.thy ===== *)
theory Dispatch_Text
  imports Dispatch_State
begin

text \<open>
  Text against the screen in reading order: characters of one column are one overwrite of the glyphs and
  one of the attributes from the cursor on, and the cursor ends after them.
\<close>

definition narrow :: "unicode_data \<Rightarrow> console_state \<Rightarrow> char32 \<Rightarrow> bool" where
  "narrow U s ch \<longleftrightarrow>
     char_width_for_mode U ch (cs_text_measurement s) (cs_ambiguous_is_wide s) \<le> 1 \<and> char_width_console ch \<le> 1"

text \<open>One character.\<close>

lemma set_narrow:
  assumes inv: "sb_inv b" and p: "sb_valid b p" and w: "char_width_console ch \<le> 1"
  shows "sb_text (sb_set_u32 p ch a b) = g_write_run (cell_index b p) [([ch], 1)] (sb_text b)"
    "sb_attrs (sb_set_u32 p ch a b) = overwrite (cell_index b p) [text_attribute a] (sb_attrs b)"
proof -
  let ?W = "nat (cX (sb_size b))" and ?y = "nat (cY p)" and ?x = "nat (cX p)"
  have xy: "0 \<le> cX p" "cX p < cX (sb_size b)" "0 \<le> cY p" "cY p < cY (sb_size b)" using p by (simp_all add: sb_valid_def)
  have u: "to_u16 (cX p) = ?x" using xy sb_invD(2) [OF inv] by (simp add: to_u16_id)
  have e: "sb_set_u32 p ch a b = sb_update (cY p) (write_glyph ?x [ch] 1 (text_attribute a)) b"
  proof -
    have "char_width_console ch = 0 \<or> char_width_console ch = 1" using w by linarith
    then show ?thesis using p by (auto simp: sb_set_u32_def sb_write_glyph_def Let_def u)
  qed
  have ok: "row_ok (sb_lines b ! ?y)" "row_width (sb_lines b ! ?y) = ?W" using sb_line_ok [OF inv xy(3,4)] .
  have x: "?x < row_width (sb_lines b ! ?y)" "?x + 1 \<le> ?W" using xy ok(2) by linarith+
  note G = write_glyph_thin [OF ok(1) x(1), of 1 "[ch]" 1 "text_attribute a", simplified]
  have y: "?y < length (sb_lines b)" using sb_invD(5) [OF inv] xy by simp
  have one: "Suc 0 = min (Suc 0) (row_width (sb_lines b ! ?y) - ?x)" using x(1) by simp
  have row: "row_ok (write_glyph ?x [ch] 1 (text_attribute a) (sb_lines b ! ?y))"
    "row_glyphs (write_glyph ?x [ch] 1 (text_attribute a) (sb_lines b ! ?y)) =
      g_write_run ?x [([ch], 1)] (row_glyphs (sb_lines b ! ?y))"
    "row_attrs (write_glyph ?x [ch] 1 (text_attribute a) (sb_lines b ! ?y)) =
      overwrite ?x [text_attribute a] (row_attrs (sb_lines b ! ?y))"
    using G one by (simp_all add: g_write_def)
  have gl: "\<forall>R \<in> set (map row_glyphs (sb_lines b)). gpos R \<and> gwidth R = ?W"
    using sb_ok_obs_glyphs sb_lines_ok [OF inv] by auto
  have al: "\<forall>R \<in> set (map row_attrs (sb_lines b)). True \<and> length R = ?W"
    using sb_ok_obs_attrs sb_lines_ok [OF inv] by auto
  show "sb_text (sb_set_u32 p ch a b) = g_write_run (cell_index b p) [([ch], 1)] (sb_text b)"
    using glyph_store.put_rows(1) [OF gl, of ?y ?x "[([ch], 1)]"] y x row row_okD(5) [OF row(1)]
    by (simp add: e sb_text_def cell_index_def map_lines_update [OF inv xy(3,4)])
  show "sb_attrs (sb_set_u32 p ch a b) = overwrite (cell_index b p) [text_attribute a] (sb_attrs b)"
    using attr_store.put_rows(1) [OF al, of ?y ?x "[text_attribute a]"] y x row
    by (simp add: e sb_attrs_def cell_index_def map_lines_update [OF inv xy(3,4)])
qed


lemma cell_index_end: "sb_valid b p \<Longrightarrow> cell_index b p < nat (cX (sb_size b)) * nat (cY (sb_size b))"
proof -
  assume p: "sb_valid b p"
  then have "nat (cX p) < nat (cX (sb_size b))" "Suc (nat (cY p)) \<le> nat (cY (sb_size b))" by (auto simp: sb_valid_def)
  then have "cell_index b p < Suc (nat (cY p)) * nat (cX (sb_size b))" by (simp add: cell_index_def)
  also have "\<dots> \<le> nat (cY (sb_size b)) * nat (cX (sb_size b))"
    using \<open>Suc (nat (cY p)) \<le> nat (cY (sb_size b))\<close> by (rule mult_le_mono1)
  finally show ?thesis by (simp add: mult.commute)
qed

lemma cell_index_position:
  assumes "0 \<le> cX p" "cX p < cX (sb_size b)" "0 \<le> cY p"
  shows "int (cell_index b p mod nat (cX (sb_size b))) = cX p" "int (cell_index b p div nat (cX (sb_size b))) = cY p"
proof -
  have x: "nat (cX p) < nat (cX (sb_size b))" using assms by linarith
  have "cell_index b p mod nat (cX (sb_size b)) = nat (cX p)" "cell_index b p div nat (cX (sb_size b)) = nat (cY p)"
    unfolding cell_index_def using x by simp_all
  then show "int (cell_index b p mod nat (cX (sb_size b))) = cX p" "int (cell_index b p div nat (cX (sb_size b))) = cY p"
    using assms by simp_all
qed

lemma sb_text_props:
  assumes "sb_inv b"
  shows "gpos (sb_text b)" "gwidth (sb_text b) = nat (cX (sb_size b)) * nat (cY (sb_size b))"
    "length (sb_attrs b) = nat (cX (sb_size b)) * nat (cY (sb_size b))"
proof -
  have gl: "\<forall>R \<in> set (map row_glyphs (sb_lines b)). gpos R \<and> gwidth R = nat (cX (sb_size b))"
    using sb_ok_obs_glyphs sb_lines_ok [OF assms] by auto
  have al: "\<forall>R \<in> set (map row_attrs (sb_lines b)). True \<and> length R = nat (cX (sb_size b))"
    using sb_ok_obs_attrs sb_lines_ok [OF assms] by auto
  show "gpos (sb_text b)" "gwidth (sb_text b) = nat (cX (sb_size b)) * nat (cY (sb_size b))"
    "length (sb_attrs b) = nat (cX (sb_size b)) * nat (cY (sb_size b))"
    using glyph_store.concat_props [OF gl] attr_store.concat_props [OF al] sb_invD(5) [OF assms]
    by (simp_all add: sb_text_def sb_attrs_def mult.commute)
qed

lemma narrow_loop:
  assumes "sb_inv b" and "cs_buffer_size s = sb_size b" and "sb_valid b pos" and "\<forall>ch \<in> set chs. narrow U s ch"
    and "chs \<noteq> []" and "apply_text_loop U s chs pos b = (pos', b')"
    and "n = min (length chs) (cells_from b pos)" and "i = cell_index b pos" and "W = nat (cX (sb_size b))"
  shows "sb_text b' = g_write_run i (g_chars (take n chs)) (sb_text b)
    \<and> sb_attrs b' = overwrite i (replicate n (text_attribute (cs_attributes s))) (sb_attrs b)
    \<and> pos' = coord (int ((i + n) mod W)) (int ((i + n) div W))"
  using assms
proof (induction chs arbitrary: pos b n i)
  case (Cons ch chs)
  let ?a = "text_attribute (cs_attributes s)" and ?H = "nat (cY (sb_size b))"
  let ?b1 = "sb_set_u32 pos ch (cs_attributes s) b"
  define pos2 where "pos2 = (if cX pos + 1 \<ge> cX (sb_size b) then coord 0 (cY pos + 1) else coord (cX pos + 1) (cY pos))"
  note inv = Cons.prems(1) and i = Cons.prems(8) and W = Cons.prems(9)
  have xy: "0 \<le> cX pos" "cX pos < cX (sb_size b)" "0 \<le> cY pos" "cY pos < cY (sb_size b)"
    using Cons.prems(3) by (simp_all add: sb_valid_def)
  note dims = sb_invD(1-4) [OF inv]
  have nar: "char_width_for_mode U ch (cs_text_measurement s) (cs_ambiguous_is_wide s) \<le> 1" "char_width_console ch \<le> 1"
    using Cons.prems(4) by (simp_all add: narrow_def)
  have cw: "(if char_width_for_mode U ch (cs_text_measurement s) (cs_ambiguous_is_wide s) < 1 then 1
     else char_width_for_mode U ch (cs_text_measurement s) (cs_ambiguous_is_wide s)) = 1" using nar(1) by simp
  have nowrap: "\<not> cX (cs_buffer_size s) < cX pos + int 1" using xy(2) Cons.prems(2) by simp
  have cond: "\<not> cX (cs_buffer_size s) \<le> cX pos" "\<not> cY (cs_buffer_size s) \<le> cY pos" using xy Cons.prems(2) by simp_all
  have short: "to_short (cX pos + int 1) = cX pos + 1" "to_short (cY pos + 1) = cY pos + 1"
    using xy dims by (simp_all add: to_short_id)
  have step: "apply_text_loop U s (ch # chs) pos b = apply_text_loop U s chs pos2 ?b1"
    unfolding apply_text_loop.simps(2) Let_def cw if_not_P [OF cond(1)] if_not_P [OF cond(2)] if_not_P [OF nowrap]
      short pos2_def
    using nowrap Cons.prems(2) by simp
  have inv1: "sb_inv ?b1" "sb_size ?b1 = sb_size b" by (simp_all add: sb_set_u32_inv inv)
  note S = set_narrow [OF inv Cons.prems(3) nar(2), of "cs_attributes s"]
  have i2: "cell_index b pos2 = Suc i"
  proof (cases "cX pos + 1 \<ge> cX (sb_size b)")
    case True
    then have "nat (cX (sb_size b)) = Suc (nat (cX pos))" using xy by linarith
    moreover have "nat (cY pos + 1) = Suc (nat (cY pos))" using xy by simp
    ultimately show ?thesis using True by (simp add: pos2_def i cell_index_def)
  next
    case False
    then show ?thesis using xy by (simp add: pos2_def i cell_index_def)
  qed
  have p2: "0 \<le> cX pos2" "cX pos2 < cX (sb_size b)" "0 \<le> cY pos2" "cY pos2 \<le> cY (sb_size b)"
    using xy dims by (auto simp: pos2_def)
  have lt: "i < W * ?H" using cell_index_end [OF Cons.prems(3)] by (simp add: i W)
  have c1: "1 \<le> cells_from b pos" using lt by (simp add: cells_from_def i W)
  show ?case
  proof (cases "chs = [] \<or> cY pos2 \<ge> cY (sb_size b)")
    case True
    have stop: "apply_text_loop U s chs pos2 ?b1 = (pos2, ?b1)"
    proof (cases chs)
      case (Cons c cs)
      then have "cY (cs_buffer_size s) \<le> cY pos2" using True \<open>cs_buffer_size s = sb_size b\<close> by simp
      then show ?thesis unfolding Cons apply_text_loop.simps(2) Let_def by simp
    qed simp
    have n: "n = 1"
    proof (cases "chs = []")
      case True
      then show ?thesis using c1 Cons.prems(7) by simp
    next
      case False
      then have "cX pos2 = 0" "cY pos2 = cY (sb_size b)" using True p2 xy(4) by (auto simp: pos2_def split: if_splits)
      then have "Suc i = ?H * W" using i2 by (simp add: cell_index_def W)
      then have "cells_from b pos = 1" by (simp add: cells_from_def i W mult.commute)
      then show ?thesis using Cons.prems(7) by simp
    qed
    have "pos' = pos2" "b' = ?b1" using Cons.prems(6) step stop by simp_all
    then show ?thesis using S n cell_index_position [OF p2(1-3)] i2 W i by (cases pos2) (simp add: g_chars_def)
  next
    case False
    have v2: "sb_valid ?b1 pos2" using p2 False by (simp add: sb_valid_def)
    have c2: "cells_from ?b1 pos2 = cells_from b pos - 1" using i2 by (simp add: cells_from_def cell_index_def i)
    have prem: "cs_buffer_size s = sb_size ?b1" "\<forall>c \<in> set chs. narrow U s c" "chs \<noteq> []"
      "apply_text_loop U s chs pos2 ?b1 = (pos', b')" "Suc i = cell_index ?b1 pos2" "W = nat (cX (sb_size ?b1))"
      using Cons.prems(2,4,6) False step i2 W by (simp_all add: cell_index_def)
    have n: "n = Suc (min (length chs) (cells_from ?b1 pos2))" using Cons.prems(7) c1 c2 by simp
    define m where "m = min (length chs) (cells_from ?b1 pos2)"
    note IH = Cons.IH [OF inv1(1) prem(1) v2 prem(2,3,4) m_def prem(5,6)]
    have fit: "i + Suc m \<le> W * ?H"
    proof -
      have "m \<le> cells_from b pos - 1" by (simp add: m_def c2)
      then show ?thesis using lt by (simp add: cells_from_def i W)
    qed
    have "m \<le> length chs" by (simp add: m_def)
    then have lm: "length (take m chs) = m" by simp
    have "g_write_run (i + gwidth [([ch], 1)]) (g_chars (take m chs)) (g_write_run i [([ch], 1)] (sb_text b)) =
        g_write_run i ([([ch], 1)] @ g_chars (take m chs)) (sb_text b)"
      using fit sb_text_props [OF inv] lm by (intro g_write_run_append) (simp_all add: W)
    moreover have "overwrite (i + length [?a]) (replicate m ?a) (overwrite i [?a] (sb_attrs b)) =
        overwrite i ([?a] @ replicate m ?a) (sb_attrs b)"
      using fit sb_text_props [OF inv] by (intro overwrite_overwrite) (simp_all add: W)
    ultimately show ?thesis using IH S n by (simp add: m_def [symmetric] i)
  qed
qed simp


text \<open>C27: A text message of one-column characters writes its characters from the cursor on in reading order, as
  many as the screen still has cells for, with the current attribute, and changes nothing else (a wide
  glyph cut by either end becomes spaces). The cursor ends in the cell after them, in column 0 of the
  last row when they reach the end of the screen: the local model does not scroll.\<close>
theorem text_message_linear:
  assumes ok: "dispatch_ok (s, b)" and nar: "\<forall>ch \<in> set chs. narrow U s ch" and ne: "chs \<noteq> []"
    and r: "vt_msg_apply_state U mv text_msg \<lparr>m_payload = P_text chs, m_key_modifier = k\<rparr> (s, b) = (s', b')"
    and n: "n = min (length chs) (cells_from b (cs_position s))" and i: "i = cell_index b (cs_position s)"
    and W: "W = nat (cX (sb_size b))" and H: "H = nat (cY (sb_size b))"
  shows "sb_text b' = g_write_run i (g_chars (take n chs)) (sb_text b)
    \<and> sb_attrs b' = overwrite i (replicate n (text_attribute (cs_attributes s))) (sb_attrs b)
    \<and> s' = set_position (coord (int ((i + n) mod W)) (int (min ((i + n) div W) (H - 1)))) s"
proof -
  have D: "sb_inv b" "cs_buffer_size s = sb_size b" "sb_valid b (cs_position s)" using ok by (auto simp: dispatch_ok_def)
  note dims = sb_invD(1-4) [OF D(1)]
  obtain pos c where l: "apply_text_loop U s chs (cs_position s) b = (pos, c)" by fastforce
  note L = narrow_loop [OF D nar ne l n i W]
  have W1: "0 < W" "int W = cX (sb_size b)" "0 < H" "int H = cY (sb_size b)" using dims by (simp_all add: W H)
  have "(i + n) mod W < W" using W1(1) by simp
  then have x: "int ((i + n) mod W) < cX (sb_size b)" using W1(2) by linarith
  have "i < W * H" using cell_index_end [OF D(3)] by (simp add: i W H)
  moreover have "n \<le> W * H - i" unfolding n by (simp add: cells_from_def i W H)
  ultimately have "i + n \<le> H * W" by (simp add: mult.commute)
  then have q: "(i + n) div W \<le> H" using W1(1) by (metis div_le_mono nonzero_mult_div_cancel_right less_not_refl)
  have pos: "cX pos = int ((i + n) mod W)" "cY pos = int ((i + n) div W)" using L by simp_all
  have y: "(if cY pos \<ge> cY (sb_size b) then to_short (cY (sb_size b) - 1) else cY pos) = int (min ((i + n) div W) (H - 1))"
    using q W1 dims pos(2) by (auto simp: to_short_id min_def)
  have px: "\<not> cX pos \<ge> cX (sb_size b)" using x pos(1) by simp
  have "apply_text U chs s b = (set_position (coord (cX pos) (int (min ((i + n) div W) (H - 1)))) s, c)"
    unfolding apply_text_def l Let_def prod.case D(2) y if_not_P [OF px] using pos(1) by simp
  then have "s' = set_position (coord (cX pos) (int (min ((i + n) div W) (H - 1)))) s" "b' = c"
    using r by (simp_all add: vt_msg_apply_state_def payload_text_def)
  then show ?thesis using L pos(1) by simp
qed

theorem text_message_linear_witness:
  "sb_text (snd (vt_msg_apply_state sample_unicode (\<lambda>_. row_empty) text_msg \<lparr>m_payload = P_text [0x61, 0x62, 0x63], m_key_modifier = 1\<rparr>
     (console_state_init\<lparr>cs_buffer_size := coord 2 2, cs_tab_stops := [],
        cs_cursor := \<lparr>cu_size = 25, cu_visible = True, cu_position = coord 1 0, cu_pending_wrap = False\<rparr>\<rparr>,
      sb_new (coord 2 2)))) = [([0x20], 1), ([0x61], 1), ([0x62], 1), ([0x63], 1)]"
proof -
  let ?s = "console_state_init\<lparr>cs_buffer_size := coord 2 2, cs_tab_stops := [],
        cs_cursor := \<lparr>cu_size = 25, cu_visible = True, cu_position = coord 1 0, cu_pending_wrap = False\<rparr>\<rparr>"
  let ?b = "sb_new (coord 2 2)" and ?m = "\<lparr>m_payload = P_text [0x61, 0x62, 0x63], m_key_modifier = 1\<rparr>"
  obtain s' b' where r: "vt_msg_apply_state sample_unicode (\<lambda>_. row_empty) text_msg ?m (?s, ?b) = (s', b')" by fastforce
  have b: "sb_inv ?b" "sb_size ?b = coord 2 2" by code_simp+
  have ok: "dispatch_ok (?s, ?b)"
    using b by (simp add: dispatch_ok_def sb_valid_def console_state_init_def init_tab_stops_def saved_cursor_init_def)
  have m: "cs_text_measurement ?s = console" "cs_position ?s = coord 1 0"
    by (simp_all add: console_state_init_def init_tab_stops_def)
  have "\<forall>ch \<in> set [0x61, 0x62, 0x63]. narrow sample_unicode ?s ch" unfolding narrow_def m by code_simp
  note T = text_message_linear [OF ok this _ r refl refl refl refl, simplified m(2), THEN conjunct1]
  have "min (length [0x61, 0x62, 0x63::char32]) (cells_from ?b (coord 1 0)) = 3" by code_simp
  moreover have "g_write_run (cell_index ?b (coord 1 0)) (g_chars (take 3 [0x61, 0x62, 0x63])) (sb_text ?b) =
      [([0x20], 1), ([0x61], 1), ([0x62], 1), ([0x63], 1)]" by code_simp
  ultimately show ?thesis using T by (simp add: r)
qed

end
