(* ===== verification/Spec2Isabelle.thy ===== *)
theory Spec2Isabelle
  imports Line_Display Read_Completion Terminal_Replies Roundtrip_Sgr Lf_To_Crlf Dispatch_Text Dispatch_State
begin

text \<open>
  A verification library for the console host of this repository.
\<close>

end
